(* ===== verification/Picon_Prelude.thy ===== *)
theory Picon_Prelude
  imports Main "HOL-Library.Word" "HOL-Library.Monad_Syntax"
begin

text \<open>
  Shared vocabulary of the development: the machine integer types of the C code, the
  reading of \<open>None\<close> as undefined behaviour, array accesses through possibly null pointers,
  and the little-endian layout of integers on the pipes.

  Everywhere below a C computation that may touch memory is a function into \<open>'a option\<close>:
  \<open>Some x\<close> is a defined result, \<open>None\<close> is undefined behaviour (a null or dangling pointer
  is followed, an access is out of bounds, or unrelated pointers are compared). Error codes
  are ordinary values and never \<open>None\<close>.
\<close>

section \<open>Machine integers\<close>

type_synonym byte = "8 word"
type_synonym u16 = "16 word"
type_synonym u32 = "32 word"
type_synonym u64 = "64 word"

named_theorems c_mem \<comment> \<open>memory accesses: arrays, pointers, heaps\<close>
named_theorems wire \<comment> \<open>layout of values on the pipes\<close>
named_theorems run_defs \<comment> \<open>the pieces of the signal loop\<close>

section \<open>Arrays behind pointers\<close>

text \<open>
  A pointer to a dynamically allocated array is \<open>None\<close> for \<open>NULL\<close> and \<open>Some xs\<close> for an
  array of \<open>length xs\<close> elements. Following it is defined only inside the array.
\<close>

definition arr_get :: "'a list option \<Rightarrow> nat \<Rightarrow> 'a option" where
  "arr_get a i = (case a of None \<Rightarrow> None | Some xs \<Rightarrow> if i < length xs then Some (xs ! i) else None)"

definition arr_set :: "'a list option \<Rightarrow> nat \<Rightarrow> 'a \<Rightarrow> 'a list option option" where
  "arr_set a i v =
     (case a of None \<Rightarrow> None
      | Some xs \<Rightarrow> if i < length xs then Some (Some (xs[i := v])) else None)"

lemma arr_get_simps [simp, c_mem]:
  "arr_get None i = None"
  "arr_get (Some xs) i = (if i < length xs then Some (xs ! i) else None)"
  by (simp_all add: arr_get_def)

lemma arr_set_simps [simp, c_mem]:
  "arr_set None i v = None"
  "arr_set (Some xs) i v = (if i < length xs then Some (Some (xs[i := v])) else None)"
  by (simp_all add: arr_set_def)

lemma arr_get_SomeD: "arr_get a i = Some x \<Longrightarrow> \<exists>xs. a = Some xs \<and> i < length xs \<and> xs ! i = x"
  by (cases a) (auto split: if_splits)

lemma arr_set_SomeD:
  "arr_set a i v = Some a' \<Longrightarrow> \<exists>xs. a = Some xs \<and> i < length xs \<and> a' = Some (xs[i := v])"
  by (cases a) (auto split: if_splits)

section \<open>Little-endian integers\<close>

text \<open>
  The monitor and the instrumented program exchange structures in the memory layout of the
  machine both run on; the prelink script writes its tables with \<open>struct.pack('<I', _)\<close>.
  \<open>get16\<close> and \<open>get32\<close> read a field at a byte offset of a buffer, undefined past its end.
\<close>

unbundle bit_operations_syntax

definition le16 :: "u16 \<Rightarrow> byte list" where
  "le16 w = [ucast w, ucast (drop_bit 8 w)]"

definition le32 :: "u32 \<Rightarrow> byte list" where
  "le32 w = [ucast w, ucast (drop_bit 8 w), ucast (drop_bit 16 w), ucast (drop_bit 24 w)]"

definition de16 :: "byte \<Rightarrow> byte \<Rightarrow> u16" where
  "de16 a b = ucast a OR push_bit 8 (ucast b)"

definition de32 :: "byte \<Rightarrow> byte \<Rightarrow> byte \<Rightarrow> byte \<Rightarrow> u32" where
  "de32 a b c d = ucast a OR push_bit 8 (ucast b) OR push_bit 16 (ucast c) OR push_bit 24 (ucast d)"

definition get16 :: "byte list \<Rightarrow> nat \<Rightarrow> u16 option" where
  "get16 bs i = (if i + 2 \<le> length bs then Some (de16 (bs ! i) (bs ! (i + 1))) else None)"

definition get32 :: "byte list \<Rightarrow> nat \<Rightarrow> u32 option" where
  "get32 bs i =
     (if i + 4 \<le> length bs
      then Some (de32 (bs ! i) (bs ! (i + 1)) (bs ! (i + 2)) (bs ! (i + 3))) else None)"

lemma length_le [simp, wire]: "length (le16 w) = 2" "length (le32 v) = 4"
  by (simp_all add: le16_def le32_def)

lemma de16_parts [simp, wire]: "de16 (ucast w) (ucast (drop_bit 8 w)) = w" for w :: u16
  unfolding de16_def
proof (rule bit_word_eqI)
  fix n assume "n < LENGTH(16)"
  then consider "n < 8" | "8 \<le> n" "n < 16" by fastforce
  then show "bit ((ucast (ucast w :: byte) :: u16) OR
               push_bit 8 (ucast (ucast (drop_bit 8 w) :: byte))) n
             = bit w n"
    by cases (auto simp: bit_simps)
qed

lemma de32_parts [simp, wire]:
  "de32 (ucast w) (ucast (drop_bit 8 w)) (ucast (drop_bit 16 w)) (ucast (drop_bit 24 w)) = w"
  for w :: u32
  unfolding de32_def
proof (rule bit_word_eqI)
  fix n assume "n < LENGTH(32)"
  then consider "n < 8" | "8 \<le> n" "n < 16" | "16 \<le> n" "n < 24" | "24 \<le> n" "n < 32" by fastforce
  then show "bit ((ucast (ucast w :: byte) :: u32) OR push_bit 8 (ucast (ucast (drop_bit 8 w) :: byte)) OR
               push_bit 16 (ucast (ucast (drop_bit 16 w) :: byte)) OR
               push_bit 24 (ucast (ucast (drop_bit 24 w) :: byte))) n = bit w n"
    by cases (auto simp: bit_simps)
qed

lemma bit_byte_high: "8 \<le> n \<Longrightarrow> \<not> bit (a :: byte) n"
  using bit_imp_le_length [of a n] by auto

lemma de32_inject:
  assumes "de32 a b c d = de32 a' b' c' d'"
  shows "a = a' \<and> b = b' \<and> c = c' \<and> d = d'"
proof -
  have part: "ucast (de32 a b c d) = a" "ucast (drop_bit 8 (de32 a b c d)) = b"
    "ucast (drop_bit 16 (de32 a b c d)) = c" "ucast (drop_bit 24 (de32 a b c d)) = d" for a b c d
    unfolding de32_def by (rule bit_word_eqI, auto simp: bit_simps bit_byte_high)+
  show ?thesis
    using part [of a b c d] part [of a' b' c' d'] assms by metis
qed

text \<open>What a fixed-width field promises to the parsers and printers that use it.\<close>

locale le_codec =
  fixes enc :: "'a \<Rightarrow> byte list"
    and get :: "byte list \<Rightarrow> nat \<Rightarrow> 'a option"
    and width :: nat
  assumes enc_length: "length (enc v) = width"
    and get_enc: "get (xs @ enc v @ ys) (length xs) = Some v"
    and get_bound: "get bs i = Some v \<Longrightarrow> i + width \<le> length bs"
begin

lemma length_concat_enc: "length (concat (map enc vs)) = width * length vs"
  by (induction vs) (simp_all add: enc_length)

lemma get_array:
  assumes "k < length vs"
  shows "get (xs @ concat (map enc vs) @ ys) (length xs + width * k) = Some (vs ! k)"
proof -
  let ?pre = "xs @ concat (map enc (take k vs))"
  have "concat (map enc vs) =
        concat (map enc (take k vs)) @ enc (vs ! k) @ concat (map enc (drop (Suc k) vs))"
    using assms by (subst id_take_nth_drop [OF assms]) simp
  moreover have "length ?pre = length xs + width * k"
    using assms by (simp add: length_concat_enc)
  ultimately show ?thesis
    using get_enc [of ?pre "vs ! k" "concat (map enc (drop (Suc k) vs)) @ ys"] by simp
qed

lemma enc_inject: "enc v = enc w \<Longrightarrow> v = w"
  using get_enc [of "[]" v "[]"] get_enc [of "[]" w "[]"] by simp

end

interpretation u16_codec: le_codec le16 get16 2
  by unfold_locales (auto simp: get16_def le16_def nth_append split: if_splits)

interpretation u32_codec: le_codec le32 get32 4
  by unfold_locales (auto simp: get32_def le32_def nth_append split: if_splits)

lemma get_le_Nil [simp, wire]:
  "get16 (le16 w @ ys) 0 = Some w" "get32 (le32 v @ ys) 0 = Some v"
  using u16_codec.get_enc [of "[]"] u32_codec.get_enc [of "[]"] by simp_all

text \<open>A module number keeps its value where it is compared with a 32-bit counter.\<close>

lemma unat_ucast_u16 [simp]: "unat (ucast (m :: u16) :: u32) = unat m"
proof -
  have "unat m < 2 ^ 32" using unsigned_less [of m, where ?'a = nat] by simp
  then show ?thesis by (simp add: unsigned_ucast_eq take_bit_nat_eq_self)
qed

section \<open>Partial correctness\<close>

text \<open>
  \<open>yields P r\<close>: if the computation is defined, its result satisfies \<open>P\<close>. The rules follow the
  shape of a computation, so that \<open>intro vc\<close> reduces a statement about it to one goal per
  path, with the conditions of the path as premises.
\<close>

definition yields :: "('a \<Rightarrow> bool) \<Rightarrow> 'a option \<Rightarrow> bool" where
  "yields P r \<longleftrightarrow> (\<forall>x. r = Some x \<longrightarrow> P x)"

named_theorems vc \<comment> \<open>introduction rules for partial correctness\<close>

lemma yieldsD: "yields P r \<Longrightarrow> r = Some x \<Longrightarrow> P x"
  by (simp add: yields_def)

lemma yields_Some [vc]: "P x \<Longrightarrow> yields P (Some x)"
  by (simp add: yields_def)

lemma yields_bind [vc]: "(\<And>x. m = Some x \<Longrightarrow> yields P (f x)) \<Longrightarrow> yields P (m \<bind> f)"
  by (auto simp: yields_def bind_eq_Some_conv)

lemma yields_if [vc]: "(b \<Longrightarrow> yields P x) \<Longrightarrow> (\<not> b \<Longrightarrow> yields P y) \<Longrightarrow> yields P (if b then x else y)"
  by simp

lemma yields_let [vc]: "yields P (f a) \<Longrightarrow> yields P (let x = a in f x)"
  by (simp add: Let_def)

lemma yields_prod [vc]: "(\<And>x y. p = (x, y) \<Longrightarrow> yields P (f x y)) \<Longrightarrow> yields P (case p of (x, y) \<Rightarrow> f x y)"
  by (simp add: split_beta)

end
