(* ===== verification/C_Memory.thy ===== *)
theory C_Memory
  imports Picon_Prelude
begin

text \<open>
  The part of the C memory model that the growable stacks of the monitor depend on: pointers
  as an allocation number with an element offset, typed heaps, and \<open>calloc\<close>, \<open>realloc\<close> and
  \<open>free\<close>. The allocator's decisions (refuse, grow in place, move) are a stream that the
  caller passes along; nothing is assumed about it here.

  The offset is an integer, because the stacks keep a pointer to the element before the
  first one while they are empty.
\<close>

section \<open>Pointers\<close>

datatype ptr = NULL | Ptr nat int

definition ptr_add :: "ptr \<Rightarrow> int \<Rightarrow> ptr option" where
  "ptr_add p k = (case p of NULL \<Rightarrow> None | Ptr b i \<Rightarrow> Some (Ptr b (i + k)))"

text \<open>Relational operators and subtraction need two pointers into one allocation.\<close>

definition ptr_less :: "ptr \<Rightarrow> ptr \<Rightarrow> bool option" where
  "ptr_less p q =
     (case (p, q) of (Ptr b i, Ptr c j) \<Rightarrow> if b = c then Some (i < j) else None | _ \<Rightarrow> None)"

definition ptr_diff :: "ptr \<Rightarrow> ptr \<Rightarrow> int option" where
  "ptr_diff p q =
     (case (p, q) of (Ptr b i, Ptr c j) \<Rightarrow> if b = c then Some (i - j) else None | _ \<Rightarrow> None)"

lemma ptr_simps [simp, c_mem]:
  "ptr_add (Ptr b i) k = Some (Ptr b (i + k))" "ptr_add NULL k = None"
  "ptr_less (Ptr b i) (Ptr c j) = (if b = c then Some (i < j) else None)"
  "ptr_less NULL q = None" "ptr_less p NULL = None"
  "ptr_diff (Ptr b i) (Ptr c j) = (if b = c then Some (i - j) else None)"
  "ptr_diff NULL q = None" "ptr_diff p NULL = None"
  by (simp_all add: ptr_add_def ptr_less_def ptr_diff_def split: ptr.splits)

section \<open>Heaps of one element type\<close>

text \<open>A live allocation has a size and contents; a cell without a value is uninitialised.\<close>

record 'a heap =
  cells :: "nat \<Rightarrow> (nat \<times> (nat \<Rightarrow> 'a option)) option"
  fresh :: nat

definition heap_empty :: "'a heap" where
  "heap_empty = \<lparr>cells = (\<lambda>_. None), fresh = 0\<rparr>"

datatype alloc_result = Alloc_Fail | Alloc_InPlace | Alloc_Move

type_synonym alloc = "nat \<Rightarrow> alloc_result"

abbreviation alloc_rest :: "alloc \<Rightarrow> alloc" where
  "alloc_rest al \<equiv> (\<lambda>n. al (Suc n))"

definition heap_load :: "ptr \<Rightarrow> 'a heap \<Rightarrow> 'a option" where
  "heap_load p h =
     (case p of NULL \<Rightarrow> None
      | Ptr b i \<Rightarrow> (case cells h b of None \<Rightarrow> None
          | Some (n, c) \<Rightarrow> if 0 \<le> i \<and> i < int n then c (nat i) else None))"

definition heap_store :: "ptr \<Rightarrow> 'a \<Rightarrow> 'a heap \<Rightarrow> 'a heap option" where
  "heap_store p v h =
     (case p of NULL \<Rightarrow> None
      | Ptr b i \<Rightarrow> (case cells h b of None \<Rightarrow> None
          | Some (n, c) \<Rightarrow>
              if 0 \<le> i \<and> i < int n
              then Some (h\<lparr>cells := (cells h)(b \<mapsto> (n, c(nat i \<mapsto> v)))\<rparr>) else None))"

definition heap_calloc :: "'a \<Rightarrow> nat \<Rightarrow> alloc_result \<Rightarrow> 'a heap \<Rightarrow> ptr \<times> 'a heap" where
  "heap_calloc zero n r h =
     (if r = Alloc_Fail then (NULL, h)
      else (Ptr (fresh h) 0,
            h\<lparr>cells := (cells h)(fresh h \<mapsto> (n, \<lambda>_. Some zero)), fresh := Suc (fresh h)\<rparr>))"

text \<open>
  \<open>realloc\<close> keeps the old contents and leaves the new cells uninitialised. A refused request
  leaves the old allocation alive; a moved one ends its lifetime.
\<close>

definition heap_realloc :: "ptr \<Rightarrow> nat \<Rightarrow> alloc_result \<Rightarrow> 'a heap \<Rightarrow> (ptr \<times> 'a heap) option" where
  "heap_realloc p n r h =
     (case p of
        NULL \<Rightarrow>
          Some (if r = Alloc_Fail then (NULL, h)
                else (Ptr (fresh h) 0,
                      h\<lparr>cells := (cells h)(fresh h \<mapsto> (n, \<lambda>_. None)), fresh := Suc (fresh h)\<rparr>))
      | Ptr b i \<Rightarrow>
          (case cells h b of None \<Rightarrow> None
           | Some (m, c) \<Rightarrow>
               if i \<noteq> 0 then None
               else let c' = (\<lambda>j. if j < m then c j else None) in
                 Some (case r of
                     Alloc_Fail \<Rightarrow> (NULL, h)
                   | Alloc_InPlace \<Rightarrow> (p, h\<lparr>cells := (cells h)(b \<mapsto> (n, c'))\<rparr>)
                   | Alloc_Move \<Rightarrow>
                       (Ptr (fresh h) 0,
                        h\<lparr>cells := ((cells h)(b := None))(fresh h \<mapsto> (n, c')),
                          fresh := Suc (fresh h)\<rparr>))))"

definition heap_free :: "ptr \<Rightarrow> 'a heap \<Rightarrow> 'a heap option" where
  "heap_free p h =
     (case p of NULL \<Rightarrow> Some h
      | Ptr b i \<Rightarrow>
          if cells h b \<noteq> None \<and> i = 0 then Some (h\<lparr>cells := (cells h)(b := None)\<rparr>) else None)"

lemma heap_load_simps [simp, c_mem]:
  "heap_load NULL h = None"
  "cells h b = None \<Longrightarrow> heap_load (Ptr b i) h = None"
  "cells h b = Some (n, c) \<Longrightarrow>
     heap_load (Ptr b i) h = (if 0 \<le> i \<and> i < int n then c (nat i) else None)"
  by (simp_all add: heap_load_def)

lemma heap_store_simps [simp, c_mem]:
  "heap_store NULL v h = None"
  "cells h b = None \<Longrightarrow> heap_store (Ptr b i) v h = None"
  "cells h b = Some (n, c) \<Longrightarrow>
     heap_store (Ptr b i) v h =
       (if 0 \<le> i \<and> i < int n
        then Some (h\<lparr>cells := (cells h)(b \<mapsto> (n, c(nat i \<mapsto> v)))\<rparr>) else None)"
  by (simp_all add: heap_store_def)

text \<open>A store is read back, and changes no other cell of its allocation.\<close>

lemma heap_load_store:
  assumes "heap_store (Ptr b i) v h = Some h'"
  shows "heap_load (Ptr b j) h' = (if j = i then Some v else heap_load (Ptr b j) h)"
proof -
  obtain n c where nc: "cells h b = Some (n, c)"
    using assms by (cases "cells h b") auto
  with assms have "0 \<le> i" "i < int n" "h' = h\<lparr>cells := (cells h)(b \<mapsto> (n, c(nat i \<mapsto> v)))\<rparr>"
    by (auto split: if_splits)
  with nc show ?thesis by auto
qed

section \<open>The allocator's stream\<close>

text \<open>Requests consume the stream of answers from its front.\<close>

definition alloc_later :: "alloc \<Rightarrow> alloc \<Rightarrow> bool" where
  "alloc_later al al' \<longleftrightarrow> (\<exists>n. al' = (\<lambda>k. al (n + k)))"

lemma alloc_later_refl [simp]: "alloc_later al al"
  unfolding alloc_later_def by (rule exI [of _ 0]) simp

lemma alloc_later_rest: "alloc_later al (alloc_rest al)"
  unfolding alloc_later_def by (rule exI [of _ 1]) simp

lemma alloc_later_trans [trans]:
  assumes "alloc_later al al1" "alloc_later al1 al2"
  shows "alloc_later al al2"
proof -
  obtain m n where "al1 = (\<lambda>k. al (m + k))" "al2 = (\<lambda>k. al1 (n + k))"
    using assms by (auto simp: alloc_later_def)
  then have "al2 = (\<lambda>k. al (m + n + k))" by (simp add: add.assoc)
  then show ?thesis unfolding alloc_later_def by blast
qed

lemma alloc_later_range: "alloc_later al al' \<Longrightarrow> range al' \<subseteq> range al"
  by (auto simp: alloc_later_def)

lemma alloc_later_member: "alloc_later al al' \<Longrightarrow> r \<in> range al' \<Longrightarrow> r \<in> range al"
  using alloc_later_range by blast

end
