(* ===== verification/Grow_Stack.thy ===== *)
theory Grow_Stack
  imports C_Memory
begin

text \<open>
  The growable stacks of the monitor. \<open>monitor/src/block_stack.c\<close> with
  \<open>monitor/include/block_stack.h\<close> and \<open>monitor/src/call_stack.c\<close> with
  \<open>monitor/include/call_stack.h\<close> are the same code for two element types and two chunk
  sizes; the functions here carry the chunk size (\<open>ext\<close>) and the zero element as
  arguments, and the theories \<open>Block_Stack\<close> and \<open>Call_Stack\<close> instantiate them.

  A stack record holds the three pointers of the C structure and the heap the elements are
  allocated in. Contents, top first, are \<open>stack_list\<close>; \<open>stack_ok\<close> says that the three
  pointers agree on one live allocation. The lemmas show that the macros behave as a list
  stack as long as no \<open>realloc\<close> moves the array, and what happens when one does.
\<close>

section \<open>The operations\<close>

record 'a stack =
  st_first :: ptr
  st_last :: ptr
  st_top :: ptr
  st_heap :: "'a heap"

definition stack_uninit :: "'a stack" where
  "stack_uninit = \<lparr>st_first = NULL, st_last = NULL, st_top = NULL, st_heap = heap_empty\<rparr>"

definition stack_init :: "nat \<Rightarrow> 'a \<Rightarrow> alloc \<Rightarrow> 'a stack \<Rightarrow> u32 \<times> 'a stack \<times> alloc" where
  "stack_init ext zero al s =
     (let (p, h) = heap_calloc zero ext (al 0) (st_heap s);
          s1 = s\<lparr>st_first := p, st_heap := h\<rparr>
      in case p of
           NULL \<Rightarrow> (-1, s1, alloc_rest al)
         | Ptr b i \<Rightarrow>
             (0, s1\<lparr>st_last := Ptr b (i + (int ext - 1)), st_top := Ptr b (i - 1)\<rparr>, alloc_rest al))"

definition stack_free :: "'a stack \<Rightarrow> 'a stack option" where
  "stack_free s =
     (if st_first s \<noteq> NULL
      then do {
        h \<leftarrow> heap_free (st_first s) (st_heap s);
        Some (s\<lparr>st_first := NULL, st_top := NULL, st_last := NULL, st_heap := h\<rparr>)
      }
      else Some s)"

text \<open>
  The extension stores the result of \<open>realloc\<close> over \<open>first\<close> before it is tested, and updates
  \<open>last\<close> but not \<open>top\<close>.
\<close>

definition stack_extend :: "nat \<Rightarrow> alloc \<Rightarrow> 'a stack \<Rightarrow> (u32 \<times> 'a stack \<times> alloc) option" where
  "stack_extend ext al s = do {
     d \<leftarrow> ptr_diff (st_last s) (st_first s);
     let msize = (d + 1) + int ext;
     (p, h) \<leftarrow> heap_realloc (st_first s) (nat msize) (al 0) (st_heap s);
     let s1 = s\<lparr>st_first := p, st_heap := h\<rparr>;
     if p = NULL then Some (-1, s1, alloc_rest al)
     else do {
       l \<leftarrow> ptr_add p (msize - 1);
       Some (0, s1\<lparr>st_last := l\<rparr>, alloc_rest al)
     }
   }"

definition stack_is_empty :: "'a stack \<Rightarrow> bool option" where
  "stack_is_empty s = ptr_less (st_top s) (st_first s)"

definition stack_top_ptr :: "'a stack \<Rightarrow> ptr" where
  "stack_top_ptr s = st_top s"

definition stack_restore_top :: "'a stack \<Rightarrow> ptr \<Rightarrow> 'a stack" where
  "stack_restore_top s t = s\<lparr>st_top := t\<rparr>"

definition stack_push ::
    "nat \<Rightarrow> 'a \<Rightarrow> u32 \<Rightarrow> alloc \<Rightarrow> 'a stack \<Rightarrow> (u32 \<times> 'a stack \<times> alloc) option" where
  "stack_push ext v err al s = do {
     below \<leftarrow> ptr_less (st_top s) (st_last s);
     (err, s, al) \<leftarrow> (if \<not> below then stack_extend ext al s else Some (err, s, al));
     if err = 0
     then do {
       t \<leftarrow> ptr_add (st_top s) 1;
       h \<leftarrow> heap_store t v (st_heap s);
       Some (err, s\<lparr>st_top := t, st_heap := h\<rparr>, al)
     }
     else Some (err, s, al)
   }"

definition stack_pop :: "'a stack \<Rightarrow> ('a \<times> 'a stack) option" where
  "stack_pop s = do {
     v \<leftarrow> heap_load (st_top s) (st_heap s);
     t \<leftarrow> ptr_add (st_top s) (-1);
     Some (v, s\<lparr>st_top := t\<rparr>)
   }"

text \<open>The trace functions log the elements from the top down to the first one.\<close>

fun stack_trace_from :: "'a heap \<Rightarrow> nat \<Rightarrow> nat \<Rightarrow> 'a list option" where
  "stack_trace_from h b 0 = Some []"
| "stack_trace_from h b (Suc k) = do {
     v \<leftarrow> heap_load (Ptr b (int k)) h;
     vs \<leftarrow> stack_trace_from h b k;
     Some (v # vs)
   }"

definition stack_trace :: "'a stack \<Rightarrow> 'a list option" where
  "stack_trace s = do {
     e \<leftarrow> stack_is_empty s;
     if e then Some []
     else (case (st_top s, st_first s) of
             (Ptr b i, Ptr _ j) \<Rightarrow> if j = 0 then stack_trace_from (st_heap s) b (nat (i + 1)) else None
           | _ \<Rightarrow> None)
   }"

section \<open>Invariant and abstraction\<close>

definition stack_ok :: "'a stack \<Rightarrow> bool" where
  "stack_ok s \<longleftrightarrow>
     (case (st_first s, st_last s, st_top s) of
        (Ptr b i, Ptr c l, Ptr d t) \<Rightarrow>
          i = 0 \<and> b = c \<and> b = d \<and> -1 \<le> t \<and> t \<le> l \<and> b < fresh (st_heap s) \<and>
          (case cells (st_heap s) b of
             None \<Rightarrow> False
           | Some (n, f) \<Rightarrow> l = int n - 1 \<and> (\<forall>k < nat (t + 1). f k \<noteq> None))
      | _ \<Rightarrow> False)"

text \<open>Number of elements, capacity, the allocation in use, and the contents, top first.\<close>

definition stack_height :: "'a stack \<Rightarrow> nat" where
  "stack_height s = (case st_top s of NULL \<Rightarrow> 0 | Ptr b t \<Rightarrow> nat (t + 1))"

definition stack_cap :: "'a stack \<Rightarrow> nat" where
  "stack_cap s = (case st_last s of NULL \<Rightarrow> 0 | Ptr b l \<Rightarrow> nat (l + 1))"

definition stack_block :: "'a stack \<Rightarrow> nat" where
  "stack_block s = (case st_first s of NULL \<Rightarrow> 0 | Ptr b i \<Rightarrow> b)"

definition stack_at :: "'a stack \<Rightarrow> int \<Rightarrow> 'a option" where
  "stack_at s i = heap_load (Ptr (stack_block s) i) (st_heap s)"

definition stack_list :: "'a stack \<Rightarrow> 'a list" where
  "stack_list s = rev (map (\<lambda>i. the (stack_at s (int i))) [0..<stack_height s])"

text \<open>The only way to lose the invariant is an extension that does not happen in place.\<close>

definition room :: "alloc \<Rightarrow> 'a stack \<Rightarrow> bool" where
  "room al s \<longleftrightarrow> stack_height s < stack_cap s \<or> al 0 = Alloc_InPlace"


section \<open>Correctness of the operations\<close>

text \<open>Every well-formed stack has this shape; the proofs below compute with it.\<close>

lemma stack_okE:
  assumes "stack_ok s"
  obtains b n t f where
    "st_first s = Ptr b 0" "st_last s = Ptr b (int n - 1)" "st_top s = Ptr b t"
    "cells (st_heap s) b = Some (n, f)" "-1 \<le> t" "t < int n" "\<forall>k < nat (t + 1). f k \<noteq> None"
    "b < fresh (st_heap s)"
  using assms
  by (fastforce simp: stack_ok_def split: ptr.splits option.splits prod.splits)

lemmas stack_views = stack_height_def stack_cap_def stack_block_def stack_at_def room_def

lemma stack_list_cong:
  assumes "stack_height s' = stack_height s"
    and "\<And>i. i < stack_height s \<Longrightarrow> stack_at s' (int i) = stack_at s (int i)"
  shows "stack_list s' = stack_list s"
  using assms by (simp add: stack_list_def)

lemma length_stack_list [simp]: "length (stack_list s) = stack_height s"
  by (simp add: stack_list_def)

lemma stack_list_Nil_iff: "stack_list s = [] \<longleftrightarrow> stack_height s = 0"
  by (simp add: stack_list_def)

lemma stack_at_defined:
  assumes "stack_ok s" "i < stack_height s"
  shows "\<exists>v. stack_at s (int i) = Some v"
  using assms(1)
proof (rule stack_okE)
  fix b n t f
  assume "st_first s = Ptr b 0" "st_top s = Ptr b t" "cells (st_heap s) b = Some (n, f)" "t < int n"
    "\<forall>k < nat (t + 1). f k \<noteq> None"
  with assms(2) show ?thesis by (auto simp: stack_views)
qed

lemma stack_list_nth:
  "i < stack_height s \<Longrightarrow> stack_list s ! i = the (stack_at s (int (stack_height s - Suc i)))"
  by (simp add: stack_list_def rev_nth)

lemma stack_init_ok:
  assumes "0 < ext" "al 0 \<noteq> Alloc_Fail"
  obtains s' where "stack_init ext zero al s = (0, s', alloc_rest al)" "stack_ok s'"
    "stack_list s' = []" "stack_height s' = 0" "stack_cap s' = ext"
proof -
  obtain s' where s': "stack_init ext zero al s = (0, s', alloc_rest al)"
    and "stack_ok s'" "stack_height s' = 0" "stack_cap s' = ext"
    using assms
    by (simp add: stack_init_def heap_calloc_def stack_ok_def stack_views)
  then show ?thesis
    using that by (simp add: stack_list_def)
qed

lemma stack_init_fail: "al 0 = Alloc_Fail \<Longrightarrow> fst (stack_init ext zero al s) = -1"
  by (simp add: stack_init_def heap_calloc_def)

text \<open>
  With room, a push succeeds, stores the value above the old contents and keeps every other
  element and the allocation in place.
\<close>

lemma stack_push_ok:
  assumes ok: "stack_ok s" and room: "room al s" and ext: "0 < ext"
  obtains s' al' where "stack_push ext v 0 al s = Some (0, s', al')" "stack_ok s'"
    "stack_height s' = Suc (stack_height s)" "stack_block s' = stack_block s"
    "stack_top_ptr s' = Ptr (stack_block s) (int (stack_height s))"
    "\<And>i. i \<le> stack_height s \<Longrightarrow>
       stack_at s' (int i) = (if i = stack_height s then Some v else stack_at s (int i))"
    "stack_height s < stack_cap s \<longrightarrow> al' = al \<and> stack_cap s' = stack_cap s"
    "stack_cap s \<le> stack_cap s'" "al' = al \<or> al' = alloc_rest al"
  using ok
proof (rule stack_okE)
  fix b n t f
  assume view: "st_first s = Ptr b 0" "st_last s = Ptr b (int n - 1)" "st_top s = Ptr b t"
    "cells (st_heap s) b = Some (n, f)" "-1 \<le> t" "t < int n" "\<forall>k < nat (t + 1). f k \<noteq> None"
    "b < fresh (st_heap s)"
  define s1 where "s1 = (if t < int n - 1 then s else
    s\<lparr>st_heap := (st_heap s)\<lparr>cells := (cells (st_heap s))(b \<mapsto> (n + ext, \<lambda>j. if j < n then f j else None))\<rparr>,
      st_last := Ptr b (int n + int ext - 1)\<rparr>)"
  define m where "m = (if t < int n - 1 then n else n + ext)"
  define g where "g = (if t < int n - 1 then f else (\<lambda>j. if j < n then f j else None))"
  define s' where "s' = s1\<lparr>st_top := Ptr b (t + 1),
    st_heap := (st_heap s1)\<lparr>cells := (cells (st_heap s1))(b \<mapsto> (m, g(nat (t + 1) \<mapsto> v)))\<rparr>\<rparr>"
  define al' where "al' = (if t < int n - 1 then al else alloc_rest al)"
  have al0: "\<not> t < int n - 1 \<Longrightarrow> al 0 = Alloc_InPlace"
    using room view by (simp add: stack_views) linarith
  have s1: "st_first s1 = Ptr b 0" "st_last s1 = Ptr b (int m - 1)" "st_top s1 = Ptr b t"
    "cells (st_heap s1) b = Some (m, g)" "t + 1 < int m" "fresh (st_heap s1) = fresh (st_heap s)"
    using view ext by (simp_all add: s1_def m_def g_def)
  have grow: "(if \<not> t < int n - 1 then stack_extend ext al s else Some (0, s, al)) = Some (0, s1, al')"
    using view al0
    by (auto simp: s1_def al'_def stack_extend_def heap_realloc_def Let_def algebra_simps nat_add_distrib)
  have push: "stack_push ext v 0 al s = Some (0, s', al')"
    unfolding stack_push_def using view s1 grow by (simp add: s'_def)
  have s': "st_first s' = Ptr b 0" "st_last s' = Ptr b (int m - 1)" "st_top s' = Ptr b (t + 1)"
    "cells (st_heap s') b = Some (m, g(nat (t + 1) \<mapsto> v))"
    "b < fresh (st_heap s')"
    using s1 view(8) by (simp_all add: s'_def)
  have g: "g k = f k" if "k \<le> nat t" "0 \<le> t" for k
    using view(6) that by (auto simp: g_def)
  show thesis
  proof (rule that [OF push])
    show "stack_ok s'"
      using s' s1(5) view(5,7) g
      by (auto simp: stack_ok_def less_Suc_eq_le nat_add_distrib)
    show "stack_at s' (int i) = (if i = stack_height s then Some v else stack_at s (int i))"
      if "i \<le> stack_height s" for i
      using that s' s1(5) view(1,3-6) g by (auto simp: stack_views)
  qed (use s' view in \<open>auto simp: stack_views stack_top_ptr_def m_def al'_def\<close>)
qed

lemma stack_list_push:
  assumes "stack_height s' = Suc (stack_height s)"
    and "\<And>i. i \<le> stack_height s \<Longrightarrow>
       stack_at s' (int i) = (if i = stack_height s then Some v else stack_at s (int i))"
  shows "stack_list s' = v # stack_list s"
  using assms by (simp add: stack_list_def)

text \<open>A push never starts when an earlier step has already failed and there is space left.\<close>

lemma stack_push_skip:
  assumes "stack_ok s" "stack_height s < stack_cap s" "err \<noteq> 0"
  shows "stack_push ext v err al s = Some (err, s, al)"
  using assms(1)
proof (rule stack_okE)
  fix b n t f
  assume "st_last s = Ptr b (int n - 1)" "st_top s = Ptr b t" "-1 \<le> t"
  with assms(2,3) show ?thesis by (simp add: stack_push_def stack_views) linarith
qed

text \<open>A full stack calls \<open>realloc\<close>; the three possible answers give three different results.\<close>

lemma stack_full_cases:
  assumes "stack_ok s" "stack_height s = stack_cap s" "0 < ext"
  shows stack_push_refused: "al 0 = Alloc_Fail \<Longrightarrow>
      stack_push ext v err al s = Some (-1, s\<lparr>st_first := NULL\<rparr>, alloc_rest al)"
    and stack_push_moved: "al 0 = Alloc_Move \<Longrightarrow> stack_push ext v err al s = None"
    and stack_push_in_place: "al 0 = Alloc_InPlace \<Longrightarrow>
      stack_push ext v err al s = stack_push ext v 0 al s"
proof -
  obtain b n t f where view: "st_first s = Ptr b 0" "st_last s = Ptr b (int n - 1)"
    "st_top s = Ptr b t" "cells (st_heap s) b = Some (n, f)" "-1 \<le> t" "t < int n"
    "b < fresh (st_heap s)"
    using assms(1) by (rule stack_okE)
  then have full: "t = int n - 1"
    using assms(2) by (simp add: stack_views)
  show "stack_push ext v err al s = Some (-1, s\<lparr>st_first := NULL\<rparr>, alloc_rest al)"
    if "al 0 = Alloc_Fail"
    using view full that by (simp add: stack_push_def stack_extend_def heap_realloc_def)
  show "stack_push ext v err al s = None" if "al 0 = Alloc_Move"
    using view full that
    by (auto simp: stack_push_def stack_extend_def heap_realloc_def heap_store_def Let_def)
  show "stack_push ext v err al s = stack_push ext v 0 al s" if "al 0 = Alloc_InPlace"
    using view full that by (simp add: stack_push_def)
qed

lemma stack_is_empty_ok:
  assumes "stack_ok s"
  shows "stack_is_empty s = Some (stack_height s = 0)"
  using assms by (rule stack_okE) (auto simp: stack_is_empty_def stack_views)

text \<open>Restoring an earlier top pointer drops exactly what was pushed above it.\<close>

lemma stack_restore_ok:
  assumes "stack_ok s" "k \<le> stack_height s"
  defines "s' \<equiv> stack_restore_top s (Ptr (stack_block s) (int k - 1))"
  shows "stack_ok s'" "stack_height s' = k" "stack_block s' = stack_block s"
    "stack_at s' i = stack_at s i" "stack_cap s' = stack_cap s"
    "stack_list s' = drop (stack_height s - k) (stack_list s)"
proof -
  obtain b n t f where view: "st_first s = Ptr b 0" "st_last s = Ptr b (int n - 1)"
    "st_top s = Ptr b t" "cells (st_heap s) b = Some (n, f)" "-1 \<le> t" "t < int n"
    "\<forall>k < nat (t + 1). f k \<noteq> None" "b < fresh (st_heap s)"
    using assms(1) by (rule stack_okE)
  have k: "k \<le> nat (t + 1)"
    using assms(2) view by (simp add: stack_views)
  show *: "stack_ok s'" "stack_height s' = k" "stack_block s' = stack_block s"
    "stack_at s' i = stack_at s i" "stack_cap s' = stack_cap s" for i
    using view k by (auto simp: s'_def stack_restore_top_def stack_ok_def stack_views)
  have "stack_list s' = rev (map (\<lambda>i. the (stack_at s (int i))) (take k [0..<stack_height s]))"
    using assms(2) by (simp add: stack_list_def *)
  also have "\<dots> = drop (stack_height s - k) (stack_list s)"
    using assms(2) by (simp add: stack_list_def drop_rev take_map)
  finally show "stack_list s' = drop (stack_height s - k) (stack_list s)" .
qed

lemma stack_pop_ok:
  assumes "stack_ok s" "stack_height s = Suc k" "stack_at s (int k) = Some v"
  shows "stack_pop s = Some (v, stack_restore_top s (Ptr (stack_block s) (int k - 1)))"
  using assms(1)
proof (rule stack_okE)
  fix b n t f
  assume view: "st_first s = Ptr b 0" "st_top s = Ptr b t" "-1 \<le> t"
  with assms(2) have "t = int k" by (simp add: stack_views)
  with view assms(3) show ?thesis
    by (simp add: stack_pop_def stack_restore_top_def stack_views)
qed

text \<open>\<open>kept k s s'\<close>: the stack \<open>s'\<close> is what is left of \<open>s\<close> when only \<open>k\<close> elements remain.\<close>

definition kept :: "nat \<Rightarrow> 'a stack \<Rightarrow> 'a stack \<Rightarrow> bool" where
  "kept k s s' \<longleftrightarrow>
     stack_ok s' \<and> stack_height s' = k \<and> stack_block s' = stack_block s \<and>
     (\<forall>i. stack_at s' i = stack_at s i) \<and> stack_cap s' = stack_cap s"

lemma stack_restore_kept:
  "stack_ok s \<Longrightarrow> k < stack_height s \<Longrightarrow>
   kept (Suc k) s (stack_restore_top s (Ptr (stack_block s) (int k)))"
  using stack_restore_ok [of s "Suc k"] by (simp add: kept_def)

lemma stack_pop_kept:
  assumes "kept (Suc k) s s1" "stack_at s (int k) = Some v"
  shows "\<exists>s2. stack_pop s1 = Some (v, s2) \<and> kept k s s2"
  using assms stack_pop_ok [of s1 k v] stack_restore_ok [of s1 k] by (simp add: kept_def)

lemma stack_free_ok: "stack_ok s \<Longrightarrow> \<exists>s'. stack_free s = Some s' \<and> st_first s' = NULL"
  by (erule stack_okE) (simp add: stack_free_def heap_free_def)

lemma stack_trace_from_at:
  assumes "\<And>i. i < k \<Longrightarrow> heap_load (Ptr b (int i)) h = Some (f i)"
  shows "stack_trace_from h b k = Some (rev (map f [0..<k]))"
  using assms by (induction k) simp_all

lemma stack_trace_ok:
  assumes "stack_ok s"
  shows "stack_trace s = Some (stack_list s)"
proof -
  obtain b n t f where view: "st_first s = Ptr b 0" "st_top s = Ptr b t"
    using assms by (rule stack_okE)
  have "heap_load (Ptr b (int i)) (st_heap s) = Some (the (stack_at s (int i)))"
    if "i < stack_height s" for i
    using stack_at_defined [OF assms that] view by (auto simp: stack_views)
  then have "stack_trace_from (st_heap s) b (stack_height s) = Some (stack_list s)"
    by (simp add: stack_trace_from_at stack_list_def)
  then show ?thesis
    using view stack_is_empty_ok [OF assms]
    by (auto simp: stack_trace_def stack_list_def stack_height_def split: if_splits)
qed

text \<open>Facts of a push that is known to have returned, whatever the allocator does.\<close>

lemma stack_push_alloc:
  "stack_push ext v err al s = Some (e, s', al') \<Longrightarrow> range al' \<subseteq> range al"
  by (auto simp: stack_push_def stack_extend_def bind_eq_Some_conv Let_def split: if_splits)

lemma stack_push_room:
  assumes "stack_ok s" "0 < ext" "stack_push ext v 0 al s = Some (0, s', al')"
  shows "room al s"
proof (rule ccontr)
  assume "\<not> room al s"
  then have "stack_height s = stack_cap s" "al 0 \<noteq> Alloc_InPlace"
    using assms(1) by (auto simp: room_def stack_views elim!: stack_okE)
  then show False
    using stack_push_refused [OF assms(1) _ assms(2)] stack_push_moved [OF assms(1) _ assms(2)] assms(3)
    by (cases "al 0") auto
qed

lemma stack_push_not_refused:
  assumes "stack_ok s" "0 < ext" "stack_push ext v 0 al s = Some (e, s', al')"
    "al 0 \<noteq> Alloc_Fail \<or> stack_height s < stack_cap s"
  shows "e = 0"
proof (cases "room al s")
  case True
  then obtain s1 al1 where "stack_push ext v 0 al s = Some (0, s1, al1)"
    by (rule stack_push_ok [OF assms(1) _ assms(2), where v = v])
  with assms(3) show ?thesis by simp
next
  case False
  then have "stack_height s = stack_cap s" "al 0 = Alloc_Move"
    using assms(1,4) by (cases "al 0"; auto simp: room_def stack_views elim!: stack_okE)+
  then show ?thesis
    using stack_push_moved [OF assms(1) _ assms(2)] assms(3) by simp
qed

text \<open>\<open>pushed s v s'\<close>: the stack \<open>s'\<close> is \<open>s\<close> with \<open>v\<close> on top, in the same allocation.\<close>

definition pushed :: "'a stack \<Rightarrow> 'a \<Rightarrow> 'a stack \<Rightarrow> bool" where
  "pushed s v s' \<longleftrightarrow>
     stack_ok s' \<and> stack_height s' = Suc (stack_height s) \<and> stack_block s' = stack_block s \<and>
     stack_top_ptr s' = Ptr (stack_block s) (int (stack_height s)) \<and>
     stack_at s' (int (stack_height s)) = Some v \<and>
     (\<forall>i < stack_height s. stack_at s' (int i) = stack_at s (int i)) \<and>
     stack_list s' = v # stack_list s \<and> stack_cap s \<le> stack_cap s'"

lemma stack_push_pushed:
  assumes "stack_ok s" "0 < ext" "stack_push ext v 0 al s = Some (e, s', al')"
    "Alloc_Fail \<notin> range al \<or> stack_height s < stack_cap s"
  shows "e = 0 \<and> pushed s v s'"
proof -
  have "al 0 \<noteq> Alloc_Fail \<or> stack_height s < stack_cap s"
    using assms(4) by (cases "al 0 = Alloc_Fail") (auto dest: sym)
  then have e: "e = 0"
    by (rule stack_push_not_refused [OF assms(1-3)])
  then have "room al s" using stack_push_room [OF assms(1,2)] assms(3) by simp
  with assms(1) have "pushed s v s'"
  proof (rule stack_push_ok [OF _ _ assms(2), where v = v])
    fix s1 al1
    assume 1: "stack_push ext v 0 al s = Some (0, s1, al1)" "stack_ok s1"
      "stack_height s1 = Suc (stack_height s)" "stack_block s1 = stack_block s"
      "stack_top_ptr s1 = Ptr (stack_block s) (int (stack_height s))"
      "\<And>i. i \<le> stack_height s \<Longrightarrow>
         stack_at s1 (int i) = (if i = stack_height s then Some v else stack_at s (int i))"
      "stack_cap s \<le> stack_cap s1"
    then have "s1 = s'" using assms(3) by simp
    moreover have "stack_list s1 = v # stack_list s"
      using 1(3,6) by (rule stack_list_push)
    ultimately show ?thesis using 1 by (simp add: pushed_def)
  qed
  with e show ?thesis by simp
qed

section \<open>The contract of a stack\<close>

text \<open>
  What the signal loop relies on, stated once for both stacks: a push and a pop are those of
  a list, emptiness is emptiness of that list, and an element stays where it was put.
\<close>

locale c_stack =
  fixes push :: "'a \<Rightarrow> u32 \<Rightarrow> alloc \<Rightarrow> 'a stack \<Rightarrow> (u32 \<times> 'a stack \<times> alloc) option"
    and pop :: "'a stack \<Rightarrow> ('a \<times> 'a stack) option"
    and is_empty :: "'a stack \<Rightarrow> bool option"
    and contents :: "'a stack \<Rightarrow> 'a list"
    and ok :: "'a stack \<Rightarrow> bool"
  assumes push_law: "ok s \<Longrightarrow> room al s \<Longrightarrow>
      \<exists>s' al'. push v 0 al s = Some (0, s', al') \<and> ok s' \<and> contents s' = v # contents s \<and>
        (stack_height s < stack_cap s \<longrightarrow> al' = al \<and> stack_cap s' = stack_cap s)"
    and pop_law: "ok s \<Longrightarrow> contents s = v # vs \<Longrightarrow>
      \<exists>s'. pop s = Some (v, s') \<and> ok s' \<and> contents s' = vs \<and> stack_cap s' = stack_cap s"
    and empty_law: "ok s \<Longrightarrow> is_empty s = Some (contents s = [])"
    and height_law: "length (contents s) = stack_height s"
begin

text \<open>Pushing a sequence of values, threading the error flag as the macros do.\<close>

primrec pushes :: "'a list \<Rightarrow> alloc \<Rightarrow> 'a stack \<Rightarrow> (u32 \<times> 'a stack \<times> alloc) option" where
  "pushes [] al s = Some (0, s, al)"
| "pushes (v # vs) al s = do { (e, s, al) \<leftarrow> push v 0 al s; if e = 0 then pushes vs al s else Some (e, s, al) }"

lemma pushes_within_capacity:
  assumes "ok s" "stack_height s + length vs \<le> stack_cap s"
  shows "\<exists>s'. pushes vs al s = Some (0, s', al) \<and> ok s' \<and> contents s' = rev vs @ contents s"
  using assms
proof (induction vs arbitrary: s)
  case Nil
  then show ?case by simp
next
  case (Cons v vs)
  then have "room al s" by (simp add: room_def)
  with Cons.prems obtain s1 where s1: "push v 0 al s = Some (0, s1, al)" "ok s1"
    "contents s1 = v # contents s" "stack_cap s1 = stack_cap s"
    using push_law [of s al v] by auto
  then have "stack_height s1 = Suc (stack_height s)"
    using height_law [of s1] height_law [of s] by simp
  with Cons.prems s1 Cons.IH [of s1] show ?case by auto
qed

lemma push_pop:
  assumes "ok s" "room al s"
  shows "\<exists>s1 s2 al'. push v 0 al s = Some (0, s1, al') \<and> pop s1 = Some (v, s2) \<and> ok s2 \<and>
    contents s2 = contents s"
  using push_law [OF assms, of v] pop_law by blast

end

lemma stack_push_list:
  assumes "stack_ok s" "room al s" "0 < ext"
  shows "\<exists>s' al'. stack_push ext v 0 al s = Some (0, s', al') \<and> stack_ok s' \<and>
    stack_list s' = v # stack_list s \<and>
    (stack_height s < stack_cap s \<longrightarrow> al' = al \<and> stack_cap s' = stack_cap s)"
  by (rule stack_push_ok [OF assms, where v = v]) (auto simp: stack_list_push)

lemma stack_pop_list:
  assumes "stack_ok s" "stack_list s = v # vs"
  shows "\<exists>s'. stack_pop s = Some (v, s') \<and> stack_ok s' \<and> stack_list s' = vs \<and>
    stack_cap s' = stack_cap s"
proof -
  have h: "stack_height s = Suc (length vs)"
    using assms(2) length_stack_list [of s] by simp
  then have at: "stack_at s (int (length vs)) = Some v"
    using stack_at_defined [OF assms(1), of "length vs"] stack_list_nth [of 0 s] assms(2) by auto
  show ?thesis
    using stack_pop_ok [OF assms(1) h at] stack_restore_ok(1,5,6) [OF assms(1), of "length vs"] h assms(2)
    by simp
qed

lemma c_stack_generic:
  assumes "0 < ext"
  shows "c_stack (stack_push ext) stack_pop stack_is_empty stack_list stack_ok"
proof unfold_locales
  show "stack_is_empty s = Some (stack_list s = [])" if "stack_ok s" for s :: "'a stack"
    using stack_is_empty_ok [OF that] by (simp add: stack_list_Nil_iff)
qed (simp_all add: stack_push_list [OF _ _ assms] stack_pop_list)

end
