(* ===== verification/Shared_Protocol.thy ===== *)
theory Shared_Protocol
  imports Picon_Prelude
begin

text \<open>
  \<open>include/picon/shared.h\<close>: identifiers, the messages exchanged by the monitor and the
  instrumented program, and the macros that read and write them on packet-mode pipes.
\<close>

section \<open>Identifiers\<close>

type_synonym module_id = u16
type_synonym function_id = u32
type_synonym block_id = u32
type_synonym module_function_ids = u64

definition MODULE_FUNCTION_GET_MODULE :: "module_function_ids \<Rightarrow> module_id" where
  "MODULE_FUNCTION_GET_MODULE r = ucast (drop_bit 32 r)"

definition MODULE_FUNCTION_GET_FUNCTION :: "module_function_ids \<Rightarrow> function_id" where
  "MODULE_FUNCTION_GET_FUNCTION r = ucast (r AND 0xffffffff)"

text \<open>The first argument is cast to 64 bits from the caller's \<open>int\<close>, hence sign-extended.\<close>

definition MODULE_FUNCTION :: "32 word \<Rightarrow> u32 \<Rightarrow> module_function_ids" where
  "MODULE_FUNCTION m f = push_bit 32 (scast m) OR (ucast f AND 0xffffffff)"

section \<open>Packet-mode pipes\<close>

text \<open>
  The monitor creates its pipes with \<open>O_DIRECT\<close>: a write is one packet, a write of more than
  \<open>PIPE_BUF\<close> bytes is split into several, and a read takes one packet, of which it drops what
  does not fit the buffer. Reading from an empty pipe whose writers are gone returns no byte.
\<close>

type_synonym pipe = "byte list list"

definition PIPE_BUF :: nat where
  "PIPE_BUF = 4096"

function pipe_packets :: "byte list \<Rightarrow> pipe" where
  "pipe_packets bs =
     (if bs = [] then []
      else if length bs \<le> PIPE_BUF then [bs]
      else take PIPE_BUF bs # pipe_packets (drop PIPE_BUF bs))"
  by pat_completeness auto
termination
  by (relation "measure length") (auto simp: PIPE_BUF_def)

declare pipe_packets.simps [simp del]

definition pipe_write :: "byte list \<Rightarrow> pipe \<Rightarrow> pipe" where
  "pipe_write bs p = p @ pipe_packets bs"

definition pipe_read :: "nat \<Rightarrow> pipe \<Rightarrow> byte list \<times> pipe" where
  "pipe_read n p = (case p of [] \<Rightarrow> ([], []) | pk # ps \<Rightarrow> (take n pk, ps))"

text \<open>A short read overwrites only the first bytes of its destination.\<close>

definition overlay :: "byte list \<Rightarrow> byte list \<Rightarrow> byte list" where
  "overlay new old = new @ drop (length new) old"

section \<open>Signals of the instrumented program\<close>

datatype client_event =
  CFI_BEFORE_JUMP | CFI_AFTER_JUMP | CFI_CALL | CFI_ENTER | CFI_EXIT | CFI_RETURNED

fun client_event_code :: "client_event \<Rightarrow> byte" where
  "client_event_code CFI_BEFORE_JUMP = 0"
| "client_event_code CFI_AFTER_JUMP = 1"
| "client_event_code CFI_CALL = 2"
| "client_event_code CFI_ENTER = 3"
| "client_event_code CFI_EXIT = 4"
| "client_event_code CFI_RETURNED = 5"

text \<open>The \<open>case\<close> a \<open>switch\<close> on the 8-bit field selects; \<open>None\<close> is its \<open>default\<close>.\<close>

definition client_event_of :: "byte \<Rightarrow> client_event option" where
  "client_event_of b =
     (if b = 0 then Some CFI_BEFORE_JUMP else if b = 1 then Some CFI_AFTER_JUMP
      else if b = 2 then Some CFI_CALL else if b = 3 then Some CFI_ENTER
      else if b = 4 then Some CFI_EXIT else if b = 5 then Some CFI_RETURNED else None)"

record client_signal =
  sig_event :: byte
  sig_module :: module_id
  sig_function :: function_id
  sig_block :: block_id

definition sizeof_client_signal :: nat where
  "sizeof_client_signal = 11"

definition encode_signal :: "client_signal \<Rightarrow> byte list" where
  "encode_signal c =
     [sig_event c] @ le16 (sig_module c) @ le32 (sig_function c) @ le32 (sig_block c)"

definition decode_signal :: "byte list \<Rightarrow> client_signal" where
  "decode_signal bs =
     \<lparr>sig_event = bs ! 0, sig_module = de16 (bs ! 1) (bs ! 2),
      sig_function = de32 (bs ! 3) (bs ! 4) (bs ! 5) (bs ! 6),
      sig_block = de32 (bs ! 7) (bs ! 8) (bs ! 9) (bs ! 10)\<rparr>"

definition READ_CLIENT_SIGNAL :: "pipe \<Rightarrow> client_signal \<Rightarrow> u32 \<Rightarrow> pipe \<times> client_signal \<times> u32" where
  "READ_CLIENT_SIGNAL p dst err =
     (let (bs, p') = pipe_read sizeof_client_signal p
      in (p', decode_signal (overlay bs (encode_signal dst)),
          if length bs \<noteq> sizeof_client_signal then 1 else err))"

text \<open>Whether a write is accepted in full is the system's choice: \<open>ok\<close>.\<close>

definition WRITE_CLIENT_SIGNAL :: "bool \<Rightarrow> client_signal \<Rightarrow> pipe \<Rightarrow> u32 \<Rightarrow> pipe \<times> u32" where
  "WRITE_CLIENT_SIGNAL ok src p err = (if ok then (pipe_write (encode_signal src) p, err) else (p, 1))"

section \<open>Answers of the monitor\<close>

definition CFI_OK :: byte where
  "CFI_OK = 0x42"

definition READ_MONITOR_ANSWER :: "pipe \<Rightarrow> byte \<Rightarrow> u32 \<Rightarrow> pipe \<times> byte \<times> u32" where
  "READ_MONITOR_ANSWER p dst err =
     (let (bs, p') = pipe_read 1 p
      in (p', overlay bs [dst] ! 0, if length bs \<noteq> 1 then 1 else err))"

definition WRITE_MONITOR_ANSWER :: "bool \<Rightarrow> byte \<Rightarrow> pipe \<Rightarrow> u32 \<Rightarrow> pipe \<times> u32" where
  "WRITE_MONITOR_ANSWER ok src p err = (if ok then (pipe_write [src] p, err) else (p, 1))"

section \<open>Loading packets\<close>

datatype fct_flag_t = FCT_INTERNAL | FCT_EXTERNAL | FCT_INIT | FCT_FINI | FCT_MAIN

fun fct_flag_code :: "fct_flag_t \<Rightarrow> u32" where
  "fct_flag_code FCT_INTERNAL = 0"
| "fct_flag_code FCT_EXTERNAL = 1"
| "fct_flag_code FCT_INIT = 2"
| "fct_flag_code FCT_FINI = 3"
| "fct_flag_code FCT_MAIN = 4"

datatype loading_event =
  CFI_LOADING_MODULE_BEGIN | CFI_LOADING_SECTION_FUNCTION_ID
| CFI_LOADING_SECTION_FUNCTION_TRANSITION | CFI_LOADING_SECTION_BLOCK_TRANSITION
| CFI_LOADING_SECTION_BLOCK_IPD | CFI_LOADING_MODULE_END | CFI_LOADING_TERMINATED

fun loading_event_code :: "loading_event \<Rightarrow> u32" where
  "loading_event_code CFI_LOADING_MODULE_BEGIN = 0"
| "loading_event_code CFI_LOADING_SECTION_FUNCTION_ID = 1"
| "loading_event_code CFI_LOADING_SECTION_FUNCTION_TRANSITION = 2"
| "loading_event_code CFI_LOADING_SECTION_BLOCK_TRANSITION = 3"
| "loading_event_code CFI_LOADING_SECTION_BLOCK_IPD = 4"
| "loading_event_code CFI_LOADING_MODULE_END = 5"
| "loading_event_code CFI_LOADING_TERMINATED = 6"

definition loading_event_of :: "u32 \<Rightarrow> loading_event option" where
  "loading_event_of w =
     (if w = 0 then Some CFI_LOADING_MODULE_BEGIN
      else if w = 1 then Some CFI_LOADING_SECTION_FUNCTION_ID
      else if w = 2 then Some CFI_LOADING_SECTION_FUNCTION_TRANSITION
      else if w = 3 then Some CFI_LOADING_SECTION_BLOCK_TRANSITION
      else if w = 4 then Some CFI_LOADING_SECTION_BLOCK_IPD
      else if w = 5 then Some CFI_LOADING_MODULE_END
      else if w = 6 then Some CFI_LOADING_TERMINATED else None)"

text \<open>The \<open>value\<close> pointer of a packet: null, a live buffer, or a buffer already freed.\<close>

datatype pkt_buf = Buf_NULL | Buf_Live "byte list" | Buf_Freed

record loading_packet =
  lp_event :: u32
  lp_size :: u32
  lp_value :: pkt_buf

definition overlay32 :: "byte list \<Rightarrow> u32 \<Rightarrow> u32" where
  "overlay32 bs w = (let r = overlay bs (le32 w) in de32 (r ! 0) (r ! 1) (r ! 2) (r ! 3))"

text \<open>\<open>ok\<close> tells whether the \<open>calloc\<close> of the buffer succeeds.\<close>

definition READ_LOADING_PACKET ::
    "bool \<Rightarrow> pipe \<Rightarrow> loading_packet \<Rightarrow> u32 \<Rightarrow> pipe \<times> loading_packet \<times> u32" where
  "READ_LOADING_PACKET ok p dst err =
     (let dst = dst\<lparr>lp_size := 0, lp_value := Buf_NULL\<rparr>;
          (eb, p) = pipe_read 4 p;
          dst = dst\<lparr>lp_event := overlay32 eb (lp_event dst)\<rparr>
      in if length eb \<noteq> 4 then (p, dst, 1)
         else let (sb, p) = pipe_read 4 p;
                  dst = dst\<lparr>lp_size := overlay32 sb (lp_size dst)\<rparr>
      in if length sb \<noteq> 4 then (p, dst, 2)
         else if lp_size dst = 0 then (p, dst, err)
         else if \<not> ok then (p, dst, 3)
         else let n = unat (lp_size dst); (vb, p) = pipe_read n p
      in if length vb \<noteq> n then (p, dst\<lparr>lp_size := 0, lp_value := Buf_Freed\<rparr>, 4)
         else (p, dst\<lparr>lp_value := Buf_Live vb\<rparr>, err))"

definition FREE_LOADING_PACKET :: "loading_packet \<Rightarrow> loading_packet option" where
  "FREE_LOADING_PACKET pkt =
     (case lp_value pkt of
        Buf_NULL \<Rightarrow> Some pkt
      | Buf_Live _ \<Rightarrow> Some (pkt\<lparr>lp_value := Buf_NULL\<rparr>)
      | Buf_Freed \<Rightarrow> None)"

text \<open>Three writes, each of which the system may refuse (\<open>ok1\<close>, \<open>ok2\<close>, \<open>ok3\<close>).\<close>

definition WRITE_LOADING_PACKET ::
    "bool \<Rightarrow> bool \<Rightarrow> bool \<Rightarrow> u32 \<Rightarrow> byte list \<Rightarrow> pipe \<Rightarrow> u32 \<Rightarrow> pipe \<times> u32" where
  "WRITE_LOADING_PACKET ok1 ok2 ok3 ev value p err =
     (if \<not> ok1 then (p, 1)
      else let p = pipe_write (le32 ev) p
      in if \<not> ok2 then (p, 2)
         else let p = pipe_write (le32 (of_nat (length value))) p
      in if value = [] then (p, err)
         else if \<not> ok3 then (p, 3) else (pipe_write value p, err))"

definition READ_MONITOR_TO_LOADING_PACKET :: "pipe \<Rightarrow> module_id \<Rightarrow> u32 \<Rightarrow> pipe \<times> module_id \<times> u32" where
  "READ_MONITOR_TO_LOADING_PACKET p dst err =
     (let (bs, p') = pipe_read 2 p; r = overlay bs (le16 dst)
      in (p', de16 (r ! 0) (r ! 1), if length bs \<noteq> 2 then 1 else err))"

definition WRITE_MONITOR_TO_LOADING_PACKET :: "bool \<Rightarrow> module_id \<Rightarrow> pipe \<Rightarrow> u32 \<Rightarrow> pipe \<times> u32" where
  "WRITE_MONITOR_TO_LOADING_PACKET ok src p err =
     (if ok then (pipe_write (le16 src) p, err) else (p, 1))"

section \<open>Lemmas\<close>

lemma mask32_u64: "(0xffffffff :: u64) = mask 32"
  by (simp add: mask_eq_exp_minus_1)

lemma module_function_get_function: "MODULE_FUNCTION_GET_FUNCTION (MODULE_FUNCTION m f) = f"
  unfolding MODULE_FUNCTION_GET_FUNCTION_def MODULE_FUNCTION_def mask32_u64
  by (rule bit_word_eqI) (auto simp: bit_simps)

lemma module_function_get_module: "MODULE_FUNCTION_GET_MODULE (MODULE_FUNCTION m f) = ucast m"
  unfolding MODULE_FUNCTION_GET_MODULE_def MODULE_FUNCTION_def
  by (rule bit_word_eqI) (auto simp: bit_simps)

lemma client_event_of_code [simp]: "client_event_of (client_event_code e) = Some e"
  by (cases e) (simp_all add: client_event_of_def)

lemma client_event_of_SomeD: "client_event_of b = Some e \<Longrightarrow> b = client_event_code e"
  by (auto simp: client_event_of_def split: if_splits)

lemma loading_event_of_code [simp]: "loading_event_of (loading_event_code e) = Some e"
  by (cases e) (simp_all add: loading_event_of_def)

lemma length_encode_signal [simp]: "length (encode_signal c) = sizeof_client_signal"
  by (simp add: encode_signal_def sizeof_client_signal_def)

lemma decode_encode_signal [simp]: "decode_signal (encode_signal c) = c"
  by (simp add: decode_signal_def encode_signal_def le16_def le32_def)

lemma overlay_full [simp]: "length new = length old \<Longrightarrow> overlay new old = new"
  by (simp add: overlay_def)

lemma overlay_Nil [simp]: "overlay [] old = old"
  by (simp add: overlay_def)

lemma pipe_packets_small [simp]:
  "bs \<noteq> [] \<Longrightarrow> length bs \<le> PIPE_BUF \<Longrightarrow> pipe_packets bs = [bs]"
  by (simp add: pipe_packets.simps)

lemma pipe_packets_large: "PIPE_BUF < length bs \<Longrightarrow> \<exists>ps. pipe_packets bs = take PIPE_BUF bs # ps"
  by (subst pipe_packets.simps) (auto simp: PIPE_BUF_def)

lemma concat_pipe_packets: "concat (pipe_packets bs) = bs"
proof (induction bs rule: pipe_packets.induct)
  case (1 bs)
  then show ?case
    by (cases "length bs \<le> PIPE_BUF") (auto simp: pipe_packets.simps [of bs])
qed

text \<open>A signal and an answer fit one packet and arrive as they were sent.\<close>

lemma read_written_signal:
  "READ_CLIENT_SIGNAL (pipe_packets (encode_signal c) @ p) dst err = (p, c, err)"
proof -
  have "encode_signal c \<noteq> []" by (simp add: encode_signal_def)
  then show ?thesis
    by (simp add: READ_CLIENT_SIGNAL_def pipe_read_def PIPE_BUF_def sizeof_client_signal_def)
qed

lemma read_signal_eof [simp]: "READ_CLIENT_SIGNAL [] dst err = ([], dst, 1)"
  by (simp add: READ_CLIENT_SIGNAL_def pipe_read_def sizeof_client_signal_def)

lemma overlay32_le32 [simp]: "overlay32 (le32 w) v = w"
  by (simp add: overlay32_def overlay_def le32_def)


definition loading_write :: "loading_event \<Rightarrow> byte list \<Rightarrow> pipe \<Rightarrow> pipe" where
  "loading_write ev value p =
     fst (WRITE_LOADING_PACKET True True True (loading_event_code ev) value p 0)"

lemma pipe_read_le32 [simp]: "pipe_read 4 (pipe_packets (le32 w) @ p) = (le32 w, p)"
proof -
  have "le32 w \<noteq> []" by (simp add: le32_def)
  then show ?thesis by (simp add: pipe_read_def PIPE_BUF_def)
qed

lemma loading_write_packets:
  "loading_write ev value p =
     p @ pipe_packets (le32 (loading_event_code ev)) @ pipe_packets (le32 (of_nat (length value))) @
     pipe_packets value"
  by (simp add: loading_write_def WRITE_LOADING_PACKET_def pipe_write_def Let_def
      pipe_packets.simps [of "[]"])

text \<open>A section of at most \<open>PIPE_BUF\<close> bytes arrives whole.\<close>

lemma read_written_loading:
  assumes "length value \<le> PIPE_BUF"
  shows "READ_LOADING_PACKET True (loading_write ev value [] @ p) dst err =
     (p, \<lparr>lp_event = loading_event_code ev, lp_size = of_nat (length value),
          lp_value = (if value = [] then Buf_NULL else Buf_Live value)\<rparr>, err)"
proof -
  have n: "unat (of_nat (length value) :: u32) = length value"
    using assms by (simp add: unat_of_nat PIPE_BUF_def)
  show ?thesis
  proof (cases "value = []")
    case True
    then show ?thesis
      by (simp add: loading_write_packets READ_LOADING_PACKET_def pipe_packets.simps [of "[]"])
  next
    case False
    then have "(of_nat (length value) :: u32) \<noteq> 0"
      using n by (metis length_0_conv unat_0)
    then show ?thesis
      using assms n False
      by (simp add: loading_write_packets READ_LOADING_PACKET_def pipe_read_def [of "length value"])
  qed
qed

text \<open>
  A larger one is split by the pipe, the third read comes back short, and the packet keeps a
  pointer to the buffer it has just freed.
\<close>

lemma read_written_loading_large:
  assumes "PIPE_BUF < length value" "length value < 2 ^ 32"
  shows "\<exists>p'. READ_LOADING_PACKET True (loading_write ev value [] @ p) dst err =
     (p', \<lparr>lp_event = loading_event_code ev, lp_size = 0, lp_value = Buf_Freed\<rparr>, 4)"
proof -
  have n: "unat (of_nat (length value) :: u32) = length value"
    using assms(2) by (simp add: unat_of_nat)
  then have nz: "(of_nat (length value) :: u32) \<noteq> 0"
    using assms(1) by (metis less_zeroE unat_0)
  obtain ps where "pipe_packets value = take PIPE_BUF value # ps"
    using pipe_packets_large [OF assms(1)] by blast
  then show ?thesis
    using n nz assms(1)
    by (simp add: loading_write_packets READ_LOADING_PACKET_def pipe_read_def [of "length value"])
qed

end
