(* ===== verification/Monitor_Stacks.thy ===== *)
theory Monitor_Stacks
  imports Grow_Stack Shared_Protocol
begin

text \<open>
  The two stacks of a monitoring run, as instances of \<open>Grow_Stack\<close>: the basic blocks to come
  back to (\<open>monitor/src/block_stack.c\<close>, \<open>monitor/include/block_stack.h\<close>) and the callers
  (\<open>monitor/src/call_stack.c\<close>, \<open>monitor/include/call_stack.h\<close>). Both are interpreted as the
  contract \<open>c_stack\<close>.
\<close>

section \<open>Blocks\<close>

definition BLOCK_STACK_EXTEND_SIZE :: nat where
  "BLOCK_STACK_EXTEND_SIZE = 4096"

type_synonym block_stack_element = block_id
type_synonym block_stack = "block_stack_element stack"

definition block_stack_init :: "alloc \<Rightarrow> block_stack \<Rightarrow> u32 \<times> block_stack \<times> alloc" where
  "block_stack_init = stack_init BLOCK_STACK_EXTEND_SIZE 0"

definition block_stack_free :: "block_stack \<Rightarrow> block_stack option" where
  "block_stack_free = stack_free"

definition block_stack_extend :: "alloc \<Rightarrow> block_stack \<Rightarrow> (u32 \<times> block_stack \<times> alloc) option" where
  "block_stack_extend = stack_extend BLOCK_STACK_EXTEND_SIZE"

definition block_stack_trace :: "block_stack \<Rightarrow> block_stack_element list option" where
  "block_stack_trace = stack_trace"

definition BLOCK_STACK_IS_EMPTY :: "block_stack \<Rightarrow> bool option" where
  "BLOCK_STACK_IS_EMPTY = stack_is_empty"

definition BLOCK_STACK_TOP_PTR :: "block_stack \<Rightarrow> ptr" where
  "BLOCK_STACK_TOP_PTR = stack_top_ptr"

definition BLOCK_STACK_RESTORE_TOP :: "block_stack \<Rightarrow> ptr \<Rightarrow> block_stack" where
  "BLOCK_STACK_RESTORE_TOP = stack_restore_top"

definition BLOCK_STACK_PUSH ::
    "block_stack_element \<Rightarrow> u32 \<Rightarrow> alloc \<Rightarrow> block_stack \<Rightarrow> (u32 \<times> block_stack \<times> alloc) option" where
  "BLOCK_STACK_PUSH = stack_push BLOCK_STACK_EXTEND_SIZE"

definition BLOCK_STACK_POP :: "block_stack \<Rightarrow> (block_stack_element \<times> block_stack) option" where
  "BLOCK_STACK_POP = stack_pop"

definition BLOCK_STACK_IS_NOT_COHERENT_OR_IS_EMPTY :: "block_stack \<Rightarrow> bool option" where
  "BLOCK_STACK_IS_NOT_COHERENT_OR_IS_EMPTY s = do {
     below \<leftarrow> ptr_less (st_top s) (st_first s);
     if below then Some True else ptr_less (st_last s) (st_top s)
   }"

section \<open>Calls\<close>

definition CALL_STACK_EXTEND_SIZE :: nat where
  "CALL_STACK_EXTEND_SIZE = 512"

record call_stack_element =
  cs_module :: module_id
  cs_function :: function_id
  blocks_sp :: ptr

type_synonym call_stack = "call_stack_element stack"

definition call_stack_init :: "alloc \<Rightarrow> call_stack \<Rightarrow> u32 \<times> call_stack \<times> alloc" where
  "call_stack_init =
     stack_init CALL_STACK_EXTEND_SIZE \<lparr>cs_module = 0, cs_function = 0, blocks_sp = NULL\<rparr>"

definition call_stack_free :: "call_stack \<Rightarrow> call_stack option" where
  "call_stack_free = stack_free"

definition call_stack_extend :: "alloc \<Rightarrow> call_stack \<Rightarrow> (u32 \<times> call_stack \<times> alloc) option" where
  "call_stack_extend = stack_extend CALL_STACK_EXTEND_SIZE"

definition call_stack_trace :: "call_stack \<Rightarrow> call_stack_element list option" where
  "call_stack_trace = stack_trace"

definition CALL_STACK_IS_EMPTY :: "call_stack \<Rightarrow> bool option" where
  "CALL_STACK_IS_EMPTY = stack_is_empty"

definition CALL_STACK_PUSH ::
    "call_stack_element \<Rightarrow> u32 \<Rightarrow> alloc \<Rightarrow> call_stack \<Rightarrow> (u32 \<times> call_stack \<times> alloc) option" where
  "CALL_STACK_PUSH = stack_push CALL_STACK_EXTEND_SIZE"

definition CALL_STACK_POP :: "call_stack \<Rightarrow> (call_stack_element \<times> call_stack) option" where
  "CALL_STACK_POP = stack_pop"

lemmas block_stack_defs = block_stack_init_def block_stack_free_def block_stack_extend_def
  block_stack_trace_def BLOCK_STACK_IS_EMPTY_def BLOCK_STACK_TOP_PTR_def
  BLOCK_STACK_RESTORE_TOP_def BLOCK_STACK_PUSH_def BLOCK_STACK_POP_def

lemmas call_stack_defs = call_stack_init_def call_stack_free_def call_stack_extend_def
  call_stack_trace_def CALL_STACK_IS_EMPTY_def CALL_STACK_PUSH_def CALL_STACK_POP_def

lemma extend_sizes_pos [simp]: "0 < BLOCK_STACK_EXTEND_SIZE" "0 < CALL_STACK_EXTEND_SIZE"
  by (simp_all add: BLOCK_STACK_EXTEND_SIZE_def CALL_STACK_EXTEND_SIZE_def)

interpretation bs: c_stack BLOCK_STACK_PUSH BLOCK_STACK_POP BLOCK_STACK_IS_EMPTY stack_list stack_ok
  unfolding block_stack_defs by (rule c_stack_generic) simp

interpretation cs: c_stack CALL_STACK_PUSH CALL_STACK_POP CALL_STACK_IS_EMPTY stack_list stack_ok
  unfolding call_stack_defs by (rule c_stack_generic) simp

end
