(* ===== verification/Monitor_Data.thy ===== *)
theory Monitor_Data
  imports Monitor_Stacks
begin

text \<open>
  The tables the monitor builds while the program loads (\<open>monitor/include/monitor_load.h\<close>),
  the compile-time options (\<open>monitor/src/defs.c\<close>), and the world a monitor lives in: pipes,
  and the answers of the system to its requests.

  A C pointer to an array is an option of a list, so that a table that was never allocated
  (\<open>NULL\<close>) is different from an empty one. Counters keep their 32-bit width.
\<close>

section \<open>Tables\<close>

record function_data =
  fd_name :: "byte list option"
  fd_flags :: u32
  nb_blocks :: u32
  control_flow_graph :: "byte list option list option"
  immediate_post_dominator :: "block_id list option"

definition FUNCTION_IS_ENTRYPOINT_MAIN :: "function_data \<Rightarrow> bool" where
  "FUNCTION_IS_ENTRYPOINT_MAIN f \<longleftrightarrow> fd_flags f = fct_flag_code FCT_MAIN"

definition FUNCTION_IS_ENTRYPOINT_INIT :: "function_data \<Rightarrow> bool" where
  "FUNCTION_IS_ENTRYPOINT_INIT f \<longleftrightarrow> fd_flags f = fct_flag_code FCT_INIT"

definition FUNCTION_IS_ENTRYPOINT_FINI :: "function_data \<Rightarrow> bool" where
  "FUNCTION_IS_ENTRYPOINT_FINI f \<longleftrightarrow> fd_flags f = fct_flag_code FCT_FINI"

definition FUNCTION_IS_ENTRYPOINT :: "function_data \<Rightarrow> bool" where
  "FUNCTION_IS_ENTRYPOINT f \<longleftrightarrow>
     FUNCTION_IS_ENTRYPOINT_MAIN f \<or> FUNCTION_IS_ENTRYPOINT_INIT f \<or> FUNCTION_IS_ENTRYPOINT_FINI f"

definition FUNCTION_IS_EXTERNAL :: "function_data \<Rightarrow> bool" where
  "FUNCTION_IS_EXTERNAL f \<longleftrightarrow> fd_flags f = fct_flag_code FCT_EXTERNAL"

record module_data =
  nb_functions :: u32
  nb_entrypoint_inits :: u32
  nb_entrypoint_finis :: u32
  call_graph :: "byte list option list option"
  relocations :: "module_function_ids list option"
  md_functions :: "function_data list option"

record monitor_data =
  client_pid :: int
  fd_client_to_monitor :: int
  fd_monitor_to_client :: int
  fd_loading_to_monitor :: int
  fd_monitor_to_loading :: int
  nb_modules :: u32
  modules :: "module_data list option"

section \<open>Options and world\<close>

text \<open>\<open>opt_TIMEOUT\<close> tells whether the monitor is compiled with \<open>TIMEOUT\<close>.\<close>

record options =
  OPTION_sm_trace :: bool
  OPTION_sm_dump :: bool
  OPTION_nb_preload_monitor_ok_answers :: u32
  opt_TIMEOUT :: bool

text \<open>
  The two pipes the monitor reads hold everything that will ever be written to them; the two
  it writes accumulate what it wrote. The three streams are the future answers of the
  allocator, of \<open>write\<close> and of \<open>pselect\<close>.
\<close>

record world =
  w_alloc :: alloc
  w_write :: "nat \<Rightarrow> bool"
  w_select :: "nat \<Rightarrow> bool"
  client_to_monitor :: pipe
  monitor_to_client :: pipe
  loading_to_monitor :: pipe
  monitor_to_loading :: pipe

definition next_alloc :: "world \<Rightarrow> alloc_result \<times> world" where
  "next_alloc w = (w_alloc w 0, w\<lparr>w_alloc := alloc_rest (w_alloc w)\<rparr>)"

text \<open>\<open>MONITOR_SIGNAL_TIMEOUT\<close>: nothing at all when compiled without \<open>TIMEOUT\<close>.\<close>

definition MONITOR_SIGNAL_TIMEOUT :: "options \<Rightarrow> world \<Rightarrow> u32 \<Rightarrow> world \<times> u32" where
  "MONITOR_SIGNAL_TIMEOUT opts w err =
     (if opt_TIMEOUT opts
      then (w\<lparr>w_select := (\<lambda>n. w_select w (Suc n))\<rparr>, if w_select w 0 then err else 1)
      else (w, err))"

definition read_client_signal :: "world \<Rightarrow> client_signal \<Rightarrow> u32 \<Rightarrow> world \<times> client_signal \<times> u32" where
  "read_client_signal w dst err =
     (let (p, c, e) = READ_CLIENT_SIGNAL (client_to_monitor w) dst err
      in (w\<lparr>client_to_monitor := p\<rparr>, c, e))"

definition write_monitor_answer :: "world \<Rightarrow> u32 \<Rightarrow> world \<times> u32" where
  "write_monitor_answer w err =
     (let (p, e) = WRITE_MONITOR_ANSWER (w_write w 0) CFI_OK (monitor_to_client w) err
      in (w\<lparr>monitor_to_client := p, w_write := (\<lambda>n. w_write w (Suc n))\<rparr>, e))"

section \<open>Well-formed tables\<close>

text \<open>
  The shape every loaded table has: each array is as long as the counter beside it says, and
  a row of a graph is either missing or as long as the graph.
\<close>

definition wf_rows :: "u32 \<Rightarrow> byte list option list option \<Rightarrow> bool" where
  "wf_rows n g \<longleftrightarrow>
     (case g of None \<Rightarrow> False
      | Some rows \<Rightarrow> length rows = unat n \<and>
          (\<forall>r \<in> set rows. case r of None \<Rightarrow> True | Some xs \<Rightarrow> length xs = unat n))"

definition wf_function :: "function_data \<Rightarrow> bool" where
  "wf_function f \<longleftrightarrow>
     (if nb_blocks f = 0 then control_flow_graph f = None \<and> immediate_post_dominator f = None
      else wf_rows (nb_blocks f) (control_flow_graph f) \<and>
        (case immediate_post_dominator f of None \<Rightarrow> False | Some ds \<Rightarrow> length ds = unat (nb_blocks f)))"

text \<open>A module that has sent no function yet has no array at all.\<close>

definition wf_module :: "module_data \<Rightarrow> bool" where
  "wf_module m \<longleftrightarrow> nb_functions m = 0 \<or>
     (case (md_functions m, relocations m) of
        (Some fs, Some rs) \<Rightarrow>
          length fs = unat (nb_functions m) \<and> length rs = unat (nb_functions m) \<and>
          wf_rows (nb_functions m) (call_graph m) \<and> (\<forall>f \<in> set fs. wf_function f)
      | _ \<Rightarrow> False)"

definition wf_modules :: "monitor_data \<Rightarrow> bool" where
  "wf_modules d \<longleftrightarrow>
     (case modules d of None \<Rightarrow> nb_modules d = 0
      | Some ms \<Rightarrow> length ms = unat (nb_modules d) \<and> (\<forall>m \<in> set ms. wf_module m))"

lemma wf_rowsE:
  assumes "wf_rows n g"
  obtains rows where "g = Some rows" "length rows = unat n"
    "\<And>i xs. i < length rows \<Longrightarrow> rows ! i = Some xs \<Longrightarrow> length xs = unat n"
  using assms by (force simp: wf_rows_def in_set_conv_nth split: option.splits)

lemma wf_moduleE:
  assumes "wf_module m" "nb_functions m \<noteq> 0"
  obtains fs rs where "md_functions m = Some fs" "relocations m = Some rs"
    "length fs = unat (nb_functions m)" "length rs = unat (nb_functions m)"
    "wf_rows (nb_functions m) (call_graph m)" "\<And>i. i < length fs \<Longrightarrow> wf_function (fs ! i)"
  using assms by (auto simp: wf_module_def split: option.splits)

end
