(* ===== verification/Monitor_Run.thy ===== *)
theory Monitor_Run
  imports Monitor_Data
begin

text \<open>
  \<open>monitor/src/monitor_run.c\<close>: the loop that reads one signal of the instrumented program at
  a time, checks it against the loaded graphs and answers it. Each \<open>case\<close> of the \<open>switch\<close>
  is one function; the local variables of \<open>monitor_run\<close> are a record.
\<close>

section \<open>State\<close>

datatype monitor_state_t =
  SM_STATE_Ready | SM_STATE_InFunction | SM_STATE_ExpectCall | SM_STATE_ExpectReturn
| SM_STATE_ExpectJump

definition FUNCTION_ENTRY_BLOCK_ID :: block_id where
  "FUNCTION_ENTRY_BLOCK_ID = 0"

text \<open>
  \<open>current_module_data\<close> points into the array of modules and \<open>current_function_data\<close> into
  the array of functions of a module; both are kept as indices, \<open>None\<close> for \<open>NULL\<close>.
\<close>

record run_state =
  state :: monitor_state_t
  current_module :: module_id
  current_function :: function_id
  curblock :: block_stack_element
  current_module_data :: "nat option"
  current_function_data :: "(nat \<times> nat) option"
  error :: u32
  calls :: call_stack
  blocks :: block_stack
  topblock :: block_stack_element
  sig :: client_signal

text \<open>Where a \<open>case\<close> leaves to: \<open>break\<close>, \<open>goto monitor_run_exit\<close>, or an answer and then the exit.\<close>

datatype jump = Break | Goto_exit | Answer_and_exit

definition module_at :: "monitor_data \<Rightarrow> nat option \<Rightarrow> module_data option" where
  "module_at data p = (case p of None \<Rightarrow> None | Some i \<Rightarrow> arr_get (modules data) i)"

definition function_at :: "monitor_data \<Rightarrow> (nat \<times> nat) option \<Rightarrow> function_data option" where
  "function_at data p =
     (case p of None \<Rightarrow> None
      | Some (i, j) \<Rightarrow> do { md \<leftarrow> module_at data (Some i); arr_get (md_functions md) j })"

text \<open>A graph entry \<open>g[i][j]\<close>: both the outer array and the row are followed.\<close>

definition graph_at :: "byte list option list option \<Rightarrow> u32 \<Rightarrow> u32 \<Rightarrow> byte option" where
  "graph_at g i j = do { row \<leftarrow> arr_get g (unat i); arr_get row (unat j) }"

definition fail :: "u32 \<Rightarrow> run_state \<Rightarrow> alloc \<Rightarrow> (jump \<times> run_state \<times> alloc) option" where
  "fail e s al = Some (Goto_exit, s\<lparr>error := e\<rparr>, al)"

section \<open>The cases of the switch\<close>

definition on_before_jump :: "run_state \<Rightarrow> alloc \<Rightarrow> (jump \<times> run_state \<times> alloc) option" where
  "on_before_jump s al =
     (if state s \<noteq> SM_STATE_InFunction \<or> current_module s \<noteq> sig_module (sig s) \<or>
         current_function s \<noteq> sig_function (sig s) \<or> curblock s \<noteq> sig_block (sig s)
      then fail 4 s al
      else Some (Break, s\<lparr>state := SM_STATE_ExpectJump\<rparr>, al))"

text \<open>In trace mode a jump to the post-dominator of the last branching block is recorded.\<close>

definition trace_jump ::
    "options \<Rightarrow> function_data \<Rightarrow> run_state \<Rightarrow> alloc \<Rightarrow> (run_state \<times> alloc) option" where
  "trace_jump opts fd s al =
     (if OPTION_sm_trace opts
      then do {
        ipd \<leftarrow> arr_get (immediate_post_dominator fd) (unat (topblock s));
        if ipd = sig_block (sig s)
        then do {
          (err, bl, al) \<leftarrow> BLOCK_STACK_PUSH (topblock s) (error s) al (blocks s);
          Some (s\<lparr>error := err, blocks := bl, topblock := sig_block (sig s)\<rparr>, al)
        }
        else Some (s, al)
      }
      else Some (s, al))"

definition on_after_jump ::
    "options \<Rightarrow> monitor_data \<Rightarrow> run_state \<Rightarrow> alloc \<Rightarrow> (jump \<times> run_state \<times> alloc) option" where
  "on_after_jump opts data s al =
     (if state s \<noteq> SM_STATE_ExpectJump \<or> current_module s \<noteq> sig_module (sig s) \<or>
         current_function s \<noteq> sig_function (sig s)
      then fail 4 s al
      else do {
        fd \<leftarrow> function_at data (current_function_data s);
        if sig_block (sig s) \<ge> nb_blocks fd then fail 4 s al
        else do {
          edge \<leftarrow> graph_at (control_flow_graph fd) (curblock s) (sig_block (sig s));
          if edge = 0 then fail 4 s al
          else do {
            (s, al) \<leftarrow> trace_jump opts fd s al;
            Some (Break, s\<lparr>curblock := sig_block (sig s), state := SM_STATE_InFunction\<rparr>, al)
          }
        }
      })"

text \<open>
  What a call saves: the current block (and the last branching block in trace mode) on one
  stack, the caller and the height of the first stack on the other.
\<close>

definition save_caller :: "options \<Rightarrow> run_state \<Rightarrow> alloc \<Rightarrow> (run_state \<times> alloc) option" where
  "save_caller opts s al = do {
     (err, bl, al) \<leftarrow>
       (if OPTION_sm_trace opts
        then BLOCK_STACK_PUSH (topblock s) (error s) al (blocks s)
        else Some (error s, blocks s, al));
     (err, bl, al) \<leftarrow> BLOCK_STACK_PUSH (curblock s) err al bl;
     let ncall = \<lparr>cs_module = current_module s, cs_function = current_function s,
                  blocks_sp = BLOCK_STACK_TOP_PTR bl\<rparr>;
     (err, cl, al) \<leftarrow> CALL_STACK_PUSH ncall err al (calls s);
     Some (s\<lparr>error := err, blocks := bl, calls := cl, curblock := FUNCTION_ENTRY_BLOCK_ID,
             topblock := FUNCTION_ENTRY_BLOCK_ID\<rparr>, al)
   }"

text \<open>Where the call goes: an external function goes to the module and function it was relocated to.\<close>

definition call_target ::
    "monitor_data \<Rightarrow> module_data \<Rightarrow> run_state \<Rightarrow> (module_id \<times> function_id \<times> nat option) option" where
  "call_target data md s = do {
     fd \<leftarrow> arr_get (md_functions md) (unat (sig_function (sig s)));
     (m, f, mp) \<leftarrow>
       (if FUNCTION_IS_EXTERNAL fd
        then do {
          some_reloc \<leftarrow> arr_get (relocations md) (unat (sig_function (sig s)));
          let m = MODULE_FUNCTION_GET_MODULE some_reloc;
          Some (m, MODULE_FUNCTION_GET_FUNCTION some_reloc, Some (unat m))
        }
        else Some (current_module s, sig_function (sig s), current_module_data s));
     _ \<leftarrow> module_at data mp;
     Some (m, f, mp)
   }"

definition on_call ::
    "options \<Rightarrow> monitor_data \<Rightarrow> run_state \<Rightarrow> alloc \<Rightarrow> (jump \<times> run_state \<times> alloc) option" where
  "on_call opts data s al =
     (if state s \<noteq> SM_STATE_InFunction then fail 4 s al
      else do {
        md \<leftarrow> module_at data (current_module_data s);
        if sig_function (sig s) \<ge> nb_functions md then fail 4 s al
        else do {
          edge \<leftarrow> graph_at (call_graph md) (current_function s) (sig_function (sig s));
          if edge = 0 then fail 4 s al
          else do {
            (s, al) \<leftarrow> save_caller opts s al;
            (m, f, mp) \<leftarrow> call_target data md s;
            Some (Break,
              s\<lparr>current_module := m, current_function := f, current_module_data := mp,
                current_function_data := map_option (\<lambda>i. (i, unat f)) mp,
                state := SM_STATE_ExpectCall\<rparr>, al)
          }
        }
      })"

definition on_enter :: "monitor_data \<Rightarrow> run_state \<Rightarrow> alloc \<Rightarrow> (jump \<times> run_state \<times> alloc) option" where
  "on_enter data s al =
     (if state s = SM_STATE_Ready
      then
        if ucast (sig_module (sig s)) \<ge> nb_modules data then fail 6 s al
        else do {
          let mp = Some (unat (sig_module (sig s)));
          md \<leftarrow> module_at data mp;
          let s = s\<lparr>current_module_data := mp\<rparr>;
          if sig_function (sig s) \<ge> nb_functions md then fail 7 s al
          else do {
            fd \<leftarrow> arr_get (md_functions md) (unat (sig_function (sig s)));
            if \<not> FUNCTION_IS_ENTRYPOINT fd then fail 7 s al
            else Some (Break,
              s\<lparr>curblock := FUNCTION_ENTRY_BLOCK_ID, topblock := FUNCTION_ENTRY_BLOCK_ID,
                current_module := sig_module (sig s), current_function := sig_function (sig s),
                current_function_data :=
                  Some (unat (sig_module (sig s)), unat (sig_function (sig s))),
                state := SM_STATE_InFunction\<rparr>, al)
          }
        }
      else if state s \<noteq> SM_STATE_ExpectCall \<or> current_module s \<noteq> sig_module (sig s) \<or>
              current_function s \<noteq> sig_function (sig s) \<or> curblock s \<noteq> FUNCTION_ENTRY_BLOCK_ID
      then fail 4 s al
      else Some (Break, s\<lparr>state := SM_STATE_InFunction\<rparr>, al))"

text \<open>The return to the saved caller, which drops everything the callee left on the block stack.\<close>

definition restore_caller ::
    "options \<Rightarrow> monitor_data \<Rightarrow> run_state \<Rightarrow> alloc \<Rightarrow> (jump \<times> run_state \<times> alloc) option" where
  "restore_caller opts data s al = do {
     (ncall, cl) \<leftarrow> CALL_STACK_POP (calls s);
     _ \<leftarrow> module_at data (Some (unat (cs_module ncall)));
     let bl = BLOCK_STACK_RESTORE_TOP (blocks s) (blocks_sp ncall);
     let s = s\<lparr>calls := cl, current_module := cs_module ncall,
               current_function := cs_function ncall,
               current_module_data := Some (unat (cs_module ncall)),
               current_function_data := Some (unat (cs_module ncall), unat (cs_function ncall)),
               blocks := bl\<rparr>;
     no_block \<leftarrow> BLOCK_STACK_IS_EMPTY bl;
     if no_block then fail 7 s al
     else do {
       (cb, bl) \<leftarrow> BLOCK_STACK_POP bl;
       (tb, bl) \<leftarrow> (if OPTION_sm_trace opts then BLOCK_STACK_POP bl else Some (topblock s, bl));
       Some (Break,
         s\<lparr>curblock := cb, topblock := tb, blocks := bl, state := SM_STATE_ExpectReturn\<rparr>, al)
     }
   }"

definition on_exit ::
    "options \<Rightarrow> monitor_data \<Rightarrow> run_state \<Rightarrow> alloc \<Rightarrow> (jump \<times> run_state \<times> alloc) option" where
  "on_exit opts data s al =
     (if state s \<noteq> SM_STATE_InFunction \<or> current_module s \<noteq> sig_module (sig s) \<or>
         current_function s \<noteq> sig_function (sig s)
      then fail 4 s al
      else do {
        no_caller \<leftarrow> CALL_STACK_IS_EMPTY (calls s);
        if no_caller
        then do {
          md \<leftarrow> module_at data (current_module_data s);
          fd \<leftarrow> arr_get (md_functions md) (unat (current_function s));
          if \<not> FUNCTION_IS_ENTRYPOINT fd then fail 7 s al
          else Some (Answer_and_exit, s\<lparr>state := SM_STATE_Ready\<rparr>, al)
        }
        else restore_caller opts data s al
      })"

definition on_returned :: "monitor_data \<Rightarrow> run_state \<Rightarrow> alloc \<Rightarrow> (jump \<times> run_state \<times> alloc) option" where
  "on_returned data s al =
     (if state s \<noteq> SM_STATE_ExpectReturn then fail 4 s al
      else do {
        md \<leftarrow> module_at data (current_module_data s);
        if sig_function (sig s) \<ge> nb_functions md then fail 4 s al
        else do {
          edge \<leftarrow> graph_at (call_graph md) (current_function s) (sig_function (sig s));
          if edge = 0 then fail 4 s al
          else Some (Break, s\<lparr>state := SM_STATE_InFunction\<rparr>, al)
        }
      })"

definition handle_signal ::
    "options \<Rightarrow> monitor_data \<Rightarrow> run_state \<Rightarrow> alloc \<Rightarrow> (jump \<times> run_state \<times> alloc) option" where
  "handle_signal opts data s al =
     (case client_event_of (sig_event (sig s)) of
        Some CFI_BEFORE_JUMP \<Rightarrow> on_before_jump s al
      | Some CFI_AFTER_JUMP \<Rightarrow> on_after_jump opts data s al
      | Some CFI_CALL \<Rightarrow> on_call opts data s al
      | Some CFI_ENTER \<Rightarrow> on_enter data s al
      | Some CFI_EXIT \<Rightarrow> on_exit opts data s al
      | Some CFI_RETURNED \<Rightarrow> on_returned data s al
      | None \<Rightarrow> fail 5 s al)"

lemmas handlers = on_before_jump_def on_after_jump_def on_call_def on_enter_def on_exit_def
  on_returned_def fail_def

section \<open>The loop\<close>

text \<open>Which events a state lets through its first test; every other one is refused at once.\<close>

fun expects :: "monitor_state_t \<Rightarrow> client_event \<Rightarrow> bool" where
  "expects SM_STATE_Ready e \<longleftrightarrow> e = CFI_ENTER"
| "expects SM_STATE_InFunction e \<longleftrightarrow> e = CFI_BEFORE_JUMP \<or> e = CFI_CALL \<or> e = CFI_EXIT"
| "expects SM_STATE_ExpectCall e \<longleftrightarrow> e = CFI_ENTER"
| "expects SM_STATE_ExpectReturn e \<longleftrightarrow> e = CFI_RETURNED"
| "expects SM_STATE_ExpectJump e \<longleftrightarrow> e = CFI_AFTER_JUMP"

lemma handle_signal_unexpected:
  assumes "client_event_of (sig_event (sig s)) = Some e" "\<not> expects (state s) e"
  shows "handle_signal opts data s al = Some (Goto_exit, s\<lparr>error := 4\<rparr>, al)"
  using assms by (cases e; cases "state s") (simp_all add: handle_signal_def handlers)

lemma handle_signal_malformed:
  "client_event_of (sig_event (sig s)) = None \<Longrightarrow>
   handle_signal opts data s al = Some (Goto_exit, s\<lparr>error := 5\<rparr>, al)"
  by (simp add: handle_signal_def fail_def)

text \<open>The state each handled signal leads to. No handler touches the signal itself.\<close>

lemma on_before_jump_post:
  "on_before_jump s al = Some (Break, s', al') \<Longrightarrow>
   s' = s\<lparr>state := SM_STATE_ExpectJump\<rparr>"
  by (simp add: on_before_jump_def fail_def split: if_splits)

lemma trace_jump_frame:
  "trace_jump opts fd s al = Some (s', al') \<Longrightarrow>
   sig s' = sig s \<and> calls s' = calls s \<and> state s' = state s"
  by (auto simp: trace_jump_def bind_eq_Some_conv split: if_splits)

lemma on_after_jump_post:
  "on_after_jump opts data s al = Some (Break, s', al') \<Longrightarrow>
   state s' = SM_STATE_InFunction \<and> sig s' = sig s"
  by (auto simp: on_after_jump_def fail_def bind_eq_Some_conv dest: trace_jump_frame split: if_splits)

lemma save_caller_frame:
  "save_caller opts s al = Some (s', al') \<Longrightarrow>
   sig s' = sig s \<and> current_module s' = current_module s \<and>
   current_module_data s' = current_module_data s"
  by (auto simp: save_caller_def bind_eq_Some_conv Let_def split: if_splits)

lemma on_call_post:
  "on_call opts data s al = Some (Break, s', al') \<Longrightarrow>
   state s' = SM_STATE_ExpectCall \<and> sig s' = sig s"
  by (auto simp: on_call_def fail_def bind_eq_Some_conv dest: save_caller_frame split: if_splits)

lemma on_enter_post:
  "on_enter data s al = Some (Break, s', al') \<Longrightarrow> state s' = SM_STATE_InFunction \<and> sig s' = sig s"
  by (clarsimp simp: on_enter_def fail_def bind_eq_Some_conv Let_def split: if_split_asm)

lemma restore_caller_post:
  "restore_caller opts data s al = Some (Break, s', al') \<Longrightarrow>
   state s' = SM_STATE_ExpectReturn \<and> sig s' = sig s"
  by (cases "OPTION_sm_trace opts")
    (clarsimp simp: restore_caller_def fail_def bind_eq_Some_conv Let_def split: if_split_asm)+

lemma on_exit_post:
  "on_exit opts data s al = Some (Break, s', al') \<Longrightarrow>
   state s' = SM_STATE_ExpectReturn \<and> sig s' = sig s"
  by (auto simp: on_exit_def fail_def bind_eq_Some_conv dest: restore_caller_post split: if_splits)

lemma on_returned_post:
  "on_returned data s al = Some (Break, s', al') \<Longrightarrow> s' = s\<lparr>state := SM_STATE_InFunction\<rparr>"
  by (auto simp: on_returned_def fail_def bind_eq_Some_conv split: if_splits)

lemmas handler_posts = on_before_jump_post on_after_jump_post on_call_post on_enter_post
  on_exit_post on_returned_post

text \<open>A handled signal never leaves a state that would let the same signal through again.\<close>

lemma handle_signal_Break:
  assumes "handle_signal opts data s al = Some (Break, s', al')"
  obtains e where "client_event_of (sig_event (sig s)) = Some e" "expects (state s) e"
    "\<not> expects (state s') e" "sig s' = sig s"
proof (cases "client_event_of (sig_event (sig s))")
  case None
  with assms show ?thesis by (simp add: handle_signal_malformed)
next
  case (Some e)
  then have "expects (state s) e"
    using assms handle_signal_unexpected [OF Some] by fastforce
  moreover have "sig s' = sig s \<and> \<not> expects (state s') e"
    using assms Some by (cases e) (auto simp: handle_signal_def dest!: handler_posts)
  ultimately show ?thesis using Some that by blast
qed

text \<open>
  One turn of the loop ends with the answer and, when compiled with \<open>TIMEOUT\<close>, the wait for
  the next signal; the turn after it starts with the read, whose failure is only recorded.
\<close>

definition answer_and_wait :: "options \<Rightarrow> run_state \<Rightarrow> world \<Rightarrow> run_state \<times> world" where
  "answer_and_wait opts s w =
     (let (w, e) = write_monitor_answer w (error s);
          (w, e) = MONITOR_SIGNAL_TIMEOUT opts w e
      in (s\<lparr>error := e\<rparr>, w))"

definition read_signal :: "run_state \<Rightarrow> world \<Rightarrow> run_state \<times> world" where
  "read_signal s w =
     (let (w, c, e) = read_client_signal w (sig s) (error s) in (s\<lparr>sig := c, error := e\<rparr>, w))"

definition accepts :: "options \<Rightarrow> monitor_data \<Rightarrow> run_state \<Rightarrow> alloc \<Rightarrow> bool" where
  "accepts opts data s al \<longleftrightarrow>
     (case handle_signal opts data s al of Some (Break, _, _) \<Rightarrow> True | _ \<Rightarrow> False)"

text \<open>
  At the end of the stream every further read leaves the signal as it was, so that the next
  turn sees the one just handled, which is refused.
\<close>

lemma handled_signal_refused:
  assumes "handle_signal opts data s al = Some (Break, s', al')"
    "sig s'' = sig s'" "state s'' = state s'"
  shows "handle_signal opts data s'' al'' = Some (Goto_exit, s''\<lparr>error := 4\<rparr>, al'')"
proof -
  obtain e where "client_event_of (sig_event (sig s)) = Some e" "\<not> expects (state s') e"
    "sig s' = sig s"
    using assms(1) by (rule handle_signal_Break)
  then show ?thesis
    using assms(2,3) by (intro handle_signal_unexpected) simp_all
qed

lemma answer_and_wait_frame:
  assumes "answer_and_wait opts s w = (s', w')"
  shows "s' = s\<lparr>error := error s'\<rparr>" "client_to_monitor w' = client_to_monitor w"
    "sig s' = sig s" "state s' = state s"
  using assms
  by (auto simp: answer_and_wait_def write_monitor_answer_def MONITOR_SIGNAL_TIMEOUT_def
        split: prod.splits if_splits)

lemma read_signal_pipe:
  assumes "read_signal s w = (s', w')"
  shows "client_to_monitor w' = tl (client_to_monitor w)"
    "client_to_monitor w = [] \<Longrightarrow> sig s' = sig s \<and> error s' = 1" "state s' = state s"
  using assms
  by (auto simp: read_signal_def read_client_signal_def READ_CLIENT_SIGNAL_def pipe_read_def
        sizeof_client_signal_def split: prod.splits list.splits)

function run_loop ::
    "options \<Rightarrow> monitor_data \<Rightarrow> run_state \<Rightarrow> world \<Rightarrow> (run_state \<times> world) option" where
  "run_loop opts data s w =
     (case handle_signal opts data s (w_alloc w) of
        None \<Rightarrow> None
      | Some (j, s, al) \<Rightarrow>
          let w = w\<lparr>w_alloc := al\<rparr> in
          (case j of
             Goto_exit \<Rightarrow> Some (s, w)
           | Answer_and_exit \<Rightarrow>
               let (w, e) = write_monitor_answer w (error s) in Some (s\<lparr>error := e\<rparr>, w)
           | Break \<Rightarrow>
               let (s, w) = answer_and_wait opts s w in
               if error s \<noteq> 0 then Some (s, w)
               else let (s, w) = read_signal s w in run_loop opts data s w))"
  by pat_completeness auto
termination
proof (relation "measure (\<lambda>(opts, data, s, w).
    2 * length (client_to_monitor w) + (if accepts opts data s (w_alloc w) then 1 else 0))", goal_cases)
  case 1
  show ?case by simp
next
  case (2 opts data s w a j b s1 al w1 c s2 w2 d s3 w3)
  then have turn: "handle_signal opts data s (w_alloc w) = Some (Break, s1, al)"
    and wait: "answer_and_wait opts s1 (w\<lparr>w_alloc := al\<rparr>) = (s2, w2)"
    and read: "read_signal s2 w2 = (s3, w3)"
    by simp_all
  have pipe: "client_to_monitor w2 = client_to_monitor w" and s2: "sig s2 = sig s1" "state s2 = state s1"
    using answer_and_wait_frame [OF wait] by simp_all
  have acc: "accepts opts data s (w_alloc w)"
    by (simp add: accepts_def turn)
  show ?case
  proof (cases "client_to_monitor w")
    case Nil
    then have "sig s3 = sig s1" "state s3 = state s1" "client_to_monitor w3 = []"
      using read_signal_pipe [OF read] pipe s2 by simp_all
    then have "\<not> accepts opts data s3 (w_alloc w3)"
      using handled_signal_refused [OF turn, of s3 "w_alloc w3"] by (simp add: accepts_def)
    then show ?thesis using acc Nil \<open>client_to_monitor w3 = []\<close> by simp
  next
    case (Cons p ps)
    then show ?thesis using acc read_signal_pipe(1) [OF read] pipe by simp
  qed
qed

declare run_loop.simps [simp del]

section \<open>The whole run\<close>

text \<open>
  The exit label: in trace mode a failed run pushes its last position, logs both stacks and
  pops again; then the stacks are freed. The logs are dropped here.
\<close>

definition log_failure :: "options \<Rightarrow> run_state \<Rightarrow> alloc \<Rightarrow> (run_state \<times> alloc) option" where
  "log_failure opts s al =
     (if error s \<noteq> 0 \<and> OPTION_sm_trace opts
      then do {
        (err, bl, al) \<leftarrow> BLOCK_STACK_PUSH (curblock s) 0 al (blocks s);
        let ncall = \<lparr>cs_module = current_module s, cs_function = current_function s,
                     blocks_sp = BLOCK_STACK_TOP_PTR bl\<rparr>;
        (err, cl, al) \<leftarrow> CALL_STACK_PUSH ncall err al (calls s);
        _ \<leftarrow> call_stack_trace cl;
        _ \<leftarrow> block_stack_trace bl;
        (cb, bl) \<leftarrow> BLOCK_STACK_POP bl;
        (_, cl) \<leftarrow> CALL_STACK_POP cl;
        Some (s\<lparr>curblock := cb, blocks := bl, calls := cl\<rparr>, al)
      }
      else Some (s, al))"

definition monitor_run_exit :: "options \<Rightarrow> run_state \<Rightarrow> world \<Rightarrow> (u32 \<times> world) option" where
  "monitor_run_exit opts s w = do {
     (s, al) \<leftarrow> log_failure opts s (w_alloc w);
     _ \<leftarrow> call_stack_free (calls s);
     _ \<leftarrow> block_stack_free (blocks s);
     Some (error s, w\<lparr>w_alloc := al\<rparr>)
   }"

text \<open>The local variables at the start of the loop; \<open>garbage\<close> is the uninitialised signal.\<close>

definition run_init :: "call_stack \<Rightarrow> block_stack \<Rightarrow> client_signal \<Rightarrow> run_state" where
  "run_init cl bl garbage =
     \<lparr>state = SM_STATE_Ready, current_module = 0, current_function = 0, curblock = 0,
      current_module_data = None, current_function_data = None, error = 0,
      calls = cl, blocks = bl, topblock = 0, sig = garbage\<rparr>"

definition monitor_run ::
    "options \<Rightarrow> client_signal \<Rightarrow> monitor_data \<Rightarrow> world \<Rightarrow> (u32 \<times> world) option" where
  "monitor_run opts garbage data w =
     (let (e, cl, al) = call_stack_init (w_alloc w) stack_uninit; w = w\<lparr>w_alloc := al\<rparr> in
      if e \<noteq> 0 then Some (1, w)
      else let (e, bl, al) = block_stack_init (w_alloc w) stack_uninit; w = w\<lparr>w_alloc := al\<rparr> in
      if e \<noteq> 0 then do { _ \<leftarrow> call_stack_free cl; Some (1, w) }
      else let s = run_init cl bl garbage; (w, e) = MONITOR_SIGNAL_TIMEOUT opts w 0 in
      if e \<noteq> 0 then monitor_run_exit opts (s\<lparr>error := e\<rparr>) w
      else let (s, w) = read_signal s w in do {
        (s, w) \<leftarrow> run_loop opts data s w;
        monitor_run_exit opts s w
      })"

end
