(* ===== verification/Monitor_Dot.thy ===== *)
theory Monitor_Dot
  imports Monitor_Data
begin

text \<open>
  \<open>monitor/src/monitor_dot.c\<close>: the graphs of a module printed for \<open>dot\<close>. The printed text is
  a list of lines; \<open>%u\<close> is the decimal form of the number.
\<close>

datatype dot_line = Dot_open | Dot_title string | Dot_edge u32 u32 | Dot_close

text \<open>One row: \<open>g[i] && g[i][j]\<close> is evaluated for every \<open>j\<close> from \<open>0\<close> on; a null row prints nothing.\<close>

fun dot_row :: "byte list option list option \<Rightarrow> u32 \<Rightarrow> nat \<Rightarrow> nat \<Rightarrow> dot_line list option" where
  "dot_row g i j 0 = Some []"
| "dot_row g i j (Suc n) = do {
     row \<leftarrow> arr_get g (unat i);
     line \<leftarrow> (case row of None \<Rightarrow> Some []
              | Some xs \<Rightarrow> do {
                  e \<leftarrow> arr_get (Some xs) j;
                  Some (if e \<noteq> 0 then [Dot_edge i (of_nat j)] else [])
                });
     rest \<leftarrow> dot_row g i (Suc j) n;
     Some (line @ rest)
   }"

fun dot_rows :: "byte list option list option \<Rightarrow> nat \<Rightarrow> nat \<Rightarrow> nat \<Rightarrow> dot_line list option" where
  "dot_rows g m i 0 = Some []"
| "dot_rows g m i (Suc n) = do {
     line \<leftarrow> dot_row g (of_nat i) 0 m;
     rest \<leftarrow> dot_rows g m (Suc i) n;
     Some (line @ rest)
   }"

definition monitor_call_graph :: "module_data \<Rightarrow> dot_line list option" where
  "monitor_call_graph md = do {
     ls \<leftarrow> dot_rows (call_graph md) (unat (nb_functions md)) 0 (unat (nb_functions md));
     Some ([Dot_open, Dot_title ''Call graph of module''] @ ls @ [Dot_close])
   }"

text \<open>A null name is printed by the C library as \<open>(null)\<close>, so the dump does not depend on it.\<close>

definition monitor_control_flow_graph :: "function_data \<Rightarrow> dot_line list option" where
  "monitor_control_flow_graph fd = do {
     ls \<leftarrow> dot_rows (control_flow_graph fd) (unat (nb_blocks fd)) 0 (unat (nb_blocks fd));
     Some ([Dot_open, Dot_title (''Control flow graph of function name='' @
              (case fd_name fd of None \<Rightarrow> ''(null)'' | Some bs \<Rightarrow> map (\<lambda>b. char_of (unat b)) bs))]
           @ ls @ [Dot_close])
   }"

section \<open>What is printed\<close>

definition graph_edge :: "byte list option list option \<Rightarrow> u32 \<Rightarrow> u32 \<Rightarrow> bool" where
  "graph_edge g i j \<longleftrightarrow>
     (case arr_get g (unat i) of
        Some (Some xs) \<Rightarrow> unat j < length xs \<and> xs ! unat j \<noteq> 0
      | _ \<Rightarrow> False)"

lemma wf_rows_nth:
  assumes "wf_rows n g" "i < unat n"
  shows "arr_get g i = Some None \<or> (\<exists>xs. arr_get g i = Some (Some xs) \<and> length xs = unat n)"
proof -
  obtain rows where rows: "g = Some rows" "length rows = unat n"
    "\<And>i xs. i < length rows \<Longrightarrow> rows ! i = Some xs \<Longrightarrow> length xs = unat n"
    by (rule wf_rowsE [OF assms(1)]) metis
  with assms(2) show ?thesis by (cases "rows ! i") auto
qed

lemma unat_of_nat_below [simp]: "i < unat (n :: u32) \<Longrightarrow> unat (of_nat i :: u32) = i"
  using unsigned_less [of n, where ?'a = nat] by (simp add: unat_of_nat take_bit_nat_eq_self)

lemma dot_row_edges:
  assumes "wf_rows n g" "i < unat n" "j + k \<le> unat n"
  shows "dot_row g (of_nat i) j k =
    Some [Dot_edge (of_nat i) (of_nat b). b \<leftarrow> [j..<j + k], graph_edge g (of_nat i) (of_nat b)]"
  using assms(3)
proof (induction k arbitrary: j)
  case (Suc k)
  have up: "[j..<Suc (j + k)] = j # [Suc j..<Suc (j + k)]" by (rule upt_conv_Cons) simp
  have "unat (of_nat j :: u32) = j" using Suc.prems by (intro unat_of_nat_below [of _ n]) simp
  then show ?case
    using wf_rows_nth [OF assms(1,2)] Suc.IH [of "Suc j"] Suc.prems assms(2)
    by (auto simp: up graph_edge_def simp del: upt_Suc)
qed simp

lemma dot_rows_edges:
  assumes "wf_rows n g" "i + k \<le> unat n"
  shows "dot_rows g (unat n) i k =
    Some [Dot_edge (of_nat a) (of_nat b). a \<leftarrow> [i..<i + k], b \<leftarrow> [0..<unat n], graph_edge g (of_nat a) (of_nat b)]"
  using assms(2)
proof (induction k arbitrary: i)
  case (Suc k)
  have up: "[i..<Suc (i + k)] = i # [Suc i..<Suc (i + k)]" by (rule upt_conv_Cons) simp
  show ?case
    using dot_row_edges [OF assms(1), of i 0 "unat n"] Suc.IH [of "Suc i"] Suc.prems
    by (simp add: up del: upt_Suc)
qed simp

end
