(* ===== verification/Monitor_Load.thy ===== *)
theory Monitor_Load
  imports Monitor_Run Monitor_Dot
begin

text \<open>
  \<open>monitor/src/monitor_load.c\<close>: how the monitor receives the tables of each module over the
  loading pipe and resolves the external functions of one module to the functions of another.
  The body of a loading packet is a byte buffer in which structures of varying size follow
  each other; a pointer into it is an offset, and a read past its end is undefined.
\<close>

section \<open>Buffers and allocation\<close>

type_synonym buffer = "byte list option"

definition buf_get32 :: "buffer \<Rightarrow> nat \<Rightarrow> u32 option" where
  "buf_get32 buf i = do { bs \<leftarrow> buf; get32 bs i }"

text \<open>The bytes before the first zero byte; undefined when there is none (\<open>strdup\<close>, \<open>strchr\<close>).\<close>

definition c_string :: "buffer \<Rightarrow> nat \<Rightarrow> byte list option" where
  "c_string buf i = do {
     bs \<leftarrow> buf;
     let name = takeWhile (\<lambda>b. b \<noteq> 0) (drop i bs);
     if i + length name < length bs then Some name else None
   }"

definition calloc_array :: "u32 \<Rightarrow> 'a \<Rightarrow> alloc \<Rightarrow> 'a list option \<times> alloc" where
  "calloc_array n zero al =
     (if al 0 = Alloc_Fail then None else Some (replicate (unat n) zero), alloc_rest al)"

definition strdup :: "byte list \<Rightarrow> alloc \<Rightarrow> byte list option \<times> alloc" where
  "strdup name al = (if al 0 = Alloc_Fail then None else Some name, alloc_rest al)"

definition empty_function :: function_data where
  "empty_function = \<lparr>fd_name = None, fd_flags = 0, nb_blocks = 0, control_flow_graph = None,
     immediate_post_dominator = None\<rparr>"

definition empty_module :: module_data where
  "empty_module = \<lparr>nb_functions = 0, nb_entrypoint_inits = 0, nb_entrypoint_finis = 0,
     call_graph = None, relocations = None, md_functions = None\<rparr>"

section \<open>The sections of a module\<close>

text \<open>
  All four sections are arrays of entries of varying size, read by a loop over a counter and a
  moving pointer; the first entry that fails ends it with its error code.
\<close>

fun entries :: "(nat \<Rightarrow> 's \<Rightarrow> (u32 \<times> nat \<times> 's) option) \<Rightarrow> nat \<Rightarrow> nat \<Rightarrow> 's \<Rightarrow> (u32 \<times> 's) option" where
  "entries entry 0 ptr s = Some (0, s)"
| "entries entry (Suc n) ptr s = do {
     (e, ptr, s) \<leftarrow> entry ptr s;
     if e \<noteq> 0 then Some (e, s) else entries entry n ptr s
   }"

definition count_entrypoint :: "function_data \<Rightarrow> module_data \<Rightarrow> module_data" where
  "count_entrypoint fd data =
     (let data = (if FUNCTION_IS_ENTRYPOINT_INIT fd
                  then data\<lparr>nb_entrypoint_inits := nb_entrypoint_inits data + 1\<rparr> else data)
      in if FUNCTION_IS_ENTRYPOINT_FINI fd
         then data\<lparr>nb_entrypoint_finis := nb_entrypoint_finis data + 1\<rparr> else data)"

text \<open>One entry \<open>msg_fct_t\<close>: number, flags, name; the next one starts after the name's zero byte.\<close>

definition load_function_id :: "buffer \<Rightarrow> nat \<Rightarrow> module_data \<times> alloc \<Rightarrow> (u32 \<times> nat \<times> module_data \<times> alloc) option" where
  "load_function_id fct ptr = (\<lambda>(data, al). do {
     f_id \<leftarrow> buf_get32 fct ptr;
     if f_id \<ge> nb_functions data then Some (3, ptr, data, al)
     else do {
       f_name \<leftarrow> c_string fct (ptr + 8);
       f_flags \<leftarrow> buf_get32 fct (ptr + 4);
       let (name, al) = strdup f_name al;
       let fd = \<lparr>fd_name = name, fd_flags = f_flags, nb_blocks = 0, control_flow_graph = None,
                 immediate_post_dominator = None\<rparr>;
       fds \<leftarrow> arr_set (md_functions data) (unat f_id) fd;
       Some (0, ptr + 8 + length f_name + 1, count_entrypoint fd (data\<lparr>md_functions := fds\<rparr>), al)
     }
   })"

definition load_section_function_id ::
    "buffer \<Rightarrow> module_data \<Rightarrow> alloc \<Rightarrow> (u32 \<times> module_data \<times> alloc) option" where
  "load_section_function_id fct data al =
     (if nb_functions data \<noteq> 0 then Some (1, data, al)
      else do {
        num_fcts \<leftarrow> buf_get32 fct 0;
        let data = data\<lparr>nb_functions := num_fcts\<rparr>;
        let (cg, al) = calloc_array num_fcts None al;
        let data = data\<lparr>call_graph := cg\<rparr>;
        if cg = None then Some (2, data, al)
        else do {
          let (rs, al) = calloc_array num_fcts 0 al;
          let data = data\<lparr>relocations := rs\<rparr>;
          if rs = None then Some (2, data, al)
          else do {
            let (fs, al) = calloc_array num_fcts empty_function al;
            let data = data\<lparr>md_functions := fs\<rparr>;
            if fs = None then Some (2, data, al)
            else entries (load_function_id fct) (unat num_fcts) 4 (data, al)
          }
        }
      })"

text \<open>
  The inner loop both transition sections share: mark \<open>n\<close> successors in a row; the first one
  out of range stops it.
\<close>

fun mark_successors :: "buffer \<Rightarrow> nat \<Rightarrow> nat \<Rightarrow> u32 \<Rightarrow> byte list option \<Rightarrow> (bool \<times> byte list option) option" where
  "mark_successors buf 0 cptr limit row = Some (True, row)"
| "mark_successors buf (Suc n) cptr limit row = do {
     c \<leftarrow> buf_get32 buf cptr;
     if c \<ge> limit then Some (False, row)
     else do {
       row \<leftarrow> arr_set row (unat c) 1;
       mark_successors buf n (cptr + 4) limit row
     }
   }"

definition load_function_transition ::
    "buffer \<Rightarrow> nat \<Rightarrow> module_data \<times> alloc \<Rightarrow> (u32 \<times> nat \<times> module_data \<times> alloc) option" where
  "load_function_transition msg ptr = (\<lambda>(data, al). do {
     f_id \<leftarrow> buf_get32 msg ptr;
     if f_id \<ge> nb_functions data then Some (3, ptr, data, al)
     else do {
       old \<leftarrow> arr_get (call_graph data) (unat f_id);
       if old \<noteq> None then Some (3, ptr, data, al)
       else do {
         let (row, al) = calloc_array (nb_functions data) 0 al;
         if row = None then Some (2, ptr, data, al)
         else do {
           f_num_calls \<leftarrow> buf_get32 msg (ptr + 4);
           (ok, row) \<leftarrow> mark_successors msg (unat f_num_calls) (ptr + 8) (nb_functions data) row;
           cg \<leftarrow> arr_set (call_graph data) (unat f_id) row;
           Some (if ok then 0 else 3, ptr + 8 + unat f_num_calls * 4, data\<lparr>call_graph := cg\<rparr>, al)
         }
       }
     }
   })"

definition load_section_function_transition ::
    "buffer \<Rightarrow> module_data \<Rightarrow> alloc \<Rightarrow> (u32 \<times> module_data \<times> alloc) option" where
  "load_section_function_transition msg data al =
     (if call_graph data = None then Some (1, data, al)
      else if nb_functions data = 0 then Some (1, data, al)
      else do {
        num_fct_trans \<leftarrow> buf_get32 msg 0;
        entries (load_function_transition msg) (unat num_fct_trans) 4 (data, al)
      })"

text \<open>The block transitions of one function, whose row may be split over several entries.\<close>

definition load_block_transition ::
    "buffer \<Rightarrow> nat \<Rightarrow> function_data \<times> alloc \<Rightarrow> (u32 \<times> nat \<times> function_data \<times> alloc) option" where
  "load_block_transition msg ptr = (\<lambda>(fdata, al). do {
     b_id \<leftarrow> buf_get32 msg ptr;
     if b_id \<ge> nb_blocks fdata then Some (7, ptr, fdata, al)
     else do {
       old \<leftarrow> arr_get (control_flow_graph fdata) (unat b_id);
       let (row, al) = (if old = None then calloc_array (nb_blocks fdata) 0 al else (old, al));
       if row = None then Some (9, ptr, fdata, al)
       else do {
         b_num_succ \<leftarrow> buf_get32 msg (ptr + 4);
         (ok, row) \<leftarrow> mark_successors msg (unat b_num_succ) (ptr + 8) (nb_blocks fdata) row;
         cfg \<leftarrow> arr_set (control_flow_graph fdata) (unat b_id) row;
         Some (if ok then 0 else 10, ptr + 8 + unat b_num_succ * 4, fdata\<lparr>control_flow_graph := cfg\<rparr>, al)
       }
     }
   })"

text \<open>The graph and the post-dominators of a function that has none yet, and its transitions.\<close>

definition load_function_blocks ::
    "buffer \<Rightarrow> u32 \<Rightarrow> function_data \<Rightarrow> alloc \<Rightarrow> (u32 \<times> function_data \<times> alloc) option" where
  "load_function_blocks msg num_block fdata al = do {
     let (cfg, al) = calloc_array num_block None al;
     let fdata = fdata\<lparr>nb_blocks := num_block, control_flow_graph := cfg\<rparr>;
     if cfg = None then Some (6, fdata, al)
     else do {
       let (ipd, al) = calloc_array num_block 0 al;
       let fdata = fdata\<lparr>immediate_post_dominator := ipd\<rparr>;
       if ipd = None then Some (6, fdata, al)
       else do {
         num_block_trans \<leftarrow> buf_get32 msg 8;
         entries (load_block_transition msg) (unat num_block_trans) 12 (fdata, al)
       }
     }
   }"

definition load_section_block_transition ::
    "buffer \<Rightarrow> module_data \<Rightarrow> alloc \<Rightarrow> (u32 \<times> module_data \<times> alloc) option" where
  "load_section_block_transition msg data al =
     (if md_functions data = None then Some (1, data, al)
      else if nb_functions data = 0 then Some (2, data, al)
      else do {
        f_id \<leftarrow> buf_get32 msg 0;
        if f_id \<ge> nb_functions data then Some (3, data, al)
        else do {
          fdata \<leftarrow> arr_get (md_functions data) (unat f_id);
          if nb_blocks fdata \<noteq> 0 then Some (4, data, al)
          else do {
            num_block \<leftarrow> buf_get32 msg 4;
            if num_block = 0 then Some (5, data, al)
            else do {
              (e, fdata, al) \<leftarrow> load_function_blocks msg num_block fdata al;
              fds \<leftarrow> arr_set (md_functions data) (unat f_id) fdata;
              Some (e, data\<lparr>md_functions := fds\<rparr>, al)
            }
          }
        }
      })"

definition load_block_ipd :: "buffer \<Rightarrow> nat \<Rightarrow> module_data \<Rightarrow> (u32 \<times> nat \<times> module_data) option" where
  "load_block_ipd ipd ptr data = do {
     f_id \<leftarrow> buf_get32 ipd ptr;
     if f_id \<ge> nb_functions data then Some (2, ptr, data)
     else do {
       fdata \<leftarrow> arr_get (md_functions data) (unat f_id);
       if immediate_post_dominator fdata = None then Some (4, ptr, data)
       else do {
         b_id \<leftarrow> buf_get32 ipd (ptr + 4);
         if b_id \<ge> nb_blocks fdata then Some (5, ptr, data)
         else do {
           b_ipd_id \<leftarrow> buf_get32 ipd (ptr + 8);
           ds \<leftarrow> arr_set (immediate_post_dominator fdata) (unat b_id) b_ipd_id;
           fds \<leftarrow> arr_set (md_functions data) (unat f_id) (fdata\<lparr>immediate_post_dominator := ds\<rparr>);
           Some (0, ptr + 16, data\<lparr>md_functions := fds\<rparr>)
         }
       }
     }
   }"

definition load_section_block_ipd ::
    "buffer \<Rightarrow> module_data \<Rightarrow> alloc \<Rightarrow> (u32 \<times> module_data \<times> alloc) option" where
  "load_section_block_ipd ipd data al =
     (if md_functions data = None then Some (1, data, al)
      else do {
        num_ipd \<leftarrow> buf_get32 ipd 0;
        (e, data) \<leftarrow> entries (load_block_ipd ipd) (unat num_ipd) 4 data;
        Some (e, data, al)
      })"

section \<open>What the sections keep\<close>

lemma entries_inv:
  assumes "\<And>ptr s e ptr' s'. P s \<Longrightarrow> entry ptr s = Some (e, ptr', s') \<Longrightarrow> P s' \<and> (e = 0 \<or> e \<in> E)"
    and "entries entry n ptr s = Some (e, s')" "P s"
  shows "P s' \<and> (e = 0 \<or> e \<in> E)"
  using assms(2,3)
proof (induction n arbitrary: ptr s)
  case (Suc n)
  then obtain e1 ptr1 s1 where 1: "entry ptr s = Some (e1, ptr1, s1)"
    and 2: "if e1 \<noteq> 0 then e = e1 \<and> s' = s1 else entries entry n ptr1 s1 = Some (e, s')"
    by (auto simp: bind_eq_Some_conv split: if_splits)
  note step = assms(1) [OF Suc.prems(2) 1]
  show ?case
  proof (cases "e1 = 0")
    case True
    with 2 have "entries entry n ptr1 s1 = Some (e, s')" by simp
    then show ?thesis using step by (intro Suc.IH) auto
  qed (use 2 step in simp)
qed simp

lemma wf_rows_update:
  assumes "wf_rows n (Some rows)" "length xs = unat n"
  shows "wf_rows n (Some (rows[i := Some xs]))"
proof -
  have "set (rows[i := Some xs]) \<subseteq> insert (Some xs) (set rows)" by (rule set_update_subset_insert)
  with assms show ?thesis by (auto simp: wf_rows_def)
qed

lemma wf_rows_calloc [simp]: "wf_rows n (Some (replicate (unat n) None))"
  by (simp add: wf_rows_def)

lemma wf_module_functions:
  assumes "wf_module md" "arr_set (md_functions md) i fd = Some fds" "wf_function fd"
  shows "wf_module (md\<lparr>md_functions := fds\<rparr>)"
proof -
  obtain fs where fs: "md_functions md = Some fs" "fds = Some (fs[i := fd])"
    using assms(2) by (auto dest: arr_set_SomeD)
  have "set (fs[i := fd]) \<subseteq> insert fd (set fs)" by (rule set_update_subset_insert)
  with assms fs show ?thesis by (auto simp: wf_module_def split: option.splits)
qed

lemma wf_module_call_graph:
  assumes "wf_module md" "wf_rows (nb_functions md) cg"
  shows "wf_module (md\<lparr>call_graph := cg\<rparr>)"
  using assms by (auto simp: wf_module_def split: option.splits)

lemma wf_module_counters [simp]:
  "wf_module (md\<lparr>nb_entrypoint_inits := a\<rparr>) = wf_module md"
  "wf_module (md\<lparr>nb_entrypoint_finis := b\<rparr>) = wf_module md"
  by (simp_all add: wf_module_def split: option.splits)

lemma wf_module_function:
  assumes "wf_module md" "arr_get (md_functions md) (unat i) = Some fd" "i < nb_functions md"
  shows "wf_function fd"
proof -
  have "nb_functions md \<noteq> 0" using assms(3) by auto
  with assms(1) obtain fs where "md_functions md = Some fs" "\<And>i. i < length fs \<Longrightarrow> wf_function (fs ! i)"
    by (rule wf_moduleE) metis
  with assms(2) show ?thesis by (auto split: if_splits)
qed

lemma mark_successors_length:
  "mark_successors buf n c limit (Some xs) = Some (ok, row) \<Longrightarrow> \<exists>ys. row = Some ys \<and> length ys = length xs"
proof (induction n arbitrary: c xs)
  case (Suc n)
  obtain d where d: "buf_get32 buf c = Some d"
    using Suc.prems by (cases "buf_get32 buf c") simp_all
  show ?case
  proof (cases "limit \<le> d \<or> \<not> unat d < length xs")
    case False
    with Suc.prems d have "mark_successors buf n (c + 4) limit (Some (xs[unat d := 1])) = Some (ok, row)"
      by simp
    from Suc.IH [OF this] show ?thesis by simp
  qed (use Suc.prems d in \<open>auto split: if_splits\<close>)
qed auto

lemma mark_update_wf:
  assumes "mark_successors buf n c limit (Some xs) = Some (ok, row)" "arr_set g i row = Some g'"
    "wf_rows k g" "length xs = unat k"
  shows "wf_rows k g'"
proof -
  obtain ys where "row = Some ys" "length ys = unat k"
    using mark_successors_length [OF assms(1)] assms(4) by auto
  with assms(2,3) show ?thesis by (auto dest!: arr_set_SomeD intro: wf_rows_update)
qed

text \<open>Each entry keeps the tables well formed, whatever it returns.\<close>

lemma count_entrypoint_simps [simp]:
  "wf_module (count_entrypoint fd md) = wf_module md"
  "nb_functions (count_entrypoint fd md) = nb_functions md"
  "md_functions (count_entrypoint fd md) = md_functions md"
  by (simp_all add: count_entrypoint_def Let_def)

lemma strdup_later: "strdup nm al = (r, al') \<Longrightarrow> alloc_later al al'"
  by (auto simp: strdup_def alloc_later_rest)

lemma calloc_later: "calloc_array n z al = (r, al') \<Longrightarrow> alloc_later al al'"
  by (auto simp: calloc_array_def alloc_later_rest)

lemma calloc_Some: "calloc_array n z al = (Some xs, al') \<Longrightarrow> length xs = unat n"
  by (auto simp: calloc_array_def split: if_splits)

lemma calloc_fails: "calloc_array n z al = (None, al') \<Longrightarrow> Alloc_Fail \<in> range al"
  by (auto simp: calloc_array_def split: if_splits) (metis rangeI)

definition keeps_module :: "u32 set \<Rightarrow> module_data \<Rightarrow> alloc \<Rightarrow> u32 \<times> nat \<times> module_data \<times> alloc \<Rightarrow> bool" where
  "keeps_module E md al = (\<lambda>(e, ptr, md', al'). wf_module md' \<and> nb_functions md' = nb_functions md \<and>
     alloc_later al al' \<and> (e = 0 \<or> e \<in> E))"

lemma load_function_id_wf:
  assumes "wf_module md"
  shows "yields (keeps_module {3} md al) (load_function_id fct ptr (md, al))"
proof -
  have new: "wf_function \<lparr>fd_name = a, fd_flags = b, nb_blocks = 0, control_flow_graph = None,
      immediate_post_dominator = None\<rparr>" for a b
    by (simp add: wf_function_def)
  show ?thesis
    unfolding load_function_id_def
    by (intro vc) (use assms in \<open>auto simp: keeps_module_def simp del: arr_set_simps
        intro: wf_module_functions [OF assms _ new] dest: strdup_later\<close>)
qed

lemma load_function_transition_wf:
  assumes "wf_module md"
  shows "yields (keeps_module {2, 3} md al) (load_function_transition msg ptr (md, al))"
proof -
  have "wf_module (md\<lparr>call_graph := cg\<rparr>)" if id: "\<not> nb_functions md \<le> f_id"
      and r: "calloc_array (nb_functions md) 0 al = (Some xs, al1)"
      and row: "mark_successors msg n c (nb_functions md) (Some xs) = Some (ok, row)"
      and cg: "arr_set (call_graph md) (unat f_id) row = Some cg" for f_id xs al1 n c ok row cg
  proof -
    have "wf_rows (nb_functions md) (call_graph md)"
      by (rule wf_moduleE [OF assms]) (use id in auto)
    then show ?thesis
      using mark_update_wf [OF row cg] calloc_Some [OF r] wf_module_call_graph [OF assms] by blast
  qed
  then show ?thesis
    unfolding load_function_transition_def
    by (intro vc) (use assms in \<open>auto simp: keeps_module_def simp del: arr_set_simps dest: calloc_later\<close>)
qed

lemma load_block_transition_wf:
  assumes "wf_function fd" "nb_blocks fd \<noteq> 0"
  shows "yields (\<lambda>(e, ptr, fd', al'). wf_function fd' \<and> nb_blocks fd' = nb_blocks fd \<and>
      alloc_later al al' \<and> (e = 0 \<or> e \<in> {7, 9, 10}))
    (load_block_transition msg ptr (fd, al))"
proof -
  let ?n = "nb_blocks fd" and ?g = "control_flow_graph fd"
  have rows: "wf_rows ?n ?g" using assms by (simp add: wf_function_def)
  have "wf_function (fd\<lparr>control_flow_graph := cfg\<rparr>)"
    if id: "\<not> ?n \<le> b_id" and old: "arr_get ?g (unat b_id) = Some old"
      and r: "(if old = None then calloc_array ?n 0 al else (old, al)) = (Some xs, al1)"
      and row: "mark_successors msg n c ?n (Some xs) = Some (ok, row)"
      and cfg: "arr_set ?g (unat b_id) row = Some cfg" for b_id old xs al1 n c ok row cfg
  proof -
    have "length xs = unat ?n"
      using wf_rows_nth [OF rows, of "unat b_id"] id old r
      by (auto simp: word_le_nat_alt split: if_splits dest: calloc_Some)
    then have "wf_rows ?n cfg" by (rule mark_update_wf [OF row cfg rows])
    then show ?thesis using assms by (simp add: wf_function_def split: option.splits)
  qed
  then show ?thesis
    unfolding load_block_transition_def
    by (intro vc) (use assms in \<open>auto simp del: arr_set_simps dest: calloc_later split: if_split_asm\<close>)
qed

lemma load_block_ipd_wf:
  assumes "wf_module md"
  shows "yields (\<lambda>(e, ptr, md'). wf_module md' \<and> nb_functions md' = nb_functions md \<and> (e = 0 \<or> e \<in> {2, 4, 5}))
    (load_block_ipd ipd ptr md)"
proof -
  have "wf_module (md\<lparr>md_functions := fds\<rparr>)" if id: "\<not> nb_functions md \<le> f_id"
    and fd: "arr_get (md_functions md) (unat f_id) = Some fd"
    and ip: "immediate_post_dominator fd = Some ips" and ds: "arr_set (Some ips) (unat b_id) ib = Some ds"
    and fds: "arr_set (md_functions md) (unat f_id) (fd\<lparr>immediate_post_dominator := ds\<rparr>) = Some fds"
    for f_id b_id ib fd ips ds fds
  proof -
    have "wf_function fd" using assms fd id by (intro wf_module_function [of md f_id]) auto
    then have "wf_function (fd\<lparr>immediate_post_dominator := ds\<rparr>)"
      using ds ip by (auto simp: wf_function_def dest!: arr_set_SomeD split: if_splits)
    then show ?thesis by (rule wf_module_functions [OF assms fds])
  qed
  then show ?thesis
    unfolding load_block_ipd_def
    by (intro vc) (use assms in \<open>auto simp del: arr_set_simps arr_get_simps\<close>)
qed

section \<open>The contract of a section\<close>

text \<open>
  Every section keeps the tables well formed, except when one of the arrays whose length a
  counter already announces could not be allocated (\<open>oom\<close>).
\<close>

definition section_post :: "u32 set \<Rightarrow> alloc \<Rightarrow> u32 \<times> module_data \<times> alloc \<Rightarrow> bool" where
  "section_post oom al = (\<lambda>(e, md', al'). alloc_later al al' \<and> (e \<notin> oom \<longrightarrow> wf_module md') \<and>
     (e \<in> oom \<longrightarrow> Alloc_Fail \<in> range al))"

locale section_loader =
  fixes load :: "buffer \<Rightarrow> module_data \<Rightarrow> alloc \<Rightarrow> (u32 \<times> module_data \<times> alloc) option"
    and oom :: "u32 set"
  assumes section_law: "wf_module md \<Longrightarrow> yields (section_post oom al) (load buf md al)"
    and oom_error: "0 \<notin> oom"
begin

lemma later: "wf_module md \<Longrightarrow> load buf md al = Some (e, md', al') \<Longrightarrow> alloc_later al al'"
  using yieldsD [OF section_law] by (fastforce simp: section_post_def)

lemma success_wf: "wf_module md \<Longrightarrow> load buf md al = Some (0, md', al') \<Longrightarrow> wf_module md'"
  using yieldsD [OF section_law] oom_error by (fastforce simp: section_post_def)

lemma no_oom_wf:
  assumes "wf_module md" "load buf md al = Some (e, md', al')" "Alloc_Fail \<notin> range al"
  shows "wf_module md'"
  using yieldsD [OF section_law [OF assms(1)] assms(2)] assms(3) by (auto simp: section_post_def)

end

lemma entries_module:
  assumes entry: "\<And>ptr md al. wf_module md \<Longrightarrow> yields (keeps_module E md al) (entry ptr (md, al))"
    and run: "entries entry n ptr (md, al) = Some (e, md', al')" and wf: "wf_module md"
  shows "wf_module md' \<and> alloc_later al al' \<and> (e = 0 \<or> e \<in> E)"
proof -
  let ?P = "\<lambda>(md, a). wf_module md \<and> alloc_later al a"
  have "?P s' \<and> (e = 0 \<or> e \<in> E)" if P: "?P s" and s': "entry ptr s = Some (e, ptr', s')" for ptr s e ptr' s'
  proof -
    obtain md1 a1 md2 a2 where s: "s = (md1, a1)" "s' = (md2, a2)" by (cases s; cases s')
    with P s' have "keeps_module E md1 a1 (e, ptr', md2, a2)" by (intro yieldsD [OF entry]) simp_all
    then show ?thesis using P s alloc_later_trans [of al a1 a2]
      by (simp add: keeps_module_def)
  qed
  from entries_inv [of ?P, OF this run] wf show ?thesis by simp
qed

lemma calloc_later_trans: "calloc_array n z al1 = (r, al2) \<Longrightarrow> alloc_later al al1 \<Longrightarrow> alloc_later al al2"
  by (erule alloc_later_trans, erule calloc_later)

lemma calloc_fails_later: "calloc_array n z al1 = (None, al2) \<Longrightarrow> alloc_later al al1 \<Longrightarrow> Alloc_Fail \<in> range al"
  by (erule alloc_later_member, erule calloc_fails)

lemma function_id_section:
  assumes wf: "wf_module md"
  shows "yields (section_post {2} al) (load_section_function_id fct md al)"
    (is "yields ?Q _")
proof -
  let ?md = "\<lambda>n cg rs fs. md\<lparr>nb_functions := n, call_graph := cg, relocations := rs, md_functions := fs\<rparr>"
  have "yields ?Q (entries (load_function_id fct) k p (?md n (Some cg) (Some rs) (Some fs), al3))"
    if al: "calloc_array n None al = (Some cg, al1)" "calloc_array n 0 al1 = (Some rs, al2)"
      "calloc_array n empty_function al2 = (Some fs, al3)"
    for n cg rs fs al1 al2 al3 k p
  proof -
    have wf: "wf_module (?md n (Some cg) (Some rs) (Some fs))"
      using al by (auto simp: wf_module_def calloc_array_def wf_rows_def wf_function_def empty_function_def
          split: if_splits)
    have later: "alloc_later al al3"
      by (rule calloc_later_trans [OF al(3) calloc_later_trans [OF al(2) calloc_later [OF al(1)]]])
    have "?Q (e, md', al')"
      if "entries (load_function_id fct) k p (?md n (Some cg) (Some rs) (Some fs), al3) = Some (e, md', al')"
      for e md' al'
      using entries_module [OF load_function_id_wf that wf] alloc_later_trans [OF later, of al']
      by (simp add: section_post_def split: if_splits) (elim conjE disjE; simp)
    then show ?thesis by (auto simp: yields_def)
  qed
  moreover have "alloc_later al al3" "Alloc_Fail \<in> range al"
    if "calloc_array n None al = (r1, al1)" "calloc_array n 0 al1 = (r2, al2)"
      "calloc_array n empty_function al2 = (None, al3)" for n r1 al1 r2 al2 al3
    using calloc_later_trans [OF that(3) calloc_later_trans [OF that(2) calloc_later [OF that(1)]]]
      calloc_fails_later [OF that(3) calloc_later_trans [OF that(2) calloc_later [OF that(1)]]] by simp_all
  ultimately show ?thesis
    unfolding load_section_function_id_def
    by (intro vc; (simp add: wf section_post_def)?) (auto simp: section_post_def intro: calloc_later_trans calloc_fails_later calloc_later calloc_fails)
qed

lemma function_transition_section:
  assumes wf: "wf_module md"
  shows "yields (section_post {} al) (load_section_function_transition msg md al)"
proof -
  have "alloc_later al al' \<and> wf_module md'"
    if "entries (load_function_transition msg) n p (md, al) = Some (e, md', al')" for n p e md' al'
    using entries_module [OF load_function_transition_wf that wf] by auto
  then show ?thesis
    unfolding load_section_function_transition_def
    by (intro vc) (auto simp: wf yields_def section_post_def)
qed

text \<open>Filling the graph of one function.\<close>

lemma entries_blocks:
  assumes run: "entries (load_block_transition msg) n ptr (fd, al) = Some (e, fd', al')"
    and wf: "wf_function fd" "nb_blocks fd \<noteq> 0"
  shows "wf_function fd' \<and> alloc_later al al' \<and> e \<noteq> 6"
proof -
  let ?P = "\<lambda>(fd, a). wf_function fd \<and> nb_blocks fd \<noteq> 0 \<and> alloc_later al a"
  have step: "?P s' \<and> (e = 0 \<or> e \<in> {7, 9, 10})" if P: "?P s" and s': "load_block_transition msg ptr s = Some (e, ptr', s')"
    for ptr s e ptr' s'
  proof -
    obtain fd1 a1 fd2 a2 where s: "s = (fd1, a1)" "s' = (fd2, a2)" by (cases s; cases s')
    then show ?thesis
      using P s' yieldsD [OF load_block_transition_wf, of fd1 msg ptr a1] alloc_later_trans [of al a1 a2] by auto
  qed
  have "?P (fd', al') \<and> (e = 0 \<or> e \<in> {7, 9, 10})"
    by (rule entries_inv [of ?P, OF step run]) (use wf in simp_all)
  then show ?thesis by auto
qed

lemma load_function_blocks_wf:
  assumes n: "n \<noteq> 0"
  shows "yields (\<lambda>(e, fd', al'). alloc_later al al' \<and> (e \<noteq> 6 \<longrightarrow> wf_function fd') \<and>
      (e = 6 \<longrightarrow> Alloc_Fail \<in> range al)) (load_function_blocks msg n fd al)"
    (is "yields ?R _")
proof -
  let ?fd = "\<lambda>cfg ipd. fd\<lparr>nb_blocks := n, control_flow_graph := cfg, immediate_post_dominator := ipd\<rparr>"
  have "yields ?R (entries (load_block_transition msg) k p (?fd (Some cfg) (Some ipd), al2))"
    if al: "calloc_array n None al = (Some cfg, al1)" "calloc_array n 0 al1 = (Some ipd, al2)"
    for cfg ipd al1 al2 k p
  proof -
    have wf: "wf_function (?fd (Some cfg) (Some ipd))"
      using al n calloc_Some [OF al(2)] by (auto simp: wf_function_def calloc_array_def split: if_splits)
    have later: "alloc_later al al2" by (rule calloc_later_trans [OF al(2) calloc_later [OF al(1)]])
    have "?R (e, fd', al')"
      if "entries (load_block_transition msg) k p (?fd (Some cfg) (Some ipd), al2) = Some (e, fd', al')"
      for e fd' al'
      using entries_blocks [OF that wf] n alloc_later_trans [OF later, of al'] by simp
    then show ?thesis by (auto simp: yields_def)
  qed
  then show ?thesis
    unfolding load_function_blocks_def
    by (intro vc) (auto intro: calloc_later_trans calloc_fails_later calloc_later calloc_fails)
qed

lemma block_transition_section:
  assumes wf: "wf_module md"
  shows "yields (section_post {6} al) (load_section_block_transition msg md al)"
  unfolding load_section_block_transition_def
  by (intro vc) (use wf in \<open>auto simp: section_post_def simp del: arr_set_simps
      intro: wf_module_functions [OF wf] dest!: yieldsD [OF load_function_blocks_wf]\<close>)

lemma block_ipd_section:
  assumes wf: "wf_module md"
  shows "yields (section_post {} al) (load_section_block_ipd ipd md al)"
proof -
  have "wf_module md'" if "entries (load_block_ipd ipd) n p md = Some (e, md')" for n p e md'
    using entries_inv [of wf_module "load_block_ipd ipd" "{2, 4, 5}", OF _ that wf]
      yieldsD [OF load_block_ipd_wf] by fastforce
  then show ?thesis
    unfolding load_section_block_ipd_def by (intro vc) (auto simp: wf section_post_def)
qed

interpretation function_id_loader: section_loader load_section_function_id "{2}"
  by unfold_locales (simp_all add: function_id_section)

interpretation function_transition_loader: section_loader load_section_function_transition "{}"
  by unfold_locales (simp_all add: function_transition_section)

interpretation block_transition_loader: section_loader load_section_block_transition "{6}"
  by unfold_locales (simp_all add: block_transition_section)

interpretation block_ipd_loader: section_loader load_section_block_ipd "{}"
  by unfold_locales (simp_all add: block_ipd_section)

end
