(* ===== verification/Monitor_Modules.thy ===== *)
theory Monitor_Modules
  imports Monitor_Load
begin

text \<open>
  The rest of \<open>monitor/src/monitor_load.c\<close>: the packets of one module, the resolution of
  external functions, the loading of all modules with the runs of their initialisers, and the
  release of the tables.
\<close>

section \<open>Packets\<close>

text \<open>The allocator is asked only when a packet announces a body.\<close>

definition read_loading_packet :: "world \<Rightarrow> loading_packet \<Rightarrow> u32 \<Rightarrow> world \<times> loading_packet \<times> u32" where
  "read_loading_packet w dst err =
     (let (p, pkt, e) = READ_LOADING_PACKET (w_alloc w 0 \<noteq> Alloc_Fail) (loading_to_monitor w) dst err;
          asked = (lp_value pkt \<noteq> Buf_NULL \<or> e = 3)
      in (w\<lparr>loading_to_monitor := p, w_alloc := (if asked then alloc_rest (w_alloc w) else w_alloc w)\<rparr>, pkt, e))"

definition write_module_id :: "world \<Rightarrow> module_id \<Rightarrow> u32 \<Rightarrow> world \<times> u32" where
  "write_module_id w mid err =
     (let (p, e) = WRITE_MONITOR_TO_LOADING_PACKET (w_write w 0) mid (monitor_to_loading w) err
      in (w\<lparr>monitor_to_loading := p, w_write := (\<lambda>n. w_write w (Suc n))\<rparr>, e))"

definition pkt_buffer :: "loading_packet \<Rightarrow> buffer" where
  "pkt_buffer pkt = (case lp_value pkt of Buf_Live bs \<Rightarrow> Some bs | _ \<Rightarrow> None)"

text \<open>The optional dump of a complete module, in print order.\<close>

fun dump_functions :: "module_data \<Rightarrow> nat \<Rightarrow> nat \<Rightarrow> dot_line list option" where
  "dump_functions md i 0 = Some []"
| "dump_functions md i (Suc n) = do {
     fd \<leftarrow> arr_get (md_functions md) i;
     ls \<leftarrow> monitor_control_flow_graph fd;
     rest \<leftarrow> dump_functions md (Suc i) n;
     Some (ls @ rest)
   }"

definition dump_module :: "module_data \<Rightarrow> dot_line list option" where
  "dump_module md = do {
     ls \<leftarrow> monitor_call_graph md;
     rest \<leftarrow> dump_functions md 0 (unat (nb_functions md));
     Some (ls @ rest)
   }"

text \<open>One packet of a module. What a dump prints is not kept.\<close>

definition load_packet ::
    "options \<Rightarrow> loading_packet \<Rightarrow> module_data \<Rightarrow> alloc \<Rightarrow> (u32 \<times> module_data \<times> alloc) option" where
  "load_packet opts pkt md al =
     (case loading_event_of (lp_event pkt) of
        Some CFI_LOADING_SECTION_FUNCTION_ID \<Rightarrow> load_section_function_id (pkt_buffer pkt) md al
      | Some CFI_LOADING_SECTION_FUNCTION_TRANSITION \<Rightarrow>
          load_section_function_transition (pkt_buffer pkt) md al
      | Some CFI_LOADING_SECTION_BLOCK_TRANSITION \<Rightarrow> load_section_block_transition (pkt_buffer pkt) md al
      | Some CFI_LOADING_SECTION_BLOCK_IPD \<Rightarrow> load_section_block_ipd (pkt_buffer pkt) md al
      | Some CFI_LOADING_MODULE_END \<Rightarrow>
          if OPTION_sm_dump opts then do { _ \<leftarrow> dump_module md; Some (0, md, al) } else Some (0, md, al)
      | _ \<Rightarrow> Some (5, md, al))"

definition receive_section ::
    "options \<Rightarrow> nat \<Rightarrow> loading_packet \<Rightarrow> monitor_data \<Rightarrow> world \<Rightarrow> (u32 \<times> monitor_data \<times> world) option" where
  "receive_section opts idx pkt mon w = do {
     md \<leftarrow> arr_get (modules mon) idx;
     (e, md, al) \<leftarrow> load_packet opts pkt md (w_alloc w);
     ms \<leftarrow> arr_set (modules mon) idx md;
     Some (e, mon\<lparr>modules := ms\<rparr>, w\<lparr>w_alloc := al\<rparr>)
   }"

lemma read_loading_shorter:
  assumes "read_loading_packet w pkt 0 = (w', pkt', 0)"
  shows "length (loading_to_monitor w') < length (loading_to_monitor w)"
  using assms
  by (cases "loading_to_monitor w")
    (auto simp: read_loading_packet_def READ_LOADING_PACKET_def pipe_read_def Let_def
       split: list.splits if_splits prod.splits)

function load_packets ::
    "options \<Rightarrow> nat \<Rightarrow> loading_packet \<Rightarrow> monitor_data \<Rightarrow> world \<Rightarrow>
     (u32 \<times> loading_packet \<times> monitor_data \<times> world) option" where
  "load_packets opts idx pkt mon w =
     (if lp_event pkt = loading_event_code CFI_LOADING_MODULE_END then Some (0, pkt, mon, w)
      else (case FREE_LOADING_PACKET pkt of None \<Rightarrow> None
      | Some pkt \<Rightarrow>
        let (w, pkt, e) = read_loading_packet w pkt 0 in
        if e \<noteq> 0 then Some (4, pkt, mon, w)
        else (case receive_section opts idx pkt mon w of None \<Rightarrow> None
          | Some (e, mon, w) \<Rightarrow>
              if e \<noteq> 0 then Some (e, pkt, mon, w) else load_packets opts idx pkt mon w)))"
  by pat_completeness auto
termination
  by (relation "measure (\<lambda>(opts, idx, pkt, mon, w). length (loading_to_monitor w))")
    (auto simp: receive_section_def bind_eq_Some_conv dest: read_loading_shorter [OF sym])

declare load_packets.simps [simp del]

section \<open>One module\<close>

text \<open>
  \<open>CFI_LOADING_MODULE_BEGIN\<close>: the array of modules grows by one, whose fields are all
  initialised, and its number, cut to 16 bits, is sent back.
\<close>

definition add_module :: "monitor_data \<Rightarrow> world \<Rightarrow> (u32 \<times> monitor_data \<times> world) option" where
  "add_module mon w =
     (let (nb, old) = (if nb_modules mon \<noteq> 0
                       then (nb_modules mon + 1, case modules mon of None \<Rightarrow> [] | Some ms \<Rightarrow> ms)
                       else (1, []));
          (r, w) = next_alloc w;
          mods = (if r = Alloc_Fail then None
                  else Some (take (unat nb) old @ replicate (unat nb - length old) empty_module));
          mon = mon\<lparr>nb_modules := nb, modules := mods\<rparr>
      in if mods = None then Some (10, mon, w)
         else do {
           ms \<leftarrow> arr_set mods (unat (nb - 1)) empty_module;
           let mon = mon\<lparr>modules := ms\<rparr>;
           let (w, e) = write_module_id w (ucast (nb - 1)) 0;
           Some (e, mon, w)
         })"

text \<open>The first packet decides: \<open>(err, terminated, \<dots>)\<close>.\<close>

definition begin_module ::
    "loading_packet \<Rightarrow> monitor_data \<Rightarrow> world \<Rightarrow> (u32 \<times> bool \<times> monitor_data \<times> world) option" where
  "begin_module pkt mon w =
     (case loading_event_of (lp_event pkt) of
        Some CFI_LOADING_MODULE_BEGIN \<Rightarrow>
          do { (e, mon, w) \<leftarrow> add_module mon w; Some (e, False, mon, w) }
      | Some CFI_LOADING_TERMINATED \<Rightarrow> Some (0, True, mon, w)
      | _ \<Rightarrow> Some (5, False, mon, w))"

definition monitor_load_module ::
    "options \<Rightarrow> loading_packet \<Rightarrow> monitor_data \<Rightarrow> world \<Rightarrow> (u32 \<times> monitor_data \<times> world) option" where
  "monitor_load_module opts garbage mon w = do {
     let (w, pkt, err) = read_loading_packet w (garbage\<lparr>lp_size := 0, lp_value := Buf_NULL\<rparr>) 0;
     (err, terminated, mon, w) \<leftarrow>
       (if err \<noteq> 0 then Some (err, False, mon, w) else begin_module pkt mon w);
     (err, pkt, mon, w) \<leftarrow>
       (if err = 0 \<and> \<not> terminated then load_packets opts (unat (nb_modules mon - 1)) pkt mon w
        else Some (err, pkt, mon, w));
     _ \<leftarrow> FREE_LOADING_PACKET pkt;
     Some (if terminated then 1 else if err \<noteq> 0 then -1 else 0, mon, w)
   }"

section \<open>External functions\<close>

text \<open>\<open>strcmp\<close> of two names, undefined when one of them was never allocated.\<close>

definition same_name :: "function_data \<Rightarrow> function_data \<Rightarrow> bool option" where
  "same_name f g = do { a \<leftarrow> fd_name f; b \<leftarrow> fd_name g; Some (a = b) }"

fun find_local :: "function_data \<Rightarrow> module_data \<Rightarrow> nat \<Rightarrow> nat \<Rightarrow> nat option option" where
  "find_local fj mk l 0 = Some None"
| "find_local fj mk l (Suc n) = do {
     fl \<leftarrow> arr_get (md_functions mk) l;
     found \<leftarrow> (if FUNCTION_IS_EXTERNAL fl then Some False else same_name fj fl);
     if found then Some (Some l) else find_local fj mk (Suc l) n
   }"

text \<open>The modules are searched from the last one down, the module itself excepted.\<close>

fun find_module :: "monitor_data \<Rightarrow> module_id \<Rightarrow> function_data \<Rightarrow> nat \<Rightarrow> (nat \<times> nat) option option" where
  "find_module data mid fj 0 = Some None"
| "find_module data mid fj (Suc k) = do {
     mk \<leftarrow> arr_get (modules data) k;
     r \<leftarrow> (if unat mid \<noteq> k then find_local fj mk 0 (unat (nb_functions mk)) else Some None);
     (case r of Some l \<Rightarrow> Some (Some (k, l)) | None \<Rightarrow> find_module data mid fj k)
   }"

definition resolve :: "monitor_data \<Rightarrow> module_id \<Rightarrow> function_data \<Rightarrow> (nat \<times> nat) option option" where
  "resolve data mid fj = find_module data mid fj (nat (sint (nb_modules data - 1) + 1))"

definition set_relocation :: "monitor_data \<Rightarrow> module_id \<Rightarrow> nat \<Rightarrow> nat \<times> nat \<Rightarrow> monitor_data option" where
  "set_relocation data mid j = (\<lambda>(k, l). do {
     md \<leftarrow> arr_get (modules data) (unat mid);
     rs \<leftarrow> arr_set (relocations md) j (MODULE_FUNCTION (of_nat k) (of_nat l));
     ms \<leftarrow> arr_set (modules data) (unat mid) (md\<lparr>relocations := rs\<rparr>);
     Some (data\<lparr>modules := ms\<rparr>)
   })"

fun relocate :: "module_id \<Rightarrow> bool \<Rightarrow> nat \<Rightarrow> nat \<Rightarrow> monitor_data \<Rightarrow> (u32 \<times> monitor_data) option" where
  "relocate mid fatal j 0 data = Some (0, data)"
| "relocate mid fatal j (Suc n) data = do {
     md \<leftarrow> arr_get (modules data) (unat mid);
     fj \<leftarrow> arr_get (md_functions md) j;
     if FUNCTION_IS_EXTERNAL fj
     then do {
       r \<leftarrow> resolve data mid fj;
       (case r of
          Some kl \<Rightarrow> do {
            data \<leftarrow> set_relocation data mid j kl;
            relocate mid fatal (Suc j) n data
          }
        | None \<Rightarrow> if fatal then Some (1, data) else relocate mid fatal (Suc j) n data)
     }
     else relocate mid fatal (Suc j) n data
   }"

definition compute_relocations_of_module ::
    "monitor_data \<Rightarrow> module_id \<Rightarrow> bool \<Rightarrow> (u32 \<times> monitor_data) option" where
  "compute_relocations_of_module data mid fatal = do {
     md \<leftarrow> arr_get (modules data) (unat mid);
     relocate mid fatal 0 (unat (nb_functions md)) data
   }"

section \<open>All modules\<close>

text \<open>The initialisers of a module are monitored as soon as it is loaded.\<close>

fun run_inits :: "options \<Rightarrow> client_signal \<Rightarrow> monitor_data \<Rightarrow> nat \<Rightarrow> world \<Rightarrow> (u32 \<times> world) option" where
  "run_inits opts g data 0 w = Some (0, w)"
| "run_inits opts g data (Suc n) w = do {
     (e, w) \<leftarrow> monitor_run opts g data w;
     if e \<noteq> 0 then Some (e, w) else run_inits opts g data n w
   }"

definition load_and_init ::
    "options \<Rightarrow> client_signal \<Rightarrow> loading_packet \<Rightarrow> monitor_data \<Rightarrow> world \<Rightarrow>
     (u32 \<times> bool \<times> monitor_data \<times> world) option" where
  "load_and_init opts g gp data w = do {
     (err, data, w) \<leftarrow> monitor_load_module opts gp data w;
     if 0 < sint err then Some (0, True, data, w)
     else if err \<noteq> 0 then Some (err, False, data, w)
     else do {
       (err, data) \<leftarrow> compute_relocations_of_module data (ucast (nb_modules data - 1)) False;
       if err \<noteq> 0 then Some (err, False, data, w)
       else do {
         md \<leftarrow> arr_get (modules data) (unat (nb_modules data - 1));
         (err, w) \<leftarrow> run_inits opts g data (unat (nb_entrypoint_inits md)) w;
         Some (err, False, data, w)
       }
     }
   }"

text \<open>The loading pipe is only read while a module loads, and each module takes from it.\<close>

lemma answer_loading: "write_monitor_answer w e = (w', e') \<Longrightarrow> loading_to_monitor w' = loading_to_monitor w"
  by (auto simp: write_monitor_answer_def split: prod.splits)

lemma timeout_loading: "MONITOR_SIGNAL_TIMEOUT opts w e = (w', e') \<Longrightarrow> loading_to_monitor w' = loading_to_monitor w"
  by (auto simp: MONITOR_SIGNAL_TIMEOUT_def split: if_splits)

lemma wait_loading: "answer_and_wait opts s w = (s', w') \<Longrightarrow> loading_to_monitor w' = loading_to_monitor w"
  by (auto simp: answer_and_wait_def dest!: answer_loading timeout_loading split: prod.splits)

lemma read_signal_loading: "read_signal s w = (s', w') \<Longrightarrow> loading_to_monitor w' = loading_to_monitor w"
  by (auto simp: read_signal_def read_client_signal_def split: prod.splits)

lemma run_loop_loading:
  "run_loop opts data s w = Some (s', w') \<Longrightarrow> loading_to_monitor w' = loading_to_monitor w"
proof (induction opts data s w rule: run_loop.induct)
  case (1 opts data s w)
  obtain j s1 al where h: "handle_signal opts data s (w_alloc w) = Some (j, s1, al)"
    using "1.prems" by (auto simp: run_loop.simps split: option.splits)
  let ?w = "w\<lparr>w_alloc := al\<rparr>"
  show ?case
  proof (cases j)
    case Break
    obtain s2 w2 where a: "answer_and_wait opts s1 ?w = (s2, w2)" by fastforce
    obtain s3 w3 where r: "read_signal s2 w2 = (s3, w3)" by fastforce
    show ?thesis
    proof (cases "error s2 = 0")
      case True
      then have "run_loop opts data s3 w3 = Some (s', w')"
        using "1.prems" h Break a r by (simp add: run_loop.simps [of opts data s w])
      then have "loading_to_monitor w' = loading_to_monitor w3"
        using "1.IH" h Break a r True by simp
      then show ?thesis using read_signal_loading [OF r] wait_loading [OF a] by simp
    next
      case False
      then show ?thesis
        using "1.prems" h Break a wait_loading [OF a] by (simp add: run_loop.simps [of opts data s w])
    qed
  next
    case Goto_exit
    with "1.prems" h show ?thesis by (auto simp: run_loop.simps [of opts data s w])
  next
    case Answer_and_exit
    with "1.prems" h show ?thesis
      by (auto simp: run_loop.simps [of opts data s w] dest: answer_loading split: prod.splits)
  qed
qed

lemma exit_loading: "monitor_run_exit opts s w = Some (e, w') \<Longrightarrow> loading_to_monitor w' = loading_to_monitor w"
  by (auto simp: monitor_run_exit_def bind_eq_Some_conv)

lemma monitor_run_loading:
  assumes "monitor_run opts g data w = Some (e, w')"
  shows "loading_to_monitor w' = loading_to_monitor w"
proof -
  have "yields (\<lambda>(e, w'). loading_to_monitor w' = loading_to_monitor w) (monitor_run opts g data w)"
    unfolding monitor_run_def
    by (intro vc) (auto simp: yields_def dest!: exit_loading timeout_loading read_signal_loading run_loop_loading)
  from yieldsD [OF this assms] show ?thesis by simp
qed

lemma run_inits_loading:
  "run_inits opts g data n w = Some (e, w') \<Longrightarrow> loading_to_monitor w' = loading_to_monitor w"
  by (induction n arbitrary: w) (auto simp: bind_eq_Some_conv dest: monitor_run_loading split: if_splits)

lemma read_loading_le:
  assumes "read_loading_packet w pkt e = (w', pkt', e')"
  shows "length (loading_to_monitor w') \<le> length (loading_to_monitor w)"
proof -
  have "length (snd (pipe_read n p)) \<le> length p" for n p
    by (simp add: pipe_read_def split: list.splits)
  then have "length p2 \<le> length p" if "pipe_read n p = (bs, p2)" for n p bs p2
    using that by (metis snd_conv)
  then show ?thesis
    using assms
    by (auto simp: read_loading_packet_def READ_LOADING_PACKET_def Let_def split: prod.splits if_splits)
      (meson le_trans)+
qed

text \<open>What holds at the head of the packet loop, and what when it ends.\<close>

lemma load_packets_rule:
  assumes "load_packets opts idx pkt mon w = Some (e, pkt', mon', w')" "I pkt mon w"
    and fin: "\<And>pkt mon w. I pkt mon w \<Longrightarrow> Q 0 pkt mon w"
    and err: "\<And>pkt mon w pkt1 w2 pkt2 e2. I pkt mon w \<Longrightarrow> FREE_LOADING_PACKET pkt = Some pkt1 \<Longrightarrow>
      read_loading_packet w pkt1 0 = (w2, pkt2, e2) \<Longrightarrow> e2 \<noteq> 0 \<Longrightarrow> Q 4 pkt2 mon w2"
    and sec: "\<And>pkt mon w pkt1 w2 pkt2 e3 mon3 w3. I pkt mon w \<Longrightarrow> FREE_LOADING_PACKET pkt = Some pkt1 \<Longrightarrow>
      read_loading_packet w pkt1 0 = (w2, pkt2, 0) \<Longrightarrow> receive_section opts idx pkt2 mon w2 = Some (e3, mon3, w3) \<Longrightarrow>
      (if e3 = 0 then I pkt2 mon3 w3 else Q e3 pkt2 mon3 w3)"
  shows "Q e pkt' mon' w'"
  using assms(1,2)
proof (induction "length (loading_to_monitor w)" arbitrary: pkt mon w rule: less_induct)
  case less
  note unfold = load_packets.simps [of opts idx pkt]
  show ?case
  proof (cases "lp_event pkt = loading_event_code CFI_LOADING_MODULE_END")
    case True
    with less.prems fin [OF less.prems(2)] show ?thesis by (simp add: unfold)
  next
    case False
    then obtain pkt1 where free: "FREE_LOADING_PACKET pkt = Some pkt1"
      using less.prems by (auto simp: unfold split: option.splits)
    obtain w2 pkt2 e2 where read: "read_loading_packet w pkt1 0 = (w2, pkt2, e2)" by (metis prod_cases3)
    show ?thesis
    proof (cases "e2 = 0")
      case True
      then obtain e3 mon3 w3 where rcv: "receive_section opts idx pkt2 mon w2 = Some (e3, mon3, w3)"
        using less.prems False free read by (auto simp: unfold split: option.splits)
      from less.prems(1) have rest: "if e3 = 0 then load_packets opts idx pkt2 mon3 w3 = Some (e, pkt', mon', w')
          else e = e3 \<and> pkt' = pkt2 \<and> mon' = mon3 \<and> w' = w3"
        using False free read True rcv by (auto simp: unfold split: if_splits)
      have step: "if e3 = 0 then I pkt2 mon3 w3 else Q e3 pkt2 mon3 w3"
        using sec [OF less.prems(2) free _ rcv] read True by simp
      have "loading_to_monitor w3 = loading_to_monitor w2"
        using rcv by (auto simp: receive_section_def bind_eq_Some_conv)
      then have "length (loading_to_monitor w3) < length (loading_to_monitor w)"
        using read_loading_shorter [of w pkt1 w2 pkt2] read True by simp
      then show ?thesis
        using less.hyps [of w3 pkt2 mon3] rest step by (cases "e3 = 0") simp_all
    qed (use less.prems False free read err [OF less.prems(2) free read] in \<open>auto simp: unfold\<close>)
  qed
qed

lemma load_packets_loading:
  assumes "load_packets opts idx pkt mon w = Some (e, pkt', mon', w')"
  shows "length (loading_to_monitor w') \<le> length (loading_to_monitor w)"
proof -
  have "length (loading_to_monitor v3) = length (loading_to_monitor v2)"
    if "receive_section opts idx pkt2 mon v2 = Some (e3, mon3, v3)" for pkt2 mon v2 e3 mon3 v3
    using that by (auto simp: receive_section_def bind_eq_Some_conv)
  then show ?thesis
    by (intro load_packets_rule [OF assms, of "\<lambda>_ _ v. length (loading_to_monitor v) \<le> length (loading_to_monitor w)"
        "\<lambda>_ _ _ v. length (loading_to_monitor v) \<le> length (loading_to_monitor w)"])
      (auto dest!: read_loading_le)
qed

lemma add_module_loading: "add_module mon w = Some (e, mon', w') \<Longrightarrow> loading_to_monitor w' = loading_to_monitor w"
  by (auto simp: add_module_def next_alloc_def write_module_id_def bind_eq_Some_conv Let_def
      split: prod.splits if_splits)

lemma begin_module_loading:
  "begin_module pkt mon w = Some (e, t, mon', w') \<Longrightarrow> loading_to_monitor w' = loading_to_monitor w"
  by (auto simp: begin_module_def bind_eq_Some_conv dest: add_module_loading
      split: option.splits loading_event.splits)

lemma monitor_load_module_shorter:
  assumes "monitor_load_module opts gp mon w = Some (0, mon', w')"
  shows "length (loading_to_monitor w') < length (loading_to_monitor w)"
proof -
  obtain w1 pkt1 e1 where r: "read_loading_packet w (gp\<lparr>lp_size := 0, lp_value := Buf_NULL\<rparr>) 0 = (w1, pkt1, e1)"
    by (metis prod_cases3)
  have "yields (\<lambda>(e, mon', w'). e = 0 \<longrightarrow> e1 = 0 \<and> length (loading_to_monitor w') \<le> length (loading_to_monitor w1))
      (monitor_load_module opts gp mon w)"
    unfolding monitor_load_module_def r
    by (intro vc) (auto dest!: begin_module_loading load_packets_loading split: if_split_asm)
  from yieldsD [OF this assms] have "e1 = 0" "length (loading_to_monitor w') \<le> length (loading_to_monitor w1)"
    by simp_all
  then show ?thesis using read_loading_shorter r by fastforce
qed
lemma load_and_init_shorter:
  assumes "load_and_init opts g gp data w = Some (0, False, data', w')"
  shows "length (loading_to_monitor w') < length (loading_to_monitor w)"
proof -
  have "yields (\<lambda>(e, t, data', w'). e = 0 \<and> \<not> t \<longrightarrow> length (loading_to_monitor w') < length (loading_to_monitor w))
      (load_and_init opts g gp data w)"
    unfolding load_and_init_def
    by (intro vc) (auto dest!: monitor_load_module_shorter run_inits_loading)
  from yieldsD [OF this assms] show ?thesis by simp
qed

text \<open>The \<open>do\<close> loop over the modules, then the second pass over all of them.\<close>

function load_modules ::
    "options \<Rightarrow> client_signal \<Rightarrow> loading_packet \<Rightarrow> monitor_data \<Rightarrow> world \<Rightarrow>
     (u32 \<times> monitor_data \<times> world) option" where
  "load_modules opts g gp data w =
     (case load_and_init opts g gp data w of None \<Rightarrow> None
      | Some (err, terminated, data, w) \<Rightarrow>
          if \<not> terminated \<and> err = 0 then load_modules opts g gp data w else Some (err, data, w))"
  by pat_completeness auto
termination
  by (relation "measure (\<lambda>(opts, g, gp, data, w). length (loading_to_monitor w))")
    (auto dest: load_and_init_shorter)

declare load_modules.simps [simp del]

fun relocate_all :: "nat \<Rightarrow> nat \<Rightarrow> monitor_data \<Rightarrow> (u32 \<times> monitor_data) option" where
  "relocate_all i 0 data = Some (0, data)"
| "relocate_all i (Suc n) data = do {
     (err, data) \<leftarrow> compute_relocations_of_module data (of_nat i) True;
     if err \<noteq> 0 then Some (err, data) else relocate_all (Suc i) n data
   }"

definition monitor_load ::
    "options \<Rightarrow> client_signal \<Rightarrow> loading_packet \<Rightarrow> int \<Rightarrow> int \<Rightarrow> int \<Rightarrow> int \<Rightarrow> int \<Rightarrow> world \<Rightarrow>
     (u32 \<times> monitor_data \<times> world) option" where
  "monitor_load opts g gp pid fd_c2m fd_m2c fd_l2m fd_m2l w = do {
     let data = \<lparr>client_pid = pid, fd_client_to_monitor = fd_c2m, fd_monitor_to_client = fd_m2c,
       fd_loading_to_monitor = fd_l2m, fd_monitor_to_loading = fd_m2l, nb_modules = 0, modules = None\<rparr>;
     (err, data, w) \<leftarrow> load_modules opts g gp data w;
     if err \<noteq> 0 then Some (err, data, w)
     else do {
       (err, data) \<leftarrow> relocate_all 0 (unat (nb_modules data)) data;
       Some (err, data, w)
     }
   }"

section \<open>Release of the tables\<close>

text \<open>
  The release follows the counters, not the pointers: an array whose counter is not zero is
  followed even when its allocation failed.
\<close>

fun free_rows :: "nat \<Rightarrow> nat \<Rightarrow> byte list option list option \<Rightarrow> byte list option list option option" where
  "free_rows k 0 g = Some g"
| "free_rows k (Suc n) g = do {
     row \<leftarrow> arr_get g k;
     g \<leftarrow> (if row \<noteq> None then arr_set g k None else Some g);
     free_rows (Suc k) n g
   }"

definition free_function :: "function_data \<Rightarrow> function_data option" where
  "free_function fd = do {
     _ \<leftarrow> free_rows 0 (unat (nb_blocks fd)) (control_flow_graph fd);
     Some (fd\<lparr>fd_name := None, control_flow_graph := None, immediate_post_dominator := None, nb_blocks := 0\<rparr>)
   }"

fun free_functions :: "nat \<Rightarrow> nat \<Rightarrow> module_data \<Rightarrow> module_data option" where
  "free_functions j 0 md = Some md"
| "free_functions j (Suc n) md = do {
     fd \<leftarrow> arr_get (md_functions md) j;
     row \<leftarrow> arr_get (call_graph md) j;
     cg \<leftarrow> (if row \<noteq> None then arr_set (call_graph md) j None else Some (call_graph md));
     fd \<leftarrow> free_function fd;
     fds \<leftarrow> arr_set (md_functions md) j fd;
     free_functions (Suc j) n (md\<lparr>call_graph := cg, md_functions := fds\<rparr>)
   }"

definition free_module :: "module_data \<Rightarrow> module_data option" where
  "free_module md = do {
     md \<leftarrow> free_functions 0 (unat (nb_functions md)) md;
     Some (if nb_functions md \<noteq> 0
           then md\<lparr>md_functions := None, call_graph := None, relocations := None, nb_functions := 0\<rparr> else md)
   }"

fun free_modules :: "nat \<Rightarrow> nat \<Rightarrow> monitor_data \<Rightarrow> monitor_data option" where
  "free_modules i 0 data = Some data"
| "free_modules i (Suc n) data = do {
     md \<leftarrow> arr_get (modules data) i;
     md \<leftarrow> free_module md;
     ms \<leftarrow> arr_set (modules data) i md;
     free_modules (Suc i) n (data\<lparr>modules := ms\<rparr>)
   }"

definition monitor_data_free :: "monitor_data \<Rightarrow> monitor_data option" where
  "monitor_data_free data = do {
     data \<leftarrow> free_modules 0 (unat (nb_modules data)) data;
     Some (if nb_modules data \<noteq> 0 then data\<lparr>modules := None, nb_modules := 0\<rparr> else data)
   }"

end
