(* ===== verification/Prelink.thy ===== *)
theory Prelink
  imports Monitor_Modules "HOL-Library.List_Lexorder" "HOL-Library.Char_ord" "HOL-Library.Product_Lexorder"
begin

text \<open>
  The tables a protected module carries (\<open>prelink/picon-prelink\<close>): the packed sections the
  script generates from the compiler's tables, and the constructor that sends them. The loaders
  of \<open>monitor_load.c\<close> rebuild exactly those tables from them.

  A dictionary of the script is an association list with distinct keys, in the order the
  script iterates over it.
\<close>

section \<open>Packed sections\<close>

definition pack32s :: "u32 list \<Rightarrow> byte list" where
  "pack32s ws = concat (map le32 ws)"

definition flag_to_int :: "string \<Rightarrow> u32" where
  "flag_to_int s =
     (if s = ''External'' then 1 else if s = ''Init'' then 2 else if s = ''Fini'' then 3
      else if s = ''Main'' then 4 else 0)"

definition pack_fct :: "function_id \<times> byte list \<times> string \<Rightarrow> byte list" where
  "pack_fct = (\<lambda>(i, fname, flags). pack32s [i, flag_to_int flags] @ fname @ [0])"

text \<open>The entries of the dictionary of functions, sorted: by number, then by name and flags.\<close>

definition by_id :: "(byte list \<times> function_id \<times> string) list \<Rightarrow> (function_id \<times> byte list \<times> string) list" where
  "by_id fcts_init = sort (map (\<lambda>(fname, i, flags). (i, fname, flags)) fcts_init)"

definition gen_packed_fctids :: "(byte list \<times> function_id \<times> string) list \<Rightarrow> byte list" where
  "gen_packed_fctids fcts =
     (let fct_list = by_id fcts
      in le32 (of_nat (length fcts)) @ concat (map pack_fct fct_list))"

definition pack_row :: "u32 \<times> u32 list \<Rightarrow> byte list" where
  "pack_row = (\<lambda>(i, succs). pack32s [i, of_nat (length succs)] @ pack32s succs)"

definition gen_packed_callgraph :: "(function_id \<times> function_id list) list \<Rightarrow> byte list" where
  "gen_packed_callgraph callgraph = le32 (of_nat (length callgraph)) @ concat (map pack_row callgraph)"

definition gen_packed_bb :: "function_id \<Rightarrow> u32 \<Rightarrow> (block_id \<times> block_id list) list \<Rightarrow> byte list" where
  "gen_packed_bb fct_id num_blocks d =
     pack32s [fct_id, num_blocks, of_nat (length d)] @ concat (map pack_row d)"

definition pack_ipd :: "function_id \<times> block_id \<times> block_id \<times> block_id \<Rightarrow> byte list" where
  "pack_ipd = (\<lambda>(f, b, ipd, last). pack32s [f, b, ipd, last])"

definition gen_packed_bb_ipd :: "(function_id \<times> block_id \<times> block_id \<times> block_id) list \<Rightarrow> byte list" where
  "gen_packed_bb_ipd bb_ipd = le32 (of_nat (length bb_ipd)) @ concat (map pack_ipd bb_ipd)"

text \<open>A string literal that initialises a \<open>char\<close> array of unknown size adds its terminator.\<close>

definition c_array :: "byte list \<Rightarrow> byte list" where
  "c_array s = s @ [0]"

section \<open>Reading packed words\<close>

lemma length_pack32s [simp]: "length (pack32s ws) = 4 * length ws"
  by (induction ws) (simp_all add: pack32s_def)

lemma pack32s_simps [simp]: "pack32s [] = []" "pack32s (w # ws) = le32 w @ pack32s ws"
  by (simp_all add: pack32s_def)

lemma buf_get32_at:
  assumes "bs = pre @ le32 w @ post" "i = length pre"
  shows "buf_get32 (Some bs) i = Some w"
  by (simp add: buf_get32_def assms u32_codec.get_enc)

lemma c_string_at:
  assumes "bs = pre @ name @ 0 # post" "i = length pre" "0 \<notin> set name"
  shows "c_string (Some bs) i = Some name"
proof -
  have "takeWhile (\<lambda>b. b \<noteq> 0) (name @ 0 # post) = name"
    using assms(3) by (subst takeWhile_append2) auto
  then show ?thesis using assms(1,2) by (simp add: c_string_def)
qed

text \<open>A loop over packed entries runs a function over the list that was packed.\<close>

lemma entries_packed:
  assumes step: "\<And>x xs pre post s. I (x # xs) s \<Longrightarrow> bs = pre @ enc x @ post \<Longrightarrow>
      entry (length pre) s = Some (0, length pre + length (enc x), f x s) \<and> I xs (f x s)"
    and "bs = pre @ concat (map enc xs) @ post" "I xs s"
  shows "entries entry (length xs) (length pre) s = Some (0, fold f xs s) \<and> I [] (fold f xs s)"
  using assms(2,3)
proof (induction xs arbitrary: pre s)
  case (Cons x xs)
  have bs: "bs = pre @ enc x @ concat (map enc xs) @ post" "bs = (pre @ enc x) @ concat (map enc xs) @ post"
    using Cons.prems(1) by simp_all
  note 1 = step [OF Cons.prems(2) bs(1)]
  with Cons.IH [OF bs(2), of "f x s"] show ?case by simp
qed simp

section \<open>Functions\<close>

definition function_of :: "function_id \<times> byte list \<times> string \<Rightarrow> function_data" where
  "function_of = (\<lambda>(i, fname, flags). empty_function\<lparr>fd_name := Some fname, fd_flags := flag_to_int flags\<rparr>)"

definition put_function :: "function_id \<times> byte list \<times> string \<Rightarrow> module_data \<times> alloc \<Rightarrow> module_data \<times> alloc" where
  "put_function x = (\<lambda>(md, al).
     (count_entrypoint (function_of x)
        (md\<lparr>md_functions := map_option (\<lambda>fs. fs[unat (fst x) := function_of x]) (md_functions md)\<rparr>), alloc_rest al))"

definition fids_ok :: "u32 \<Rightarrow> (function_id \<times> byte list \<times> string) list \<Rightarrow> module_data \<times> alloc \<Rightarrow> bool" where
  "fids_ok n xs = (\<lambda>(md, al).
     Alloc_Fail \<notin> range al \<and> nb_functions md = n \<and>
     (\<exists>fs. md_functions md = Some fs \<and> length fs = unat n) \<and>
     (\<forall>(i, fname, flags) \<in> set xs. i < n \<and> 0 \<notin> set fname))"

lemma count_entrypoint_frame [simp]:
  "nb_functions (count_entrypoint fd md) = nb_functions md"
  "md_functions (count_entrypoint fd md) = md_functions md"
  "call_graph (count_entrypoint fd md) = call_graph md"
  "relocations (count_entrypoint fd md) = relocations md"
  by (simp_all add: count_entrypoint_def Let_def)

lemma no_fail_rest: "Alloc_Fail \<notin> range al \<Longrightarrow> Alloc_Fail \<notin> range (alloc_rest al)"
  using alloc_later_member [OF alloc_later_rest] by blast

lemma no_fail_head: "Alloc_Fail \<notin> range al \<Longrightarrow> al 0 \<noteq> Alloc_Fail"
  by (metis rangeI)

lemma load_function_id_packed:
  assumes "fids_ok n (x # xs) s" "bs = pre @ pack_fct x @ post"
  shows "load_function_id (Some bs) (length pre) s = Some (0, length pre + length (pack_fct x), put_function x s) \<and>
    fids_ok n xs (put_function x s)"
proof -
  obtain i fname flags md al where x: "x = (i, fname, flags)" "s = (md, al)" by (metis surj_pair)
  obtain fs where ok: "Alloc_Fail \<notin> range al" "nb_functions md = n" "md_functions md = Some fs" "length fs = unat n"
      "i < n" "0 \<notin> set fname" "\<forall>(i, fname, flags) \<in> set xs. i < n \<and> 0 \<notin> set fname"
    using assms(1) by (auto simp: fids_ok_def x)
  have body: "bs = pre @ le32 i @ le32 (flag_to_int flags) @ fname @ 0 # post"
    using assms(2) by (simp add: x pack_fct_def)
  have bs: "buf_get32 (Some bs) (length pre) = Some i" "buf_get32 (Some bs) (length pre + 4) = Some (flag_to_int flags)"
    "c_string (Some bs) (length pre + 8) = Some fname"
    by (rule buf_get32_at [of _ pre] buf_get32_at [of _ "pre @ le32 i"]
        c_string_at [of _ "pre @ le32 i @ le32 (flag_to_int flags)"]; simp add: body ok(6))+
  have "unat i < length fs" using ok(4,5) by (simp add: word_less_nat_alt)
  then show ?thesis
    using ok no_fail_head [OF ok(1)] no_fail_rest [OF ok(1)] bs
    by (simp add: x load_function_id_def put_function_def function_of_def fids_ok_def strdup_def pack_fct_def
        empty_function_def Let_def not_le)
qed


lemma funpow_three: "(f ^^ n) (f (f (f x))) = (f ^^ (3 + n)) x"
  by (simp only: numeral_3_eq_3 add_Suc add_0 funpow.simps comp_apply funpow_swap1)

lemma fold_put_function:
  "fold put_function xs (md, al) =
    (md\<lparr>md_functions := map_option (fold (\<lambda>x fs. fs[unat (fst x) := function_of x]) xs) (md_functions md),
        nb_entrypoint_inits := nb_entrypoint_inits md + of_nat (length (filter (FUNCTION_IS_ENTRYPOINT_INIT \<circ> function_of) xs)),
        nb_entrypoint_finis := nb_entrypoint_finis md + of_nat (length (filter (FUNCTION_IS_ENTRYPOINT_FINI \<circ> function_of) xs))\<rparr>,
     (alloc_rest ^^ length xs) al)"
proof (induction xs arbitrary: md al)
  case (Cons x xs)
  have put: "put_function x (md, al) =
    (md\<lparr>md_functions := map_option (\<lambda>fs. fs[unat (fst x) := function_of x]) (md_functions md),
        nb_entrypoint_inits := nb_entrypoint_inits md + (if FUNCTION_IS_ENTRYPOINT_INIT (function_of x) then 1 else 0),
        nb_entrypoint_finis := nb_entrypoint_finis md + (if FUNCTION_IS_ENTRYPOINT_FINI (function_of x) then 1 else 0)\<rparr>,
     alloc_rest al)"
    by (cases md) (simp add: put_function_def count_entrypoint_def Let_def)
  have "(alloc_rest ^^ length xs) (alloc_rest al) = alloc_rest ((alloc_rest ^^ length xs) al)"
    by (rule funpow_swap1 [symmetric])
  then show ?case
    by (cases "md_functions md") (simp_all add: put Cons.IH comp_def add.assoc add.left_commute)
qed (simp add: option.map_id)

lemma fold_update_all:
  assumes "map (unat \<circ> fst) xs = [k..<length fs]"
  shows "fold (\<lambda>x fs. fs[unat (fst x) := function_of x]) xs fs = take k fs @ map function_of xs"
  using assms
proof (induction xs arbitrary: k fs)
  case Nil
  then have "[k..<length fs] = []" by simp
  then have "length fs \<le> k" unfolding upt_eq_Nil_conv by auto
  then show ?case by simp
next
  case (Cons x xs)
  then have k: "k < length fs" by (cases "k < length fs") simp_all
  then have "unat (fst x) = k" "map (unat \<circ> fst) xs = [Suc k..<length fs]"
    using Cons.prems by (simp_all add: upt_conv_Cons comp_def)
  moreover from this have "fold (\<lambda>x fs. fs[unat (fst x) := function_of x]) xs (fs[k := function_of x]) =
      take (Suc k) (fs[k := function_of x]) @ map function_of xs"
    by (intro Cons.IH) (simp add: comp_def)
  ultimately show ?case using k by (simp add: take_Suc_conv_app_nth)
qed

text \<open>The module that lists the functions \<open>xs\<close> and has no transition yet.\<close>

definition module_of :: "(function_id \<times> byte list \<times> string) list \<Rightarrow> module_data" where
  "module_of xs =
     \<lparr>nb_functions = of_nat (length xs),
      nb_entrypoint_inits = of_nat (length (filter (FUNCTION_IS_ENTRYPOINT_INIT \<circ> function_of) xs)),
      nb_entrypoint_finis = of_nat (length (filter (FUNCTION_IS_ENTRYPOINT_FINI \<circ> function_of) xs)),
      call_graph = Some (replicate (length xs) None), relocations = Some (replicate (length xs) 0),
      md_functions = Some (map function_of xs)\<rparr>"

definition numbered :: "(function_id \<times> byte list \<times> string) list \<Rightarrow> bool" where
  "numbered xs \<longleftrightarrow> map (unat \<circ> fst) xs = [0..<length xs] \<and> length xs < 2 ^ 32 \<and> (\<forall>(i, fname, flags) \<in> set xs. 0 \<notin> set fname)"

lemma load_fctids_packed:
  assumes ok: "numbered xs" and al: "Alloc_Fail \<notin> range al"
  shows "load_section_function_id (Some (le32 (of_nat (length xs)) @ concat (map pack_fct xs) @ post)) empty_module al =
    Some (0, module_of xs, (alloc_rest ^^ (3 + length xs)) al)"
proof -
  let ?n = "of_nat (length xs) :: u32" and ?bs = "le32 (of_nat (length xs)) @ concat (map pack_fct xs) @ post"
  let ?al = "alloc_rest (alloc_rest (alloc_rest al))"
  let ?md = "empty_module\<lparr>nb_functions := ?n, call_graph := Some (replicate (length xs) None),
    relocations := Some (replicate (length xs) 0), md_functions := Some (replicate (length xs) empty_function)\<rparr>"
  have pow: "(alloc_rest ^^ length xs) ?al = (alloc_rest ^^ (3 + length xs)) al"
    by (rule funpow_three)
  have n: "unat ?n = length xs" using ok by (simp add: numbered_def unat_of_nat take_bit_nat_eq_self)
  note al3 = no_fail_rest [OF al] no_fail_rest [OF no_fail_rest [OF al]] no_fail_rest [OF no_fail_rest [OF no_fail_rest [OF al]]]
  have "unat i < length xs" if "(i, fname, flags) \<in> set xs" for i fname flags
  proof -
    have "unat i \<in> set (map (unat \<circ> fst) xs)" using that by force
    also have "map (unat \<circ> fst) xs = [0..<length xs]" using ok by (simp add: numbered_def)
    finally show ?thesis by simp
  qed
  then have "fids_ok ?n xs (?md, ?al)"
    using ok n al3(3) by (auto simp: fids_ok_def numbered_def word_less_nat_alt)
  then have "entries (load_function_id (Some ?bs)) (length xs) (length (le32 ?n)) (?md, ?al) =
      Some (0, fold put_function xs (?md, ?al))"
    using entries_packed [where I = "fids_ok ?n" and enc = pack_fct and f = put_function and bs = ?bs and pre = "le32 ?n",
        OF load_function_id_packed] by simp
  moreover have "fold put_function xs (?md, ?al) = (module_of xs, (alloc_rest ^^ (3 + length xs)) al)"
    unfolding pow [symmetric] using ok fold_update_all [of xs 0 "replicate (length xs) empty_function"]
    by (simp add: fold_put_function module_of_def numbered_def empty_module_def)
  moreover have "buf_get32 (Some ?bs) 0 = Some ?n" by (simp add: buf_get32_def)
  ultimately show ?thesis
    using no_fail_head [OF al] no_fail_head [OF al3(1)] no_fail_head [OF al3(2)] n
    by (simp add: load_section_function_id_def empty_module_def calloc_array_def)
qed

section \<open>Transitions\<close>

text \<open>The row of a graph that leads to \<open>succs\<close>, and the graph \<open>xs\<close> describes.\<close>

definition row_of :: "u32 \<Rightarrow> u32 list \<Rightarrow> byte list" where
  "row_of n succs = map (\<lambda>j. if of_nat j \<in> set succs then 1 else 0) [0..<unat n]"

definition rows_of :: "u32 \<Rightarrow> (u32 \<times> u32 list) list \<Rightarrow> byte list option list" where
  "rows_of n xs = map (\<lambda>i. map_option (row_of n) (map_of xs (of_nat i))) [0..<unat n]"

lemma of_nat_unat_below: "j < unat (n :: u32) \<Longrightarrow> (of_nat j = (c :: u32)) \<longleftrightarrow> (j = unat c)"
  by (simp add: word_unat_eq_iff unat_of_nat_below)

lemma fold_mark_nth:
  "j < length r \<Longrightarrow> length r = unat (n :: u32) \<Longrightarrow>
    fold (\<lambda>c r. r[unat c := 1]) succs r ! j = (if (of_nat j :: u32) \<in> set succs then 1 else (r ! j :: byte))"
proof (induction succs arbitrary: r)
  case (Cons c succs)
  then have "(of_nat j = c) \<longleftrightarrow> (j = unat c)" using of_nat_unat_below [of j n c] by simp
  then show ?case using Cons.IH [of "r[unat c := 1]"] Cons.prems by (auto simp: nth_list_update)
qed simp

lemma length_fold_mark [simp]: "length (fold (\<lambda>c r. r[unat c := 1]) succs r) = length (r :: byte list)"
  by (induction succs arbitrary: r) simp_all

lemma fold_mark_row: "fold (\<lambda>c r. r[unat c := 1 :: byte]) succs (replicate (unat n) 0) = row_of n succs"
  by (rule nth_equalityI) (simp_all add: row_of_def fold_mark_nth)

lemma mark_successors_packed:
  assumes "bs = pre @ pack32s succs @ post" "\<forall>c \<in> set succs. c < limit" "length r = unat limit"
  shows "mark_successors (Some bs) (length succs) (length pre) limit (Some r) =
    Some (True, Some (fold (\<lambda>c r. r[unat c := 1]) succs r))"
  using assms
proof (induction succs arbitrary: pre r)
  case (Cons c succs)
  have "buf_get32 (Some bs) (length pre) = Some c" by (rule buf_get32_at [of _ pre]) (simp_all add: Cons.prems(1))
  moreover have "unat c < length r" using Cons.prems(2,3) by (simp add: word_less_nat_alt)
  moreover have "mark_successors (Some bs) (length succs) (length (pre @ le32 c)) limit (Some (r[unat c := 1])) =
      Some (True, Some (fold (\<lambda>c r. r[unat c := 1]) succs (r[unat c := 1])))"
    using Cons.prems by (intro Cons.IH) simp_all
  ultimately show ?case using Cons.prems(2) by (simp add: not_le)
qed simp

lemma fold_rows_nth:
  "j < length rows \<Longrightarrow> length rows = unat n \<Longrightarrow> distinct (map fst (xs :: (u32 \<times> u32 list) list)) \<Longrightarrow>
    fold (\<lambda>x rows. rows[unat (fst x) := Some (row_of n (snd x))]) xs rows ! j =
      (case map_of xs (of_nat j) of None \<Rightarrow> rows ! j | Some succs \<Rightarrow> Some (row_of n succs))"
proof (induction xs arbitrary: rows)
  case (Cons x xs)
  then have j: "(of_nat j = fst x) \<longleftrightarrow> (j = unat (fst x))" using of_nat_unat_below [of j n "fst x"] by simp
  have "map_of xs (fst x) = None" using Cons.prems(3) by (simp add: map_of_eq_None_iff)
  then show ?case
    using Cons.IH [of "rows[unat (fst x) := Some (row_of n (snd x))]"] Cons.prems j
    by (cases x) (auto simp: nth_list_update split: option.splits)
qed simp

lemma length_fold_rows [simp]:
  "length (fold (\<lambda>x rows. rows[unat (fst x) := Some (row_of n (snd x))]) xs rows) = length rows"
  by (induction xs arbitrary: rows) simp_all

lemma fold_rows_of:
  "distinct (map fst xs) \<Longrightarrow>
    fold (\<lambda>x rows. rows[unat (fst x) := Some (row_of n (snd x))]) xs (replicate (unat n) None) = rows_of n xs"
  by (rule nth_equalityI) (simp_all add: rows_of_def fold_rows_nth split: option.splits)

text \<open>A graph that can be packed: numbers in range, each caller once.\<close>

definition graph_ok :: "u32 \<Rightarrow> (u32 \<times> u32 list) list \<Rightarrow> bool" where
  "graph_ok n xs \<longleftrightarrow> distinct (map fst xs) \<and> length xs < 2 ^ 32 \<and>
     (\<forall>(i, succs) \<in> set xs. i < n \<and> length succs < 2 ^ 32 \<and> (\<forall>c \<in> set succs. c < n))"

lemma packed_row:
  assumes "bs = pre @ pack_row (i, succs) @ post" "length succs < 2 ^ 32"
  shows "buf_get32 (Some bs) (length pre) = Some i" "buf_get32 (Some bs) (length pre + 4) = Some (of_nat (length succs))"
    "unat (of_nat (length succs) :: u32) = length succs" "length (pack_row (i, succs)) = 8 + length succs * 4"
    "(\<forall>c \<in> set succs. c < n) \<Longrightarrow>
      mark_successors (Some bs) (length succs) (length pre + 8) n (Some (replicate (unat n) 0)) = Some (True, Some (row_of n succs))"
proof -
  have body: "bs = pre @ le32 i @ le32 (of_nat (length succs)) @ pack32s succs @ post"
    using assms(1) by (simp add: pack_row_def)
  show "buf_get32 (Some bs) (length pre) = Some i" "buf_get32 (Some bs) (length pre + 4) = Some (of_nat (length succs))"
    by (rule buf_get32_at [of _ pre] buf_get32_at [of _ "pre @ le32 i"]; simp add: body)+
  show "unat (of_nat (length succs) :: u32) = length succs"
    using assms(2) by (simp add: unat_of_nat take_bit_nat_eq_self)
  show "length (pack_row (i, succs)) = 8 + length succs * 4" by (simp add: pack_row_def)
  show "mark_successors (Some bs) (length succs) (length pre + 8) n (Some (replicate (unat n) 0)) = Some (True, Some (row_of n succs))"
    if "\<forall>c \<in> set succs. c < n"
    using mark_successors_packed [of bs "pre @ le32 i @ le32 (of_nat (length succs))" succs post n] that body
    by (simp add: fold_mark_row)
qed


text \<open>The rows the rest \<open>xs\<close> of a graph will fill are still missing.\<close>

definition unfilled :: "u32 \<Rightarrow> (u32 \<times> u32 list) list \<Rightarrow> byte list option list \<Rightarrow> bool" where
  "unfilled n xs rows \<longleftrightarrow> graph_ok n xs \<and> length rows = unat n \<and> (\<forall>x \<in> set xs. rows ! unat (fst x) = None)"

lemma unfilled_step:
  assumes "unfilled n ((i, succs) # xs) rows"
  shows "i < n" "unat i < length rows" "rows ! unat i = None" "length succs < 2 ^ 32" "\<forall>c \<in> set succs. c < n"
    "length rows = unat n" "unfilled n xs (rows[unat i := r])"
proof -
  have g: "graph_ok n ((i, succs) # xs)" "length rows = unat n" "rows ! unat i = None" "\<forall>x \<in> set xs. rows ! unat (fst x) = None"
    using assms by (auto simp: unfilled_def)
  then show "i < n" "rows ! unat i = None" "length succs < 2 ^ 32" "\<forall>c \<in> set succs. c < n" "length rows = unat n"
    by (auto simp: graph_ok_def)
  then show "unat i < length rows" by (simp add: word_less_nat_alt)
  have "unat (fst y) \<noteq> unat i" if "y \<in> set xs" for y
    using that g(1) by (auto simp: graph_ok_def word_unat_eq_iff [symmetric])
  then have "\<forall>x \<in> set xs. rows[unat i := r] ! unat (fst x) = None" using g(4) by (metis nth_list_update_neq)
  then show "unfilled n xs (rows[unat i := r])" using g by (auto simp: unfilled_def graph_ok_def)
qed

lemma unfilled_start: "graph_ok n xs \<Longrightarrow> unfilled n xs (replicate (unat n) None)"
  by (auto simp: unfilled_def graph_ok_def word_less_nat_alt)

definition put_calls :: "function_id \<times> function_id list \<Rightarrow> module_data \<times> alloc \<Rightarrow> module_data \<times> alloc" where
  "put_calls x = (\<lambda>(md, al).
     (md\<lparr>call_graph := map_option (\<lambda>rows. rows[unat (fst x) := Some (row_of (nb_functions md) (snd x))]) (call_graph md)\<rparr>,
      alloc_rest al))"

definition calls_ok :: "u32 \<Rightarrow> (function_id \<times> function_id list) list \<Rightarrow> module_data \<times> alloc \<Rightarrow> bool" where
  "calls_ok n xs = (\<lambda>(md, al). Alloc_Fail \<notin> range al \<and> nb_functions md = n \<and>
     (\<exists>rows. call_graph md = Some rows \<and> unfilled n xs rows))"

lemma load_function_transition_packed:
  assumes "calls_ok n (x # xs) s" "bs = pre @ pack_row x @ post"
  shows "load_function_transition (Some bs) (length pre) s = Some (0, length pre + length (pack_row x), put_calls x s) \<and>
    calls_ok n xs (put_calls x s)"
proof -
  obtain i succs md al where x: "x = (i, succs)" "s = (md, al)" by (metis surj_pair)
  obtain rows where ok: "Alloc_Fail \<notin> range al" "nb_functions md = n" "call_graph md = Some rows" "unfilled n ((i, succs) # xs) rows"
    using assms(1) by (auto simp: calls_ok_def x)
  note r = unfilled_step(1-6) [OF ok(4)] unfilled_step(7) [OF ok(4), of "Some (row_of n succs)"]
  note row = packed_row [OF assms(2) [unfolded x] r(4)]
  have "calls_ok n xs (put_calls x s)"
    using ok r(7) no_fail_rest [OF ok(1)] by (simp add: calls_ok_def put_calls_def x)
  then show ?thesis
    using ok r(1-3) row(1-4) row(5) [OF r(5)] no_fail_head [OF ok(1)]
    by (simp add: x load_function_transition_def put_calls_def calloc_array_def not_le)
qed

lemma fold_put_calls:
  "fold put_calls xs (md, al) =
    (md\<lparr>call_graph := map_option (fold (\<lambda>x rows. rows[unat (fst x) := Some (row_of (nb_functions md) (snd x))]) xs) (call_graph md)\<rparr>,
     (alloc_rest ^^ length xs) al)"
proof (induction xs arbitrary: md al)
  case (Cons x xs)
  have "(alloc_rest ^^ length xs) (alloc_rest al) = alloc_rest ((alloc_rest ^^ length xs) al)"
    by (rule funpow_swap1 [symmetric])
  then show ?case by (cases "call_graph md") (simp_all add: Cons.IH put_calls_def [of x])
qed (simp add: option.map_id)

lemma load_callgraph_packed:
  assumes g: "graph_ok (nb_functions md) xs" and al: "Alloc_Fail \<notin> range al" and n: "nb_functions md \<noteq> 0"
    and md: "call_graph md = Some (replicate (unat (nb_functions md)) None)"
  shows "load_section_function_transition (Some (gen_packed_callgraph xs @ post)) md al =
    Some (0, md\<lparr>call_graph := Some (rows_of (nb_functions md) xs)\<rparr>, (alloc_rest ^^ length xs) al)"
proof -
  let ?n = "of_nat (length xs) :: u32" and ?bs = "gen_packed_callgraph xs @ post"
  have len: "unat ?n = length xs" using g by (simp add: graph_ok_def unat_of_nat take_bit_nat_eq_self)
  have "calls_ok (nb_functions md) xs (md, al)"
    using unfilled_start [OF g] al md by (simp add: calls_ok_def)
  then have "entries (load_function_transition (Some ?bs)) (length xs) (length (le32 ?n)) (md, al) =
      Some (0, fold put_calls xs (md, al))"
    using entries_packed [where I = "calls_ok (nb_functions md)" and enc = pack_row and f = put_calls and bs = ?bs
        and pre = "le32 ?n" and post = post, OF load_function_transition_packed]
    by (simp add: gen_packed_callgraph_def)
  moreover have "buf_get32 (Some ?bs) 0 = Some ?n" by (simp add: buf_get32_def gen_packed_callgraph_def)
  ultimately show ?thesis
    using md n len g by (simp add: load_section_function_transition_def fold_put_calls fold_rows_of graph_ok_def)
qed

definition put_blocks :: "block_id \<times> block_id list \<Rightarrow> function_data \<times> alloc \<Rightarrow> function_data \<times> alloc" where
  "put_blocks x = (\<lambda>(fd, al).
     (fd\<lparr>control_flow_graph := map_option (\<lambda>rows. rows[unat (fst x) := Some (row_of (nb_blocks fd) (snd x))]) (control_flow_graph fd)\<rparr>,
      alloc_rest al))"

definition blocks_ok :: "u32 \<Rightarrow> (block_id \<times> block_id list) list \<Rightarrow> function_data \<times> alloc \<Rightarrow> bool" where
  "blocks_ok n xs = (\<lambda>(fd, al). Alloc_Fail \<notin> range al \<and> nb_blocks fd = n \<and>
     (\<exists>rows. control_flow_graph fd = Some rows \<and> unfilled n xs rows))"

lemma load_block_transition_packed:
  assumes "blocks_ok n (x # xs) s" "bs = pre @ pack_row x @ post"
  shows "load_block_transition (Some bs) (length pre) s = Some (0, length pre + length (pack_row x), put_blocks x s) \<and>
    blocks_ok n xs (put_blocks x s)"
proof -
  obtain i succs fd al where x: "x = (i, succs)" "s = (fd, al)" by (metis surj_pair)
  obtain rows where ok: "Alloc_Fail \<notin> range al" "nb_blocks fd = n" "control_flow_graph fd = Some rows" "unfilled n ((i, succs) # xs) rows"
    using assms(1) by (auto simp: blocks_ok_def x)
  note r = unfilled_step(1-6) [OF ok(4)] unfilled_step(7) [OF ok(4), of "Some (row_of n succs)"]
  note row = packed_row [OF assms(2) [unfolded x] r(4)]
  have "blocks_ok n xs (put_blocks x s)"
    using ok r(7) no_fail_rest [OF ok(1)] by (simp add: blocks_ok_def put_blocks_def x)
  then show ?thesis
    using ok r(1-3) row(1-4) row(5) [OF r(5)] no_fail_head [OF ok(1)]
    by (simp add: x load_block_transition_def put_blocks_def calloc_array_def not_le)
qed

lemma fold_put_blocks:
  "fold put_blocks xs (fd, al) =
    (fd\<lparr>control_flow_graph := map_option (fold (\<lambda>x rows. rows[unat (fst x) := Some (row_of (nb_blocks fd) (snd x))]) xs) (control_flow_graph fd)\<rparr>,
     (alloc_rest ^^ length xs) al)"
proof (induction xs arbitrary: fd al)
  case (Cons x xs)
  have "(alloc_rest ^^ length xs) (alloc_rest al) = alloc_rest ((alloc_rest ^^ length xs) al)"
    by (rule funpow_swap1 [symmetric])
  then show ?case by (cases "control_flow_graph fd") (simp_all add: Cons.IH put_blocks_def [of x])
qed (simp add: option.map_id)

text \<open>The function \<open>fd\<close> with the graph \<open>d\<close> over \<open>n\<close> blocks.\<close>

definition with_blocks :: "u32 \<Rightarrow> (block_id \<times> block_id list) list \<Rightarrow> function_data \<Rightarrow> function_data" where
  "with_blocks n d fd = fd\<lparr>nb_blocks := n, control_flow_graph := Some (rows_of n d),
     immediate_post_dominator := Some (replicate (unat n) 0)\<rparr>"

lemma load_function_blocks_packed:
  assumes g: "graph_ok n d" and al: "Alloc_Fail \<notin> range al"
  shows "load_function_blocks (Some (gen_packed_bb f n d @ post)) n fd al =
    Some (0, with_blocks n d fd, (alloc_rest ^^ length d) (alloc_rest (alloc_rest al)))"
proof -
  let ?n = "of_nat (length d) :: u32" and ?bs = "gen_packed_bb f n d @ post" and ?al = "alloc_rest (alloc_rest al)"
  let ?fd = "fd\<lparr>nb_blocks := n, control_flow_graph := Some (replicate (unat n) None), immediate_post_dominator := Some (replicate (unat n) 0)\<rparr>"
  have len: "unat ?n = length d" using g by (simp add: graph_ok_def unat_of_nat take_bit_nat_eq_self)
  have "buf_get32 (Some ?bs) 8 = Some ?n"
    by (rule buf_get32_at [of _ "le32 f @ le32 n"]) (simp_all add: gen_packed_bb_def)
  moreover have "blocks_ok n d (?fd, ?al)"
    using unfilled_start [OF g] no_fail_rest [OF no_fail_rest [OF al]] by (simp add: blocks_ok_def)
  then have "entries (load_block_transition (Some ?bs)) (length d) (length (le32 f @ le32 n @ le32 ?n)) (?fd, ?al) =
      Some (0, fold put_blocks d (?fd, ?al))"
    using entries_packed [where I = "blocks_ok n" and enc = pack_row and f = put_blocks and bs = ?bs
        and pre = "le32 f @ le32 n @ le32 ?n" and post = post, OF load_block_transition_packed]
    by (simp add: gen_packed_bb_def)
  ultimately show ?thesis
    using no_fail_head [OF al] no_fail_head [OF no_fail_rest [OF al]] len g
    by (simp add: load_function_blocks_def calloc_array_def fold_put_blocks fold_rows_of graph_ok_def with_blocks_def)
qed

lemma load_bb_packed:
  assumes "graph_ok n d" "Alloc_Fail \<notin> range al" "n \<noteq> 0" "md_functions md = Some fs" "f < nb_functions md"
    "unat f < length fs" "nb_blocks (fs ! unat f) = 0"
  shows "load_section_block_transition (Some (gen_packed_bb f n d @ post)) md al =
    Some (0, md\<lparr>md_functions := Some (fs[unat f := with_blocks n d (fs ! unat f)])\<rparr>,
      (alloc_rest ^^ length d) (alloc_rest (alloc_rest al)))"
proof -
  have "buf_get32 (Some (gen_packed_bb f n d @ post)) 0 = Some f"
    by (rule buf_get32_at [of _ "[]"]) (simp_all add: gen_packed_bb_def)
  moreover have "buf_get32 (Some (gen_packed_bb f n d @ post)) 4 = Some n"
    by (rule buf_get32_at [of _ "le32 f"]) (simp_all add: gen_packed_bb_def)
  moreover have "nb_functions md \<noteq> 0" using assms(5) by auto
  ultimately show ?thesis
    using assms by (simp add: load_section_block_transition_def load_function_blocks_packed not_le)
qed

section \<open>Post-dominators\<close>

definition put_ipd :: "function_id \<times> block_id \<times> block_id \<times> block_id \<Rightarrow> module_data \<Rightarrow> module_data" where
  "put_ipd = (\<lambda>(f, b, ipd, last) md.
     md\<lparr>md_functions := map_option (\<lambda>fs. fs[unat f := (fs ! unat f)
       \<lparr>immediate_post_dominator := map_option (\<lambda>ds. ds[unat b := ipd]) (immediate_post_dominator (fs ! unat f))\<rparr>]) (md_functions md)\<rparr>)"

definition ipd_ok :: "(function_id \<times> block_id \<times> block_id \<times> block_id) list \<Rightarrow> module_data \<Rightarrow> bool" where
  "ipd_ok xs md \<longleftrightarrow> wf_module md \<and> nb_functions md \<noteq> 0 \<and>
     (\<forall>(f, b, ipd, last) \<in> set xs. f < nb_functions md \<and>
       (case md_functions md of None \<Rightarrow> False | Some fs \<Rightarrow> b < nb_blocks (fs ! unat f)))"

lemma load_block_ipd_packed:
  assumes "ipd_ok (x # xs) md" "bs = pre @ pack_ipd x @ post"
  shows "load_block_ipd (Some bs) (length pre) md = Some (0, length pre + length (pack_ipd x), put_ipd x md) \<and> ipd_ok xs (put_ipd x md)"
proof -
  obtain f b ipd l where x: "x = (f, b, ipd, l)" by (metis surj_pair)
  obtain fs where fs: "md_functions md = Some fs" "length fs = unat (nb_functions md)" "\<And>i. i < length fs \<Longrightarrow> wf_function (fs ! i)"
    using assms(1) unfolding ipd_ok_def by (metis wf_moduleE)
  have f: "f < nb_functions md" "b < nb_blocks (fs ! unat f)" using assms(1) fs(1) by (auto simp: ipd_ok_def x)
  then have uf: "unat f < length fs" using fs(2) by (simp add: word_less_nat_alt)
  have nb: "nb_blocks (fs ! unat f) \<noteq> 0" using f(2) by auto
  obtain ds where ds: "immediate_post_dominator (fs ! unat f) = Some ds" "length ds = unat (nb_blocks (fs ! unat f))"
    using fs(3) [OF uf] nb by (auto simp: wf_function_def split: option.splits)
  have body: "bs = pre @ le32 f @ le32 b @ le32 ipd @ le32 l @ post" using assms(2) by (simp add: x pack_ipd_def)
  have get: "buf_get32 (Some bs) (length pre) = Some f" "buf_get32 (Some bs) (length pre + 4) = Some b"
    "buf_get32 (Some bs) (length pre + 8) = Some ipd"
    by (rule buf_get32_at [of _ pre] buf_get32_at [of _ "pre @ le32 f"] buf_get32_at [of _ "pre @ le32 f @ le32 b"]; simp add: body)+
  let ?fd = "(fs ! unat f)\<lparr>immediate_post_dominator := Some (ds[unat b := ipd])\<rparr>"
  have put: "put_ipd x md = md\<lparr>md_functions := Some (fs[unat f := ?fd])\<rparr>" by (simp add: put_ipd_def x fs ds)
  have "wf_function ?fd" using fs(3) [OF uf] ds nb by (simp add: wf_function_def)
  then have "wf_module (put_ipd x md)"
    unfolding put using assms(1) uf fs(1) by (intro wf_module_functions [of md "unat f" ?fd]) (auto simp: ipd_ok_def)
  moreover have "nb_blocks (fs[unat f := ?fd] ! i) = nb_blocks (fs ! i)" for i
    using uf by (cases "i = unat f") simp_all
  ultimately have "ipd_ok xs (put_ipd x md)" using assms(1) fs(1) by (auto simp: ipd_ok_def put)
  then show ?thesis
    using get f uf fs(1) ds nb by (simp add: load_block_ipd_def put [unfolded x] x pack_ipd_def not_le word_less_nat_alt)
qed

lemma load_ipd_packed:
  assumes "ipd_ok xs md" "length xs < 2 ^ 32"
  shows "load_section_block_ipd (Some (gen_packed_bb_ipd xs @ post)) md al = Some (0, fold put_ipd xs md, al)"
proof -
  let ?n = "of_nat (length xs) :: u32" and ?bs = "gen_packed_bb_ipd xs @ post"
  have "unat ?n = length xs" using assms(2) by (simp add: unat_of_nat take_bit_nat_eq_self)
  moreover have "buf_get32 (Some ?bs) 0 = Some ?n" by (simp add: buf_get32_def gen_packed_bb_ipd_def)
  moreover have "md_functions md \<noteq> None" using assms(1) by (auto simp: ipd_ok_def wf_module_def split: option.splits)
  moreover have "entries (load_block_ipd (Some ?bs)) (length xs) (length (le32 ?n)) md = Some (0, fold put_ipd xs md)"
    using entries_packed [where I = ipd_ok and enc = pack_ipd and f = put_ipd and bs = ?bs
        and pre = "le32 ?n" and post = post, OF load_block_ipd_packed] assms(1)
    by (simp add: gen_packed_bb_ipd_def)
  ultimately show ?thesis by (auto simp: load_section_block_ipd_def)
qed

end
