(* ===== verification/Client.thy ===== *)
theory Client
  imports Shared_Protocol
begin

text \<open>
  The code injected in a protected program (\<open>include/picon/injected_code.c\<close>): the hooks that
  report each event to the monitor and wait for its answer, and abort when it does not come.
\<close>

section \<open>State and hooks\<close>

text \<open>
  \<open>to_monitor\<close> holds what the client wrote, \<open>from_monitor\<close> the answers it will find; the stream
  \<open>c_write\<close> are the answers of \<open>write\<close>.
\<close>

record client =
  cl_fd_client_to_monitor :: int
  cl_fd_monitor_to_client :: int
  cs :: client_signal
  to_monitor :: pipe
  from_monitor :: pipe
  c_write :: "nat \<Rightarrow> bool"

text \<open>\<open>Inl\<close> is a program stopped by \<open>abort ()\<close>, \<open>Inr\<close> one that goes on.\<close>

type_synonym progress = "client + client"

definition send_monitor :: "byte \<Rightarrow> client \<Rightarrow> progress" where
  "send_monitor garbage c =
     (let (p, err) = WRITE_CLIENT_SIGNAL (c_write c 0) (cs c) (to_monitor c) 0;
          c = c\<lparr>to_monitor := p, c_write := (\<lambda>n. c_write c (Suc n))\<rparr>
      in if err \<noteq> 0 then Inl c
         else let (p, ma, err) = READ_MONITOR_ANSWER (from_monitor c) garbage 0;
                  c = c\<lparr>from_monitor := p\<rparr>
      in if err \<noteq> 0 then Inl c else if ma \<noteq> CFI_OK then Inl c else Inr c)"

definition CFI_SET_FDS :: "int \<Rightarrow> int \<Rightarrow> client \<Rightarrow> client" where
  "CFI_SET_FDS c2m m2c c = c\<lparr>cl_fd_client_to_monitor := c2m, cl_fd_monitor_to_client := m2c\<rparr>"

definition CFI_SET_MODULE_ID :: "module_id \<Rightarrow> client \<Rightarrow> client" where
  "CFI_SET_MODULE_ID m c = c\<lparr>cs := (cs c)\<lparr>sig_module := m\<rparr>\<rparr>"

definition CFI_INTERNAL_ENTER :: "byte \<Rightarrow> function_id \<Rightarrow> client \<Rightarrow> progress" where
  "CFI_INTERNAL_ENTER ga nFct c = send_monitor ga
     (c\<lparr>cs := (cs c)\<lparr>sig_event := client_event_code CFI_ENTER, sig_function := nFct, sig_block := 0\<rparr>\<rparr>)"

definition CFI_INTERNAL_EXIT :: "byte \<Rightarrow> function_id \<Rightarrow> client \<Rightarrow> progress" where
  "CFI_INTERNAL_EXIT ga nFct c = send_monitor ga
     (c\<lparr>cs := (cs c)\<lparr>sig_event := client_event_code CFI_EXIT, sig_function := nFct, sig_block := 0\<rparr>\<rparr>)"

definition CFI_INTERNAL_CALL :: "byte \<Rightarrow> function_id \<Rightarrow> client \<Rightarrow> progress" where
  "CFI_INTERNAL_CALL ga nFct c = send_monitor ga
     (c\<lparr>cs := (cs c)\<lparr>sig_event := client_event_code CFI_CALL, sig_function := nFct, sig_block := 0\<rparr>\<rparr>)"

definition CFI_INTERNAL_RETURNED :: "byte \<Rightarrow> function_id \<Rightarrow> client \<Rightarrow> progress" where
  "CFI_INTERNAL_RETURNED ga nFct c = send_monitor ga
     (c\<lparr>cs := (cs c)\<lparr>sig_event := client_event_code CFI_RETURNED, sig_function := nFct, sig_block := 0\<rparr>\<rparr>)"

definition CFI_INTERNAL_BB_BEFORE_BR :: "byte \<Rightarrow> function_id \<Rightarrow> block_id \<Rightarrow> client \<Rightarrow> progress" where
  "CFI_INTERNAL_BB_BEFORE_BR ga f_id idBB c = send_monitor ga
     (c\<lparr>cs := (cs c)\<lparr>sig_event := client_event_code CFI_BEFORE_JUMP, sig_function := f_id, sig_block := idBB\<rparr>\<rparr>)"

definition CFI_INTERNAL_BB_AFTER_BR :: "byte \<Rightarrow> function_id \<Rightarrow> block_id \<Rightarrow> client \<Rightarrow> progress" where
  "CFI_INTERNAL_BB_AFTER_BR ga f_id idBB c = send_monitor ga
     (c\<lparr>cs := (cs c)\<lparr>sig_event := client_event_code CFI_AFTER_JUMP, sig_function := f_id, sig_block := idBB\<rparr>\<rparr>)"

lemmas hook_defs = CFI_INTERNAL_ENTER_def CFI_INTERNAL_EXIT_def CFI_INTERNAL_CALL_def
  CFI_INTERNAL_RETURNED_def CFI_INTERNAL_BB_BEFORE_BR_def CFI_INTERNAL_BB_AFTER_BR_def

section \<open>A program as a sequence of hooks\<close>

text \<open>The calls the pass injects, in the order the program makes them.\<close>

datatype hook =
  Enter function_id | Leave function_id | Call function_id | Returned function_id
| Before_br function_id block_id | After_br function_id block_id

fun do_hook :: "byte \<Rightarrow> hook \<Rightarrow> client \<Rightarrow> progress" where
  "do_hook ga (Enter f) = CFI_INTERNAL_ENTER ga f"
| "do_hook ga (Leave f) = CFI_INTERNAL_EXIT ga f"
| "do_hook ga (Call f) = CFI_INTERNAL_CALL ga f"
| "do_hook ga (Returned f) = CFI_INTERNAL_RETURNED ga f"
| "do_hook ga (Before_br f b) = CFI_INTERNAL_BB_BEFORE_BR ga f b"
| "do_hook ga (After_br f b) = CFI_INTERNAL_BB_AFTER_BR ga f b"

fun do_hooks :: "byte \<Rightarrow> hook list \<Rightarrow> client \<Rightarrow> progress" where
  "do_hooks ga [] c = Inr c"
| "do_hooks ga (h # hs) c = (case do_hook ga h c of Inl c \<Rightarrow> Inl c | Inr c \<Rightarrow> do_hooks ga hs c)"

fun hook_signal :: "module_id \<Rightarrow> hook \<Rightarrow> client_signal" where
  "hook_signal m (Enter f) =
     \<lparr>sig_event = client_event_code CFI_ENTER, sig_module = m, sig_function = f, sig_block = 0\<rparr>"
| "hook_signal m (Leave f) =
     \<lparr>sig_event = client_event_code CFI_EXIT, sig_module = m, sig_function = f, sig_block = 0\<rparr>"
| "hook_signal m (Call f) =
     \<lparr>sig_event = client_event_code CFI_CALL, sig_module = m, sig_function = f, sig_block = 0\<rparr>"
| "hook_signal m (Returned f) =
     \<lparr>sig_event = client_event_code CFI_RETURNED, sig_module = m, sig_function = f, sig_block = 0\<rparr>"
| "hook_signal m (Before_br f b) =
     \<lparr>sig_event = client_event_code CFI_BEFORE_JUMP, sig_module = m, sig_function = f, sig_block = b\<rparr>"
| "hook_signal m (After_br f b) =
     \<lparr>sig_event = client_event_code CFI_AFTER_JUMP, sig_module = m, sig_function = f, sig_block = b\<rparr>"

section \<open>Lemmas\<close>

lemma do_hook_sends:
  "do_hook ga h c = send_monitor ga (c\<lparr>cs := hook_signal (sig_module (cs c)) h\<rparr>)"
  by (cases "cs c"; cases h) (simp_all add: hook_defs)

lemma pipe_packets_signal [simp]: "pipe_packets (encode_signal c) = [encode_signal c]"
  by (rule pipe_packets_small) (simp_all add: encode_signal_def le16_def le32_def PIPE_BUF_def)

text \<open>A hook goes on exactly when its write is accepted and the next answer is one \<open>CFI_OK\<close>.\<close>

definition answered :: "client \<Rightarrow> bool" where
  "answered c \<longleftrightarrow> (case from_monitor c of [] \<Rightarrow> False | p # _ \<Rightarrow> p \<noteq> [] \<and> hd p = CFI_OK)"

lemma send_monitor_cases:
  "send_monitor ga c =
    (if \<not> c_write c 0 then Inl (c\<lparr>c_write := (\<lambda>n. c_write c (Suc n))\<rparr>)
     else (if answered c then Inr else Inl)
       (c\<lparr>to_monitor := to_monitor c @ [encode_signal (cs c)], from_monitor := tl (from_monitor c),
          c_write := (\<lambda>n. c_write c (Suc n))\<rparr>))"
  by (cases "from_monitor c"; cases "hd (from_monitor c)")
    (simp_all add: send_monitor_def WRITE_CLIENT_SIGNAL_def READ_MONITOR_ANSWER_def pipe_write_def pipe_read_def
      answered_def overlay_def Let_def)

lemma do_hook_cases:
  "c_write c 0 \<Longrightarrow> do_hook ga h c =
    (if answered c then Inr else Inl)
      (c\<lparr>cs := hook_signal (sig_module (cs c)) h,
         to_monitor := to_monitor c @ [encode_signal (hook_signal (sig_module (cs c)) h)],
         from_monitor := tl (from_monitor c), c_write := (\<lambda>n. c_write c (Suc n))\<rparr>)"
  by (simp add: do_hook_sends send_monitor_cases answered_def)

lemma hook_signal_module [simp]: "sig_module (hook_signal m h) = m"
  by (cases h) simp_all

text \<open>
  Lockstep: with \<open>n\<close> answers to come, a program makes at most \<open>n\<close> steps past a hook; it reports
  the next event and stops there.
\<close>

lemma do_hooks_lockstep:
  assumes "c_write c = (\<lambda>_. True)" "from_monitor c = replicate n [CFI_OK]"
  shows "\<exists>c'. do_hooks ga hs c = (if length hs \<le> n then Inr c' else Inl c') \<and>
    to_monitor c' = to_monitor c @ map (encode_signal \<circ> hook_signal (sig_module (cs c))) (take (Suc n) hs)"
  using assms
proof (induction hs arbitrary: c n)
  case (Cons h hs)
  let ?c = "c\<lparr>cs := hook_signal (sig_module (cs c)) h,
         to_monitor := to_monitor c @ [encode_signal (hook_signal (sig_module (cs c)) h)],
         from_monitor := tl (from_monitor c), c_write := (\<lambda>n. c_write c (Suc n))\<rparr>"
  have step: "do_hook ga h c = (if answered c then Inr else Inl) ?c"
    by (rule do_hook_cases) (simp add: Cons.prems(1))
  show ?case
  proof (cases n)
    case 0
    then show ?thesis using Cons.prems step by (simp add: answered_def)
  next
    case (Suc k)
    have "answered c" using Cons.prems(2) Suc by (simp add: answered_def)
    moreover have "from_monitor ?c = replicate k [CFI_OK]" "c_write ?c = (\<lambda>_. True)"
      using Cons.prems Suc by simp_all
    ultimately show ?thesis using Cons.IH [of ?c k] step Suc by auto
  qed
qed simp

end
