(* ===== verification/Load_Tables.thy ===== *)
theory Load_Tables
  imports Monitor_Modules
begin

text \<open>
  What loading guarantees. A load that succeeds, or that fails without any refused
  allocation, leaves well-formed tables; the final pass links every external function to the
  function of the same name that the code's search order selects.
\<close>

section \<open>Loading keeps the tables well formed\<close>

text \<open>
  \<open>sound_load al e\<close>: the outcome from which the tables can be relied on, either success or a
  failure in which no allocation was refused.
\<close>

definition sound_load :: "alloc \<Rightarrow> u32 \<Rightarrow> bool" where
  "sound_load al e \<longleftrightarrow> e = 0 \<or> Alloc_Fail \<notin> range al"

lemma sound_loadI:
  "section_post oom al (e, md', al') \<Longrightarrow> 0 \<notin> oom \<Longrightarrow> alloc_later al al' \<and> (sound_load al e \<longrightarrow> wf_module md')"
  by (auto simp: section_post_def sound_load_def)

lemma load_packet_wf:
  assumes "wf_module md" "load_packet opts pkt md al = Some (e, md', al')"
  shows "alloc_later al al' \<and> (sound_load al e \<longrightarrow> wf_module md')"
proof -
  let ?P = "\<lambda>(e, md', al'). alloc_later al al' \<and> (sound_load al e \<longrightarrow> wf_module md')"
  have "yields ?P (load_packet opts pkt md al)"
    unfolding load_packet_def
    by (auto simp: assms(1) yields_def bind_eq_Some_conv
        dest!: sound_loadI [OF yieldsD [OF function_id_loader.section_law [OF assms(1)]]]
          sound_loadI [OF yieldsD [OF function_transition_loader.section_law [OF assms(1)]]]
          sound_loadI [OF yieldsD [OF block_transition_loader.section_law [OF assms(1)]]]
          sound_loadI [OF yieldsD [OF block_ipd_loader.section_law [OF assms(1)]]]
        split: option.splits loading_event.splits if_split_asm)
  from yieldsD [OF this assms(2)] show ?thesis by simp
qed

lemma wf_modules_update:
  assumes "wf_modules mon" "arr_set (modules mon) i md = Some ms" "wf_module md"
  shows "wf_modules (mon\<lparr>modules := ms\<rparr>)"
proof -
  obtain xs where xs: "modules mon = Some xs" "ms = Some (xs[i := md])"
    using assms(2) by (auto dest: arr_set_SomeD)
  have "set (xs[i := md]) \<subseteq> insert md (set xs)" by (rule set_update_subset_insert)
  with assms xs show ?thesis by (auto simp: wf_modules_def)
qed

lemma wf_modules_get: "wf_modules mon \<Longrightarrow> arr_get (modules mon) i = Some md \<Longrightarrow> wf_module md"
  by (auto simp: wf_modules_def split: option.splits if_splits)

lemma receive_section_wf:
  assumes "wf_modules mon" "receive_section opts idx pkt mon w = Some (e, mon', w')"
  shows "alloc_later (w_alloc w) (w_alloc w') \<and> nb_modules mon' = nb_modules mon \<and>
    (sound_load (w_alloc w) e \<longrightarrow> wf_modules mon')"
  using assms
  by (auto simp: receive_section_def bind_eq_Some_conv simp del: arr_set_simps arr_get_simps
      dest!: load_packet_wf [OF wf_modules_get, OF assms(1)] intro: wf_modules_update)

lemma read_loading_alloc:
  "read_loading_packet w pkt e = (w', pkt', e') \<Longrightarrow> alloc_later (w_alloc w) (w_alloc w')"
  by (auto simp: read_loading_packet_def Let_def alloc_later_rest split: prod.splits if_splits)

lemma sound_load_later: "alloc_later al al' \<Longrightarrow> sound_load al e \<Longrightarrow> sound_load al' e"
  using alloc_later_member unfolding sound_load_def by meson

lemma load_packets_wf:
  assumes run: "load_packets opts idx pkt mon w = Some (e, pkt', mon', w')" and wf: "wf_modules mon"
  shows "alloc_later (w_alloc w) (w_alloc w') \<and> nb_modules mon' = nb_modules mon \<and>
    (sound_load (w_alloc w) e \<longrightarrow> wf_modules mon')"
proof (rule load_packets_rule [OF run, of
      "\<lambda>_ m v. alloc_later (w_alloc w) (w_alloc v) \<and> nb_modules m = nb_modules mon \<and> wf_modules m"
      "\<lambda>e _ m v. alloc_later (w_alloc w) (w_alloc v) \<and> nb_modules m = nb_modules mon \<and>
         (sound_load (w_alloc w) e \<longrightarrow> wf_modules m)"])
  fix p1 m1 v1 p2 v2 p3 e3 m3 v3
  assume I: "alloc_later (w_alloc w) (w_alloc v1) \<and> nb_modules m1 = nb_modules mon \<and> wf_modules m1"
    and r: "read_loading_packet v1 p2 0 = (v2, p3, 0)" "receive_section opts idx p3 m1 v2 = Some (e3, m3, v3)"
  have later: "alloc_later (w_alloc w) (w_alloc v2)"
    using I alloc_later_trans [OF _ read_loading_alloc [OF r(1)]] by simp
  moreover have "alloc_later (w_alloc v2) (w_alloc v3) \<and> nb_modules m3 = nb_modules m1 \<and>
      (sound_load (w_alloc v2) e3 \<longrightarrow> wf_modules m3)"
    using I r(2) by (intro receive_section_wf [of m1 opts idx p3]) simp_all
  ultimately show "if e3 = 0 then alloc_later (w_alloc w) (w_alloc v3) \<and> nb_modules m3 = nb_modules mon \<and> wf_modules m3
      else alloc_later (w_alloc w) (w_alloc v3) \<and> nb_modules m3 = nb_modules mon \<and>
        (sound_load (w_alloc w) e3 \<longrightarrow> wf_modules m3)"
    using I alloc_later_trans [OF later, of "w_alloc v3"] sound_load_later [OF later, of e3]
    by (auto simp: sound_load_def)
next
  fix p1 m1 v1 p2 v2 p3 e2
  assume I: "alloc_later (w_alloc w) (w_alloc v1) \<and> nb_modules m1 = nb_modules mon \<and> wf_modules m1"
    and r: "read_loading_packet v1 p2 0 = (v2, p3, e2)"
  then show "alloc_later (w_alloc w) (w_alloc v2) \<and> nb_modules m1 = nb_modules mon \<and>
      (sound_load (w_alloc w) 4 \<longrightarrow> wf_modules m1)"
    using alloc_later_trans [OF _ read_loading_alloc [OF r]] by simp
qed (use wf in auto)

text \<open>A run also only consumes the allocator's answers.\<close>

lemma stack_extend_consumes: "yields (\<lambda>(e, s', al'). al' = alloc_rest al) (stack_extend ext al s)"
  unfolding stack_extend_def by (intro vc) simp_all

lemma stack_push_later:
  assumes "stack_push ext v err al s = Some (e, s', al')"
  shows "alloc_later al al'"
proof -
  have "yields (\<lambda>(e, s', al'). al' = al \<or> al' = alloc_rest al) (stack_push ext v err al s)"
    unfolding stack_push_def
    by (intro vc) (auto dest!: yieldsD [OF stack_extend_consumes] split: if_splits)
  from yieldsD [OF this assms] show ?thesis using alloc_later_rest by auto
qed

lemma push_later:
  "BLOCK_STACK_PUSH b e al bl = Some (e', bl', al') \<Longrightarrow> alloc_later al al'"
  "CALL_STACK_PUSH c e al cl = Some (e'', cl', al') \<Longrightarrow> alloc_later al al'"
  unfolding BLOCK_STACK_PUSH_def CALL_STACK_PUSH_def by (erule stack_push_later)+

lemma save_caller_later: "save_caller opts s al = Some (s', al') \<Longrightarrow> alloc_later al al'"
proof -
  assume run: "save_caller opts s al = Some (s', al')"
  have "yields (\<lambda>(s', al'). alloc_later al al') (save_caller opts s al)"
    unfolding save_caller_def
    by (intro vc) (auto dest!: push_later intro: alloc_later_trans alloc_later_trans [OF alloc_later_trans] split: if_splits)
  from yieldsD [OF this run] show ?thesis by simp
qed

lemma trace_jump_later: "trace_jump opts fd s al = Some (s', al') \<Longrightarrow> alloc_later al al'"
  by (auto simp: trace_jump_def bind_eq_Some_conv dest: push_later split: if_splits)

lemma restore_caller_alloc: "restore_caller opts data s al = Some (j, s', al') \<Longrightarrow> al' = al"
  by (cases "OPTION_sm_trace opts")
    (auto simp: restore_caller_def fail_def bind_eq_Some_conv Let_def split: if_split_asm)

lemma handle_signal_later: "handle_signal opts data s al = Some (j, s', al') \<Longrightarrow> alloc_later al al'"
  by (auto simp: handle_signal_def handlers bind_eq_Some_conv Let_def dest: trace_jump_later save_caller_later
      restore_caller_alloc split: option.splits client_event.splits if_split_asm)

lemma frames_alloc:
  "write_monitor_answer w e = (w', e') \<Longrightarrow> w_alloc w' = w_alloc w"
  "MONITOR_SIGNAL_TIMEOUT opts w e = (w', e') \<Longrightarrow> w_alloc w' = w_alloc w"
  "read_signal s w = (s', w') \<Longrightarrow> w_alloc w' = w_alloc w"
  "answer_and_wait opts s w = (s', w') \<Longrightarrow> w_alloc w' = w_alloc w"
  by (auto simp: write_monitor_answer_def MONITOR_SIGNAL_TIMEOUT_def read_signal_def read_client_signal_def
      answer_and_wait_def split: prod.splits if_split_asm)

lemma run_loop_later:
  "run_loop opts data s w = Some (s', w') \<Longrightarrow> alloc_later (w_alloc w) (w_alloc w')"
proof (induction opts data s w rule: run_loop.induct)
  case (1 opts data s w)
  obtain j s1 al where h: "handle_signal opts data s (w_alloc w) = Some (j, s1, al)"
    using "1.prems" by (auto simp: run_loop.simps split: option.splits)
  note later = handle_signal_later [OF h]
  show ?case
  proof (cases j)
    case Break
    obtain s2 w2 where a: "answer_and_wait opts s1 (w\<lparr>w_alloc := al\<rparr>) = (s2, w2)" by fastforce
    obtain s3 w3 where r: "read_signal s2 w2 = (s3, w3)" by fastforce
    have w3: "w_alloc w2 = al" "w_alloc w3 = al" using frames_alloc(4) [OF a] frames_alloc(3) [OF r] by simp_all
    show ?thesis
    proof (cases "error s2 = 0")
      case True
      then have "run_loop opts data s3 w3 = Some (s', w')"
        using "1.prems" h Break a r by (simp add: run_loop.simps [of opts data s w])
      then have "alloc_later (w_alloc w3) (w_alloc w')" using "1.IH" h Break a r True by simp
      then show ?thesis using alloc_later_trans [OF later] w3 by simp
    next
      case False
      then show ?thesis using "1.prems" h Break a w3 later by (simp add: run_loop.simps [of opts data s w])
    qed
  next
    case Goto_exit
    with "1.prems" h later show ?thesis by (auto simp: run_loop.simps [of opts data s w])
  next
    case Answer_and_exit
    with "1.prems" h later show ?thesis
      by (auto simp: run_loop.simps [of opts data s w] dest!: frames_alloc(1) split: prod.splits)
  qed
qed

lemma stack_init_later: "stack_init ext z al s = (e, s', al') \<Longrightarrow> alloc_later al al'"
  by (auto simp: stack_init_def alloc_later_rest Let_def split: prod.splits ptr.splits)

lemma exit_later:
  assumes "monitor_run_exit opts s w = Some (e, w')"
  shows "alloc_later (w_alloc w) (w_alloc w')"
proof -
  have "yields (\<lambda>(s', al'). alloc_later (w_alloc w) al') (log_failure opts s (w_alloc w))"
    unfolding log_failure_def by (intro vc) (auto dest!: push_later intro: alloc_later_trans)
  with assms show ?thesis by (auto simp: monitor_run_exit_def bind_eq_Some_conv dest: yieldsD)
qed

lemma monitor_run_later:
  assumes "monitor_run opts g data w = Some (e, w')"
  shows "alloc_later (w_alloc w) (w_alloc w')"
proof -
  have "yields (\<lambda>(e, w'). alloc_later (w_alloc w) (w_alloc w')) (monitor_run opts g data w)"
    unfolding monitor_run_def call_stack_init_def block_stack_init_def
    by (intro vc)
      (auto simp: yields_def dest!: stack_init_later frames_alloc(2,3) run_loop_later exit_later,
       (metis alloc_later_trans)+)
  from yieldsD [OF this assms] show ?thesis by simp
qed

section \<open>Modules\<close>

lemma run_inits_later:
  "run_inits opts g data n w = Some (e, w') \<Longrightarrow> alloc_later (w_alloc w) (w_alloc w')"
proof (induction n arbitrary: w)
  case (Suc n)
  obtain e1 w1 where 1: "monitor_run opts g data w = Some (e1, w1)"
    using Suc.prems by (auto simp: bind_eq_Some_conv)
  note later = monitor_run_later [OF 1]
  show ?case
    using Suc.prems 1 later Suc.IH [of w1] alloc_later_trans [OF later, of "w_alloc w'"] by (auto split: if_splits)
qed simp

lemma wf_empty_module [simp]: "wf_module empty_module"
  by (simp add: wf_module_def empty_module_def)

definition module_list :: "monitor_data \<Rightarrow> module_data list" where
  "module_list mon = (case modules mon of None \<Rightarrow> [] | Some ms \<Rightarrow> ms)"

lemma wf_module_list: "wf_modules mon \<Longrightarrow> length (module_list mon) = unat (nb_modules mon)"
  by (auto simp: wf_modules_def module_list_def split: option.splits)

lemma add_module_ok:
  assumes "wf_modules mon" "add_module mon w = Some (e, mon', w')"
  shows "alloc_later (w_alloc w) (w_alloc w') \<and>
    (if w_alloc w 0 = Alloc_Fail then e = 10
     else nb_modules mon' = nb_modules mon + 1 \<and> nb_modules mon' \<noteq> 0 \<and>
       modules mon' = Some (module_list mon @ [empty_module]))"
proof -
  let ?n = "nb_modules mon + 1" and ?old = "module_list mon"
  have old: "(if nb_modules mon \<noteq> 0 then (?n, case modules mon of None \<Rightarrow> [] | Some ms \<Rightarrow> ms) else (1, [])) = (?n, ?old)"
    using wf_module_list [OF assms(1)] unfolding module_list_def [symmetric] by auto
  have w': "alloc_later (w_alloc w) (w_alloc w')"
    using assms(2) by (auto simp: add_module_def next_alloc_def write_module_id_def bind_eq_Some_conv Let_def
        alloc_later_rest split: prod.splits if_splits)
  show ?thesis
  proof (cases "w_alloc w 0 = Alloc_Fail")
    case True
    with assms(2) w' show ?thesis by (auto simp: add_module_def next_alloc_def Let_def split: if_splits)
  next
    case False
    let ?ms = "take (unat ?n) ?old @ replicate (unat ?n - length ?old) empty_module"
    have set_last: "arr_set (Some ?ms) (unat (?n - 1)) empty_module = Some (modules mon')"
      and nb: "nb_modules mon' = ?n"
      using assms(2) False
      by (auto simp: add_module_def old next_alloc_def bind_eq_Some_conv Let_def split_beta simp del: arr_set_simps)
    have nz: "?n \<noteq> 0"
    proof
      assume "?n = 0"
      with set_last show False by simp
    qed
    then have "unat ?n = Suc (unat (nb_modules mon))" by (metis add.commute unatSuc)
    then have "?ms = ?old @ [empty_module]"
      using wf_module_list [OF assms(1)] by simp
    then have "modules mon' = Some (?old @ [empty_module])"
      using set_last wf_module_list [OF assms(1)] by (auto simp: list_update_append split: if_splits)
    with False w' nb nz show ?thesis by simp
  qed
qed

lemma add_module_wf:
  assumes "wf_modules mon" "add_module mon w = Some (e, mon', w')"
  shows "alloc_later (w_alloc w) (w_alloc w') \<and> (sound_load (w_alloc w) e \<longrightarrow> wf_modules mon')"
proof -
  have "wf_modules mon'" if "w_alloc w 0 \<noteq> Alloc_Fail"
  proof -
    have m: "nb_modules mon' = nb_modules mon + 1" "nb_modules mon' \<noteq> 0"
        "modules mon' = Some (module_list mon @ [empty_module])"
      using add_module_ok [OF assms] that by auto
    then have "unat (nb_modules mon') = Suc (unat (nb_modules mon))" by (metis add.commute unatSuc)
    moreover have "\<forall>md \<in> set (module_list mon). wf_module md"
      using assms(1) by (auto simp: wf_modules_def module_list_def split: option.splits)
    ultimately show ?thesis using m(3) wf_module_list [OF assms(1)] by (auto simp: wf_modules_def)
  qed
  moreover have "w_alloc w 0 \<noteq> Alloc_Fail" if "sound_load (w_alloc w) e"
    using that add_module_ok [OF assms] by (auto simp: sound_load_def split: if_splits) (metis rangeI)
  ultimately show ?thesis using add_module_ok [OF assms] by simp
qed

lemma monitor_load_module_wf:
  assumes wf: "wf_modules mon" and run: "monitor_load_module opts gp mon w = Some (e, mon', w')"
  shows "alloc_later (w_alloc w) (w_alloc w') \<and> (e \<noteq> -1 \<or> Alloc_Fail \<notin> range (w_alloc w) \<longrightarrow> wf_modules mon')"
proof -
  obtain w1 pkt1 e1 where r: "read_loading_packet w (gp\<lparr>lp_size := 0, lp_value := Buf_NULL\<rparr>) 0 = (w1, pkt1, e1)"
    by (metis prod_cases3)
  note l1 = read_loading_alloc [OF r]
  obtain e2 t mon2 w2 where b: "(if e1 \<noteq> 0 then Some (e1, False, mon, w1) else begin_module pkt1 mon w1) = Some (e2, t, mon2, w2)"
    and p: "do { (err, pkt, mon, w) \<leftarrow>
       (if e2 = 0 \<and> \<not> t then load_packets opts (unat (nb_modules mon2 - 1)) pkt1 mon2 w2
        else Some (e2, pkt1, mon2, w2));
     _ \<leftarrow> FREE_LOADING_PACKET pkt;
     Some (if t then 1 else if err \<noteq> 0 then -1 else 0, mon, w) } = Some (e, mon', w')"
    using run r by (auto simp: monitor_load_module_def bind_eq_Some_conv)
  have 2: "alloc_later (w_alloc w) (w_alloc w2) \<and> (t \<longrightarrow> e2 = 0) \<and> (sound_load (w_alloc w) e2 \<longrightarrow> wf_modules mon2)"
  proof (cases "e1 = 0 \<and> loading_event_of (lp_event pkt1) = Some CFI_LOADING_MODULE_BEGIN")
    case True
    then have t: "\<not> t" and add: "add_module mon w1 = Some (e2, mon2, w2)"
      using b by (auto simp: begin_module_def bind_eq_Some_conv)
    then show ?thesis
      using add_module_wf [OF wf add] alloc_later_trans [OF l1, of "w_alloc w2"] sound_load_later [OF l1, of e2] by simp
  next
    case False
    then show ?thesis
      using b wf l1 by (auto simp: begin_module_def split: if_splits option.splits loading_event.splits)
  qed
  show ?thesis
  proof (cases "e2 = 0 \<and> \<not> t")
    case True
    then obtain err pkt where lp: "load_packets opts (unat (nb_modules mon2 - 1)) pkt1 mon2 w2 = Some (err, pkt, mon', w')"
      and e: "e = (if err \<noteq> 0 then -1 else 0)"
      using p by (auto simp: bind_eq_Some_conv)
    have "wf_modules mon2" using 2 True by (simp add: sound_load_def)
    note l = load_packets_wf [OF lp this]
    have "sound_load (w_alloc w2) err" if "e \<noteq> -1 \<or> Alloc_Fail \<notin> range (w_alloc w)"
      using that e 2 sound_load_later [of "w_alloc w" "w_alloc w2" err] by (auto simp: sound_load_def split: if_splits)
    then show ?thesis using l 2 alloc_later_trans [of "w_alloc w" "w_alloc w2" "w_alloc w'"] by simp
  next
    case False
    then have "mon' = mon2" "w' = w2" "e = (if t then 1 else -1)"
      using p by (auto simp: bind_eq_Some_conv split: if_splits)
    with 2 show ?thesis by (auto simp: sound_load_def split: if_splits)
  qed
qed

section \<open>Relocations\<close>

text \<open>Relocation changes no table but the relocations: the functions, names and graphs stay.\<close>

definition skeleton :: "monitor_data \<Rightarrow> monitor_data" where
  "skeleton data = data\<lparr>modules := map_option (map (\<lambda>md. md\<lparr>relocations := None\<rparr>)) (modules data)\<rparr>"

lemma set_relocation_ok:
  assumes "wf_modules data" "set_relocation data mid j kl = Some data'"
  shows "wf_modules data' \<and> skeleton data' = skeleton data"
proof -
  obtain k l where kl: "kl = (k, l)" by (cases kl)
  obtain md rs ms where md: "arr_get (modules data) (unat mid) = Some md"
    and rs: "arr_set (relocations md) j (MODULE_FUNCTION (of_nat k) (of_nat l)) = Some rs"
    and ms: "arr_set (modules data) (unat mid) (md\<lparr>relocations := rs\<rparr>) = Some ms" and d: "data' = data\<lparr>modules := ms\<rparr>"
    using assms(2) by (auto simp: set_relocation_def kl bind_eq_Some_conv simp del: arr_set_simps arr_get_simps)
  obtain xs where xs: "relocations md = Some xs" "rs = Some (xs[j := MODULE_FUNCTION (of_nat k) (of_nat l)])"
    using rs by (auto dest: arr_set_SomeD)
  have "wf_module (md\<lparr>relocations := rs\<rparr>)"
    using wf_modules_get [OF assms(1) md] xs by (auto simp: wf_module_def split: option.splits)
  then have "wf_modules data'" unfolding d by (rule wf_modules_update [OF assms(1) ms])
  moreover have "(map f xs)[i := f (xs ! i)] = map f xs" for f :: "module_data \<Rightarrow> module_data" and xs i
    by (metis list_update_id map_update)
  then have "skeleton data' = skeleton data"
    using md ms by (auto simp: d skeleton_def map_update dest!: arr_get_SomeD arr_set_SomeD)
  ultimately show ?thesis ..
qed

lemma relocate_wf:
  assumes "relocate mid fatal j n data = Some (e, data')" "wf_modules data"
  shows "wf_modules data' \<and> skeleton data' = skeleton data"
  using assms
proof (induction n arbitrary: j data)
  case (Suc n)
  have "wf_modules data' \<and> skeleton data' = skeleton data"
    if "relocate mid fatal (Suc j) n d = Some (e, data')" "set_relocation data mid j kl = Some d" for d kl
    using that set_relocation_ok [OF Suc.prems(2) that(2)] Suc.IH [OF that(1)] by auto
  then show ?case
    using Suc.prems Suc.IH [of "Suc j" data]
    by (auto simp: bind_eq_Some_conv split: if_split_asm option.splits)
qed auto

section \<open>Loading leaves the client's pipes alone\<close>

definition same_client :: "world \<Rightarrow> world \<Rightarrow> bool" where
  "same_client w w' \<longleftrightarrow> client_to_monitor w' = client_to_monitor w \<and> monitor_to_client w' = monitor_to_client w \<and>
     w_select w' = w_select w \<and> (w_write w = (\<lambda>_. True) \<longrightarrow> w_write w' = (\<lambda>_. True))"

lemma same_client_refl [simp]: "same_client w w"
  by (simp add: same_client_def)

lemma same_client_trans: "same_client w w1 \<Longrightarrow> same_client w1 w2 \<Longrightarrow> same_client w w2"
  by (simp add: same_client_def)

lemma read_loading_client: "read_loading_packet w pkt e = (w', pkt', e') \<Longrightarrow> same_client w w'"
  by (auto simp: read_loading_packet_def same_client_def Let_def split: prod.splits)

lemma receive_section_client: "receive_section opts idx pkt mon w = Some (e, mon', w') \<Longrightarrow> same_client w w'"
  by (auto simp: receive_section_def bind_eq_Some_conv same_client_def)

lemma load_packets_client:
  assumes "load_packets opts idx pkt mon w = Some (e, pkt', mon', w')"
  shows "same_client w w'"
  by (rule load_packets_rule [OF assms, of "\<lambda>_ _. same_client w" "\<lambda>_ _ _. same_client w"])
    (auto dest: read_loading_client receive_section_client intro: same_client_trans)

lemma add_module_client: "add_module mon w = Some (e, mon', w') \<Longrightarrow> same_client w w'"
  by (auto simp: add_module_def next_alloc_def write_module_id_def bind_eq_Some_conv Let_def same_client_def
      split: prod.splits if_splits)

lemma monitor_load_module_client:
  assumes "monitor_load_module opts gp mon w = Some (e, mon', w')"
  shows "same_client w w'"
proof -
  obtain w1 pkt1 e1 where r: "read_loading_packet w (gp\<lparr>lp_size := 0, lp_value := Buf_NULL\<rparr>) 0 = (w1, pkt1, e1)"
    by (metis prod_cases3)
  note 1 = read_loading_client [OF r]
  have b: "same_client w1 w2" if "begin_module pkt1 mon w1 = Some (e2, t, mon2, w2)" for e2 t mon2 w2
    using that by (auto simp: begin_module_def bind_eq_Some_conv dest: add_module_client split: option.splits loading_event.splits)
  have "yields (\<lambda>(e, mon', w'). same_client w1 w') (monitor_load_module opts gp mon w)"
    unfolding monitor_load_module_def r
    by (intro vc) (auto dest!: b load_packets_client intro: same_client_trans split: if_split_asm)
  from yieldsD [OF this assms] show ?thesis using same_client_trans [OF 1] by simp
qed

end
