(* ===== verification/Relocation.thy ===== *)
theory Relocation
  imports Load_Tables
begin

text \<open>
  What the relocation passes of \<open>monitor/src/monitor_load.c\<close> compute: an external function
  stands for the function of the same name in the highest other module, and in it for the first
  one; the final pass links every external function or reports an error.
\<close>

section \<open>The function an external name stands for\<close>

definition exports :: "module_data \<Rightarrow> function_data \<Rightarrow> nat \<Rightarrow> bool" where
  "exports md fj l \<longleftrightarrow>
     l < unat (nb_functions md) \<and>
     (case arr_get (md_functions md) l of None \<Rightarrow> False
      | Some fl \<Rightarrow> \<not> FUNCTION_IS_EXTERNAL fl \<and> fd_name fl \<noteq> None \<and> fd_name fl = fd_name fj)"

definition provides :: "monitor_data \<Rightarrow> module_id \<Rightarrow> function_data \<Rightarrow> nat \<Rightarrow> nat \<Rightarrow> bool" where
  "provides data mid fj k l \<longleftrightarrow>
     k \<noteq> unat mid \<and> (case arr_get (modules data) k of None \<Rightarrow> False | Some md \<Rightarrow> exports md fj l)"

text \<open>The function of the highest module, and in it the first one.\<close>

definition chosen :: "monitor_data \<Rightarrow> module_id \<Rightarrow> function_data \<Rightarrow> nat \<Rightarrow> nat \<Rightarrow> bool" where
  "chosen data mid fj k l \<longleftrightarrow> provides data mid fj k l \<and>
     (\<forall>k' l'. provides data mid fj k' l' \<longrightarrow> k' < k \<or> k' = k \<and> l \<le> l')"

lemma find_local_spec:
  assumes "find_local fj mk l n = Some r" "l + n = unat (nb_functions mk)"
  shows "case r of None \<Rightarrow> \<forall>i \<ge> l. \<not> exports mk fj i
    | Some i \<Rightarrow> l \<le> i \<and> exports mk fj i \<and> (\<forall>i' \<ge> l. exports mk fj i' \<longrightarrow> i \<le> i')"
  using assms
proof (induction n arbitrary: l)
  case 0
  then show ?case by (auto simp: exports_def)
next
  case (Suc n)
  obtain fl where fl: "arr_get (md_functions mk) l = Some fl"
    using Suc.prems(1) by (cases "arr_get (md_functions mk) l") simp_all
  obtain found where found: "(if FUNCTION_IS_EXTERNAL fl then Some False else same_name fj fl) = Some found"
    using Suc.prems(1) fl by (cases "if FUNCTION_IS_EXTERNAL fl then Some False else same_name fj fl") auto
  have here: "exports mk fj l \<longleftrightarrow> found"
    using found fl Suc.prems(2) by (auto simp: exports_def same_name_def bind_eq_Some_conv split: if_splits)
  show ?case
  proof (cases found)
    case True
    then show ?thesis using Suc.prems(1) fl found here by auto
  next
    case False
    then have rest: "find_local fj mk (Suc l) n = Some r" using Suc.prems(1) fl found by simp
    have past: "Suc l \<le> i" if "l \<le> i" "exports mk fj i" for i
      using that here False by (cases "i = l") auto
    have ih: "case r of None \<Rightarrow> \<forall>i \<ge> Suc l. \<not> exports mk fj i
        | Some i \<Rightarrow> Suc l \<le> i \<and> exports mk fj i \<and> (\<forall>i' \<ge> Suc l. exports mk fj i' \<longrightarrow> i \<le> i')"
      using Suc.IH [OF rest] Suc.prems(2) by simp
    show ?thesis
    proof (cases r)
      case None
      with ih past show ?thesis unfolding None option.case by blast
    next
      case (Some i)
      from ih have i: "Suc l \<le> i" "exports mk fj i" "\<forall>i' \<ge> Suc l. exports mk fj i' \<longrightarrow> i \<le> i'"
        unfolding Some option.case by blast+
      then show ?thesis unfolding Some option.case using past Suc_leD by blast
    qed
  qed
qed

lemma find_module_spec:
  assumes "find_module data mid fj n = Some r"
  shows "case r of None \<Rightarrow> \<forall>k < n. \<forall>l. \<not> provides data mid fj k l
    | Some (k, l) \<Rightarrow> k < n \<and> provides data mid fj k l \<and>
        (\<forall>k' < n. \<forall>l'. provides data mid fj k' l' \<longrightarrow> k' < k \<or> k' = k \<and> l \<le> l')"
  using assms
proof (induction n)
  case (Suc n)
  obtain mk where mk: "arr_get (modules data) n = Some mk"
    using Suc.prems by (cases "arr_get (modules data) n") simp_all
  obtain r1 where r1: "(if unat mid \<noteq> n then find_local fj mk 0 (unat (nb_functions mk)) else Some None) = Some r1"
    using Suc.prems mk by (cases "if unat mid \<noteq> n then find_local fj mk 0 (unat (nb_functions mk)) else Some None") auto
  have here: "case r1 of None \<Rightarrow> \<forall>l. \<not> provides data mid fj n l
      | Some l \<Rightarrow> provides data mid fj n l \<and> (\<forall>l'. provides data mid fj n l' \<longrightarrow> l \<le> l')"
    using r1 mk find_local_spec [of fj mk 0 "unat (nb_functions mk)" r1]
    by (auto simp: provides_def split: if_splits option.splits)
  show ?case
  proof (cases r1)
    case None
    then have rest: "find_module data mid fj n = Some r" using Suc.prems mk r1 by simp
    show ?thesis using Suc.IH [OF rest] here None by (auto simp: less_Suc_eq split: option.splits)
  next
    case (Some l)
    then have "r = Some (n, l)" using Suc.prems mk r1 by simp
    then show ?thesis using here Some by (auto simp: less_Suc_eq)
  qed
qed simp

lemma resolve_spec:
  assumes wf: "wf_modules data" and small: "unat (nb_modules data) \<le> 2 ^ 31" and r: "resolve data mid fj = Some r"
  shows "case r of None \<Rightarrow> \<forall>k l. \<not> provides data mid fj k l | Some (k, l) \<Rightarrow> chosen data mid fj k l"
proof -
  have n: "nat (sint (nb_modules data - 1) + 1) = unat (nb_modules data)"
  proof (cases "nb_modules data = 0")
    case False
    then have u: "unat (nb_modules data - 1) = unat (nb_modules data) - 1" "0 < unat (nb_modules data)"
      by (simp_all add: unat_minus_one unat_gt_0)
    have v: "uint (nb_modules data - 1) = int (unat (nb_modules data) - 1)"
      by (simp only: uint_nat u(1))
    have "unat (nb_modules data) - 1 < 2 ^ 31" using small u(2) by linarith
    then have "int (unat (nb_modules data) - 1) < 2 ^ 31" by (metis of_nat_less_iff of_nat_numeral of_nat_power)
    then have "uint (nb_modules data - 1) < 2 ^ 31" unfolding v .
    then have "signed_take_bit 31 (uint (nb_modules data - 1)) = uint (nb_modules data - 1)"
      using uint_ge_0 [of "nb_modules data - 1"] by (intro signed_take_bit_int_eq_self) linarith+
    then have "sint (nb_modules data - 1) = int (unat (nb_modules data) - 1)"
      using v by (simp add: sint_uint)
    with u(2) show ?thesis by simp
  qed simp
  have "k < unat (nb_modules data)" if "provides data mid fj k l" for k l
    using that wf by (auto simp: provides_def wf_modules_def split: option.splits if_splits)
  then show ?thesis
    using find_module_spec [of data mid fj "unat (nb_modules data)" r] r
    by (auto simp: resolve_def n chosen_def split: option.splits)
qed

section \<open>What a relocation pass leaves\<close>

definition fun_at :: "monitor_data \<Rightarrow> nat \<Rightarrow> nat \<Rightarrow> function_data option" where
  "fun_at data m j = do { md \<leftarrow> arr_get (modules data) m; arr_get (md_functions md) j }"

definition rel_at :: "monitor_data \<Rightarrow> nat \<Rightarrow> nat \<Rightarrow> module_function_ids option" where
  "rel_at data m j = do { md \<leftarrow> arr_get (modules data) m; arr_get (relocations md) j }"

text \<open>Function \<open>j\<close> of module \<open>mid\<close> is not external, or relocated to the one it stands for.\<close>

definition linked :: "monitor_data \<Rightarrow> module_id \<Rightarrow> nat \<Rightarrow> bool" where
  "linked data mid j \<longleftrightarrow>
     (\<forall>fj. fun_at data (unat mid) j = Some fj \<longrightarrow> FUNCTION_IS_EXTERNAL fj \<longrightarrow>
        (\<exists>k l. chosen data mid fj k l \<and>
           rel_at data (unat mid) j = Some (MODULE_FUNCTION (of_nat k) (of_nat l))))"

definition unresolved :: "monitor_data \<Rightarrow> module_id \<Rightarrow> nat \<Rightarrow> bool" where
  "unresolved data mid j \<longleftrightarrow>
     (\<exists>fj. fun_at data (unat mid) j = Some fj \<and> FUNCTION_IS_EXTERNAL fj \<and> (\<forall>k l. \<not> provides data mid fj k l))"

lemma fun_at_skeleton [simp]: "fun_at (skeleton data) = fun_at data"
  by (intro ext) (auto simp: fun_at_def skeleton_def map_option_case split: option.splits)

lemma provides_skeleton [simp]: "provides (skeleton data) = provides data"
  by (intro ext) (auto simp: provides_def exports_def skeleton_def map_option_case split: option.splits)

lemma skeletonD:
  assumes "skeleton d = skeleton d'"
  shows "fun_at d = fun_at d'" "provides d = provides d'" "chosen d = chosen d'" "unresolved d = unresolved d'"
proof -
  show f: "fun_at d = fun_at d'" using assms by (metis fun_at_skeleton)
  show p: "provides d = provides d'" using assms by (metis provides_skeleton)
  show "chosen d = chosen d'" by (intro ext) (simp add: chosen_def p)
  show "unresolved d = unresolved d'" by (intro ext) (simp add: unresolved_def f p)
qed

lemma linked_frame:
  assumes "skeleton d = skeleton d'" "rel_at d (unat mid) j = rel_at d' (unat mid) j"
  shows "linked d mid j \<longleftrightarrow> linked d' mid j"
  unfolding linked_def skeletonD(1,3) [OF assms(1)] assms(2) ..

lemma set_relocation_at:
  assumes "set_relocation data mid j (k, l) = Some data'"
  shows "rel_at data' m i =
    (if m = unat mid \<and> i = j then Some (MODULE_FUNCTION (of_nat k) (of_nat l)) else rel_at data m i)"
proof -
  obtain md rs ms where md: "arr_get (modules data) (unat mid) = Some md"
    and rs: "arr_set (relocations md) j (MODULE_FUNCTION (of_nat k) (of_nat l)) = Some rs"
    and ms: "arr_set (modules data) (unat mid) (md\<lparr>relocations := rs\<rparr>) = Some ms" and d: "data' = data\<lparr>modules := ms\<rparr>"
    using assms by (auto simp: set_relocation_def bind_eq_Some_conv simp del: arr_set_simps arr_get_simps)
  obtain mds where mds: "modules data = Some mds" "ms = Some (mds[unat mid := md\<lparr>relocations := rs\<rparr>])" "unat mid < length mds"
    using ms by (auto dest: arr_set_SomeD)
  obtain xs where xs: "relocations md = Some xs" "rs = Some (xs[j := MODULE_FUNCTION (of_nat k) (of_nat l)])" "j < length xs"
    using rs by (auto dest: arr_set_SomeD)
  show ?thesis
    using md mds xs by (auto simp: rel_at_def d nth_list_update split: if_splits)
qed

lemma relocate_links:
  assumes "relocate mid True j n data = Some (e, data')" "wf_modules data" "unat (nb_modules data) \<le> 2 ^ 31"
  shows "(if e = 0 then \<forall>i. j \<le> i \<and> i < j + n \<longrightarrow> linked data' mid i
      else e = 1 \<and> (\<exists>i. j \<le> i \<and> i < j + n \<and> unresolved data mid i)) \<and>
    (\<forall>m i. m \<noteq> unat mid \<or> i < j \<longrightarrow> rel_at data' m i = rel_at data m i)"
  using assms
proof (induction n arbitrary: j data)
  case (Suc n)
  obtain md fj where md: "arr_get (modules data) (unat mid) = Some md" and fj: "arr_get (md_functions md) j = Some fj"
    using Suc.prems(1) by (auto simp: bind_eq_Some_conv)
  have at: "fun_at data (unat mid) j = Some fj" using md fj by (simp add: fun_at_def)
  have next_step: ?case
    if d: "relocate mid True (Suc j) n d = Some (e, data')" "wf_modules d" "skeleton d = skeleton data"
      "\<And>m i. m \<noteq> unat mid \<or> i < j \<Longrightarrow> rel_at d m i = rel_at data m i" and l: "linked d mid j" for d
  proof -
    have "nb_modules (skeleton d) = nb_modules (skeleton data)" using d(3) by simp
    then have "unat (nb_modules d) \<le> 2 ^ 31" using Suc.prems(3) by (simp add: skeleton_def)
    note ih = Suc.IH [OF d(1,2) this]
    have "skeleton data' = skeleton d" using relocate_wf [OF d(1,2)] by simp
    then have "linked data' mid j" using l ih linked_frame [of data' d mid j] by simp
    then have "linked data' mid i" if "\<forall>i. Suc j \<le> i \<and> i < Suc j + n \<longrightarrow> linked data' mid i" "j \<le> i" "i < j + Suc n" for i
      using that by (cases "i = j") auto
    moreover have "unresolved data mid i" if "unresolved d mid i" for i
      using that by (simp add: skeletonD(4) [OF d(3)])
    ultimately show ?thesis using ih d(4) by (auto split: if_splits intro: Suc_leD)
  qed
  show ?case
  proof (cases "FUNCTION_IS_EXTERNAL fj")
    case False
    then have "relocate mid True (Suc j) n data = Some (e, data')" using Suc.prems(1) md fj by simp
    moreover have "linked data mid j" using False at by (simp add: linked_def)
    ultimately show ?thesis by (intro next_step [of data] Suc.prems(2)) simp_all
  next
    case True
    then obtain r where r: "resolve data mid fj = Some r" using Suc.prems(1) md fj by (auto simp: bind_eq_Some_conv)
    note spec = resolve_spec [OF Suc.prems(2,3) r]
    show ?thesis
    proof (cases r)
      case None
      then have "unresolved data mid j" using spec True at by (auto simp: unresolved_def)
      then show ?thesis using Suc.prems(1) md fj True r None by auto
    next
      case (Some kl)
      obtain k l where kl: "kl = (k, l)" by (cases kl)
      obtain d where d: "set_relocation data mid j (k, l) = Some d" "relocate mid True (Suc j) n d = Some (e, data')"
        using Suc.prems(1) md fj True r Some kl by (auto simp: bind_eq_Some_conv)
      have sk: "wf_modules d" "skeleton d = skeleton data" using set_relocation_ok [OF Suc.prems(2) d(1)] by simp_all
      have "chosen data mid fj k l" using spec by (simp add: Some kl)
      then have "linked d mid j"
        unfolding linked_def skeletonD(1,3) [OF sk(2)] at using set_relocation_at [OF d(1), of "unat mid" j] by auto
      then show ?thesis
        by (intro next_step [OF d(2) sk]) (auto simp: set_relocation_at [OF d(1)])
    qed
  qed
qed auto

lemma relocate_all_ok:
  assumes "relocate_all i n data = Some (e, data')" "wf_modules data"
  shows "wf_modules data' \<and> skeleton data' = skeleton data"
  using assms
proof (induction n arbitrary: i data)
  case (Suc n)
  obtain e1 d where d: "compute_relocations_of_module data (of_nat i) True = Some (e1, d)"
    using Suc.prems(1) by (auto simp: bind_eq_Some_conv)
  then have "wf_modules d \<and> skeleton d = skeleton data"
    using Suc.prems(2) by (auto simp: compute_relocations_of_module_def bind_eq_Some_conv dest: relocate_wf)
  then show ?case using Suc.IH [of "Suc i" d] Suc.prems(1) d by (auto split: if_splits)
qed auto

lemma compute_relocations_links:
  assumes run: "compute_relocations_of_module data mid True = Some (e, data')"
    and wf: "wf_modules data" and small: "unat (nb_modules data) \<le> 2 ^ 31"
    and md: "arr_get (modules data) (unat mid) = Some md"
  shows "(if e = 0 then \<forall>i < unat (nb_functions md). linked data' mid i
      else e = 1 \<and> (\<exists>i < unat (nb_functions md). unresolved data mid i)) \<and>
    (\<forall>m i. m \<noteq> unat mid \<longrightarrow> rel_at data' m i = rel_at data m i)"
  using relocate_links [of mid 0 "unat (nb_functions md)" data e data'] run wf small md
  by (auto simp: compute_relocations_of_module_def)

definition module_linked :: "monitor_data \<Rightarrow> nat \<Rightarrow> bool" where
  "module_linked data m \<longleftrightarrow>
     (\<forall>md. arr_get (modules data) m = Some md \<longrightarrow> (\<forall>i < unat (nb_functions md). linked data (of_nat m) i))"

lemma skeleton_nb_functions:
  assumes "skeleton d = skeleton d'" "arr_get (modules d) m = Some md"
  shows "\<exists>md'. arr_get (modules d') m = Some md' \<and> nb_functions md' = nb_functions md"
proof -
  have nb: "map_option nb_functions (arr_get (modules (skeleton x)) m) = map_option nb_functions (arr_get (modules x) m)" for x
    by (auto simp: skeleton_def map_option_case split: option.splits)
  have "map_option nb_functions (arr_get (modules d') m) = Some (nb_functions md)"
    using nb [of d] nb [of d'] assms by simp
  then show ?thesis by auto
qed

lemma module_linked_frame:
  assumes "skeleton d = skeleton d'" "\<And>i. rel_at d m i = rel_at d' m i" "m < 2 ^ 16" "module_linked d' m"
  shows "module_linked d m"
proof -
  have "unat (of_nat m :: module_id) = m" using assms(3) by (simp add: unat_of_nat take_bit_nat_eq_self)
  then have "linked d (of_nat m) i \<longleftrightarrow> linked d' (of_nat m) i" for i
    using linked_frame [OF assms(1), of "of_nat m" i] assms(2) by simp
  then show ?thesis
    using assms(4) skeleton_nb_functions [OF assms(1), of m] unfolding module_linked_def by metis
qed

lemma relocate_all_links:
  assumes "relocate_all i n data = Some (e, data')" "wf_modules data" "unat (nb_modules data) \<le> 2 ^ 31"
    "i + n \<le> 2 ^ 16"
  shows "(if e = 0 then \<forall>m. i \<le> m \<and> m < i + n \<longrightarrow> module_linked data' m
      else e = 1 \<and> (\<exists>m j. i \<le> m \<and> m < i + n \<and> unresolved data (of_nat m) j)) \<and>
    (\<forall>m j. m < i \<longrightarrow> rel_at data' m j = rel_at data m j)"
  using assms
proof (induction n arbitrary: i data)
  case (Suc n)
  obtain e1 d where d: "compute_relocations_of_module data (of_nat i) True = Some (e1, d)"
    using Suc.prems(1) by (auto simp: bind_eq_Some_conv)
  have i: "unat (of_nat i :: module_id) = i" using Suc.prems(4) by (simp add: unat_of_nat take_bit_nat_eq_self)
  obtain md where md: "arr_get (modules data) i = Some md"
    using d i by (auto simp: compute_relocations_of_module_def bind_eq_Some_conv)
  have sk: "wf_modules d" "skeleton d = skeleton data"
    using d Suc.prems(2) by (auto simp: compute_relocations_of_module_def bind_eq_Some_conv dest: relocate_wf)
  note here = compute_relocations_links [OF d Suc.prems(2,3), unfolded i, OF md]
  show ?case
  proof (cases "e1 = 0")
    case False
    then have "e = e1" "data' = d" using Suc.prems(1) d by auto
    moreover obtain j where "unresolved data (of_nat i) j" using here False by (auto split: if_splits)
    ultimately show ?thesis using here False by auto
  next
    case True
    then have rest: "relocate_all (Suc i) n d = Some (e, data')" using Suc.prems(1) d by simp
    have "nb_modules (skeleton d) = nb_modules (skeleton data)" using sk(2) by simp
    then have small: "unat (nb_modules d) \<le> 2 ^ 31" using Suc.prems(3) by (simp add: skeleton_def)
    note ih = Suc.IH [OF rest sk(1) small]
    have "module_linked d i"
      unfolding module_linked_def using here True skeleton_nb_functions [OF sk(2), of i] md by force
    then have "module_linked data' i"
      using ih Suc.prems(4) relocate_all_ok [OF rest sk(1)] by (intro module_linked_frame [of data' d]) simp_all
    then have "module_linked data' m" if "\<forall>m. Suc i \<le> m \<and> m < Suc i + n \<longrightarrow> module_linked data' m" "i \<le> m" "m < i + Suc n" for m
      using that by (cases "m = i") auto
    moreover have "unresolved data = unresolved d" by (rule skeletonD(4) [OF sk(2) [symmetric]])
    moreover have "rel_at d m j = rel_at data m j" if "m < i" for m j using here that by simp
    ultimately show ?thesis using ih Suc.prems(4) by (auto split: if_splits intro: Suc_leD)
  qed
qed auto

end
