(* ===== verification/Cfi_Spec.thy ===== *)
theory Cfi_Spec
  imports Monitor_Run
begin

text \<open>
  What the monitor is for, without its stacks and its memory: the loaded graphs define which
  control-flow events a program may produce, as a pushdown system over (module, function,
  block) positions. A path of this system that ends with the exit of its entry point is
  also described by a grammar, in which calls and returns nest. The two descriptions are
  shown equal here; that the monitor implements the first is shown in \<open>Cfi_Refinement\<close>.
\<close>

section \<open>The policy read off the tables\<close>

definition cfg_edge :: "monitor_data \<Rightarrow> module_id \<Rightarrow> function_id \<Rightarrow> block_id \<Rightarrow> block_id \<Rightarrow> bool" where
  "cfg_edge data m f b b' \<longleftrightarrow>
     (case function_at data (Some (unat m, unat f)) of
        None \<Rightarrow> False
      | Some fd \<Rightarrow> b' < nb_blocks fd \<and>
          (case graph_at (control_flow_graph fd) b b' of None \<Rightarrow> False | Some e \<Rightarrow> e \<noteq> 0))"

definition call_edge :: "monitor_data \<Rightarrow> module_id \<Rightarrow> function_id \<Rightarrow> function_id \<Rightarrow> bool" where
  "call_edge data m f g \<longleftrightarrow>
     (case module_at data (Some (unat m)) of
        None \<Rightarrow> False
      | Some md \<Rightarrow> g < nb_functions md \<and>
          (case graph_at (call_graph md) f g of None \<Rightarrow> False | Some e \<Rightarrow> e \<noteq> 0))"

text \<open>The function a call of \<open>g\<close> from module \<open>m\<close> runs.\<close>

definition call_dest :: "monitor_data \<Rightarrow> module_id \<Rightarrow> function_id \<Rightarrow> (module_id \<times> function_id) option" where
  "call_dest data m g = do {
     md \<leftarrow> module_at data (Some (unat m));
     fd \<leftarrow> arr_get (md_functions md) (unat g);
     if FUNCTION_IS_EXTERNAL fd
     then do {
       r \<leftarrow> arr_get (relocations md) (unat g);
       Some (MODULE_FUNCTION_GET_MODULE r, MODULE_FUNCTION_GET_FUNCTION r)
     }
     else Some (m, g)
   }"

definition entry_point :: "monitor_data \<Rightarrow> module_id \<Rightarrow> function_id \<Rightarrow> bool" where
  "entry_point data m f \<longleftrightarrow>
     ucast m < nb_modules data \<and>
     (case module_at data (Some (unat m)) of
        None \<Rightarrow> False
      | Some md \<Rightarrow> f < nb_functions md \<and>
          (case arr_get (md_functions md) (unat f) of None \<Rightarrow> False | Some fd \<Rightarrow> FUNCTION_IS_ENTRYPOINT fd))"

section \<open>The pushdown system\<close>

type_synonym frame = "module_id \<times> function_id \<times> block_id"

datatype cfi = Cfi (phase: monitor_state_t) (pos: frame) (frames: "frame list")

definition is_event :: "client_event \<Rightarrow> client_signal \<Rightarrow> bool" where
  "is_event e c \<longleftrightarrow> client_event_of (sig_event c) = Some e"

definition at_function :: "client_event \<Rightarrow> module_id \<Rightarrow> function_id \<Rightarrow> client_signal \<Rightarrow> bool" where
  "at_function e m f c \<longleftrightarrow> is_event e c \<and> sig_module c = m \<and> sig_function c = f"

inductive cfi_step :: "monitor_data \<Rightarrow> cfi \<Rightarrow> client_signal \<Rightarrow> cfi \<Rightarrow> bool" for data where
  start: "at_function CFI_ENTER m f c \<Longrightarrow> entry_point data m f \<Longrightarrow>
    cfi_step data (Cfi SM_STATE_Ready p []) c (Cfi SM_STATE_InFunction (m, f, 0) [])"
| leave_block: "at_function CFI_BEFORE_JUMP m f c \<Longrightarrow> sig_block c = b \<Longrightarrow>
    cfi_step data (Cfi SM_STATE_InFunction (m, f, b) fs) c (Cfi SM_STATE_ExpectJump (m, f, b) fs)"
| reach_block: "at_function CFI_AFTER_JUMP m f c \<Longrightarrow> sig_block c = b' \<Longrightarrow> cfg_edge data m f b b' \<Longrightarrow>
    cfi_step data (Cfi SM_STATE_ExpectJump (m, f, b) fs) c (Cfi SM_STATE_InFunction (m, f, b') fs)"
| call: "is_event CFI_CALL c \<Longrightarrow> sig_function c = g \<Longrightarrow> call_edge data m f g \<Longrightarrow>
    call_dest data m g = Some (m', f') \<Longrightarrow>
    cfi_step data (Cfi SM_STATE_InFunction (m, f, b) fs) c
      (Cfi SM_STATE_ExpectCall (m', f', 0) ((m, f, b) # fs))"
| enter: "at_function CFI_ENTER m f c \<Longrightarrow>
    cfi_step data (Cfi SM_STATE_ExpectCall (m, f, 0) fs) c (Cfi SM_STATE_InFunction (m, f, 0) fs)"
| leave: "at_function CFI_EXIT m f c \<Longrightarrow>
    cfi_step data (Cfi SM_STATE_InFunction (m, f, b) (fr # fs)) c (Cfi SM_STATE_ExpectReturn fr fs)"
| returned: "is_event CFI_RETURNED c \<Longrightarrow> sig_function c = g \<Longrightarrow> call_edge data m f g \<Longrightarrow>
    cfi_step data (Cfi SM_STATE_ExpectReturn (m, f, b) fs) c (Cfi SM_STATE_InFunction (m, f, b) fs)"

text \<open>The run ends when the entry point itself exits.\<close>

inductive cfi_final :: "monitor_data \<Rightarrow> cfi \<Rightarrow> client_signal \<Rightarrow> bool" for data where
  finish: "at_function CFI_EXIT m f c \<Longrightarrow> entry_point data m f \<Longrightarrow>
    cfi_final data (Cfi SM_STATE_InFunction (m, f, b) []) c"

inductive_cases cfi_step_ReadyE: "cfi_step data (Cfi SM_STATE_Ready p fs) c x"
inductive_cases cfi_step_InE: "cfi_step data (Cfi SM_STATE_InFunction p fs) c x"
inductive_cases cfi_step_CallE: "cfi_step data (Cfi SM_STATE_ExpectCall p fs) c x"
inductive_cases cfi_step_RetE: "cfi_step data (Cfi SM_STATE_ExpectReturn p fs) c x"
inductive_cases cfi_step_JumpE: "cfi_step data (Cfi SM_STATE_ExpectJump p fs) c x"
inductive_cases cfi_finalE: "cfi_final data x c"

lemmas cfi_stepEs = cfi_step_ReadyE cfi_step_InE cfi_step_CallE cfi_step_RetE cfi_step_JumpE

text \<open>Events exclude each other, so the system is deterministic and a final exit is no step.\<close>

lemma is_event_unique: "is_event e c \<Longrightarrow> is_event e' c \<Longrightarrow> e = e'"
  by (simp add: is_event_def)

lemma cfi_step_deterministic:
  assumes "cfi_step data x c y" "cfi_step data x c z"
  shows "y = z"
  using assms
  by (induction rule: cfi_step.induct)
    (auto simp: at_function_def elim!: cfi_stepEs dest: is_event_unique)

lemma cfi_final_no_step: "cfi_final data x c \<Longrightarrow> \<not> cfi_step data x c y"
  by (auto simp: at_function_def elim!: cfi_finalE cfi_stepEs dest: is_event_unique)

text \<open>Paths, with a bound on the number of callers they ever keep.\<close>

inductive cfi_path :: "monitor_data \<Rightarrow> nat \<Rightarrow> cfi \<Rightarrow> client_signal list \<Rightarrow> cfi \<Rightarrow> bool" for data n where
  path_Nil: "length (frames x) \<le> n \<Longrightarrow> cfi_path data n x [] x"
| path_Cons: "length (frames x) \<le> n \<Longrightarrow> cfi_step data x c y \<Longrightarrow> cfi_path data n y cs z \<Longrightarrow>
    cfi_path data n x (c # cs) z"

inductive_cases cfi_path_NilE: "cfi_path data n x [] z"
inductive_cases cfi_path_ConsE: "cfi_path data n x (c # cs) z"

lemma cfi_path_append:
  assumes "cfi_path data n x us y" "cfi_path data n y vs z"
  shows "cfi_path data n x (us @ vs) z"
  using assms by (induction rule: cfi_path.induct) (auto intro: cfi_path.intros)

lemma cfi_path_mono:
  assumes "cfi_path data n x us y" "n \<le> k"
  shows "cfi_path data k x us y"
  using assms by (induction rule: cfi_path.induct) (auto intro: cfi_path.intros)

end
