(* ===== verification/Cfi_Grammar.thy ===== *)
theory Cfi_Grammar
  imports Cfi_Spec
begin

text \<open>
  The control flow the policy allows, as a grammar: a function activation is its entry, a
  sequence of jumps along its control-flow graph and of complete nested activations of
  functions it may call, and its exit. The complete paths of the pushdown system of
  \<open>Cfi_Spec\<close> are exactly the activations of an entry point.
\<close>

inductive body ::
    "monitor_data \<Rightarrow> module_id \<Rightarrow> function_id \<Rightarrow> block_id \<Rightarrow> client_signal list \<Rightarrow> block_id \<Rightarrow> bool"
  and activation :: "monitor_data \<Rightarrow> module_id \<Rightarrow> function_id \<Rightarrow> client_signal list \<Rightarrow> bool"
  for data where
  body_done: "body data m f b [] b"
| body_jump: "at_function CFI_BEFORE_JUMP m f c1 \<Longrightarrow> sig_block c1 = b \<Longrightarrow>
    at_function CFI_AFTER_JUMP m f c2 \<Longrightarrow> cfg_edge data m f b (sig_block c2) \<Longrightarrow>
    body data m f (sig_block c2) cs b' \<Longrightarrow> body data m f b (c1 # c2 # cs) b'"
| body_call: "is_event CFI_CALL c1 \<Longrightarrow> call_edge data m f (sig_function c1) \<Longrightarrow>
    call_dest data m (sig_function c1) = Some (m', f') \<Longrightarrow> activation data m' f' us \<Longrightarrow>
    is_event CFI_RETURNED c2 \<Longrightarrow> call_edge data m f (sig_function c2) \<Longrightarrow>
    body data m f b cs b' \<Longrightarrow> body data m f b (c1 # us @ c2 # cs) b'"
| activate: "at_function CFI_ENTER m f c1 \<Longrightarrow> body data m f 0 cs b \<Longrightarrow> at_function CFI_EXIT m f c2 \<Longrightarrow>
    activation data m f (c1 # cs @ [c2])"

inductive_cases activationE: "activation data m f us"

text \<open>A complete path: steps, then the final exit.\<close>

definition cfi_complete :: "monitor_data \<Rightarrow> cfi \<Rightarrow> client_signal list \<Rightarrow> bool" where
  "cfi_complete data x us \<longleftrightarrow>
     (\<exists>n cs c y. us = cs @ [c] \<and> cfi_path data n x cs y \<and> cfi_final data y c)"

section \<open>From the grammar to paths\<close>

lemma path_one: "cfi_step data x c y \<Longrightarrow> length (frames x) \<le> n \<Longrightarrow> length (frames y) \<le> n \<Longrightarrow>
    cfi_path data n x [c] y"
  by (auto intro: cfi_path.intros)

lemma path_weave:
  assumes "cfi_path data n x us y" "cfi_path data k y vs z"
  shows "cfi_path data (max n k) x (us @ vs) z"
  using assms cfi_path_mono [of data n x us y "max n k"] cfi_path_mono [of data k y vs z "max n k"]
  by (auto intro: cfi_path_append)

lemma path_step:
  assumes "cfi_step data x c y" "cfi_path data n y us z"
  shows "\<exists>k. cfi_path data k x (c # us) z"
proof -
  let ?k = "max n (length (frames x))"
  have "cfi_path data ?k y us z"
    using assms(2) by (rule cfi_path_mono) simp
  then have "cfi_path data ?k x (c # us) z"
    using assms(1) by (intro path_Cons) simp_all
  then show ?thesis ..
qed

lemma grammar_path:
  "body data m f b us b' \<Longrightarrow>
     \<exists>n. cfi_path data n (Cfi SM_STATE_InFunction (m, f, b) fs) us (Cfi SM_STATE_InFunction (m, f, b') fs)"
  "activation data m f us \<Longrightarrow>
     \<exists>n. cfi_path data n (Cfi SM_STATE_ExpectCall (m, f, 0) (fr # fs)) us (Cfi SM_STATE_ExpectReturn fr fs)"
proof (induction arbitrary: fs and fr fs rule: body_activation.inducts)
  case (body_done m f b)
  show ?case by (auto intro: path_Nil)
next
  case (body_jump m f c1 b c2 cs b')
  then obtain n where "cfi_path data n (Cfi SM_STATE_InFunction (m, f, sig_block c2) fs) cs
      (Cfi SM_STATE_InFunction (m, f, b') fs)"
    by blast
  then show ?case
    using path_step [OF cfi_step.reach_block [OF body_jump.hyps(3) refl body_jump.IH(1)]]
      path_step [OF cfi_step.leave_block [OF body_jump.hyps(1,2)]] by blast
next
  case (body_call c1 m f m' f' us c2 b cs b')
  let ?in = "Cfi SM_STATE_InFunction (m, f, b) fs"
  have ret: "cfi_step data (Cfi SM_STATE_ExpectReturn (m, f, b) fs) c2 ?in"
    using body_call.hyps(2) body_call.IH(5) by (auto intro: cfi_step.returned)
  have call: "cfi_step data ?in c1 (Cfi SM_STATE_ExpectCall (m', f', 0) ((m, f, b) # fs))"
    using body_call.hyps(1) body_call.IH(1,2) by (auto intro: cfi_step.call)
  obtain k where "cfi_path data k (Cfi SM_STATE_ExpectReturn (m, f, b) fs) (c2 # cs)
      (Cfi SM_STATE_InFunction (m, f, b') fs)"
    using body_call.IH(7) ret by (blast dest: path_step)
  moreover obtain n where "cfi_path data n (Cfi SM_STATE_ExpectCall (m', f', 0) ((m, f, b) # fs)) us
      (Cfi SM_STATE_ExpectReturn (m, f, b) fs)"
    using body_call.IH(4) by blast
  ultimately show ?case
    using path_step [OF call] path_weave by blast
next
  case (activate m f c1 cs b c2)
  have "cfi_step data (Cfi SM_STATE_InFunction (m, f, b) (fr # fs)) c2 (Cfi SM_STATE_ExpectReturn fr fs)"
    using activate.hyps(2) by (rule cfi_step.leave)
  then have "cfi_path data (Suc (length fs)) (Cfi SM_STATE_InFunction (m, f, b) (fr # fs)) [c2]
      (Cfi SM_STATE_ExpectReturn fr fs)"
    by (rule path_one) simp_all
  moreover obtain n where "cfi_path data n (Cfi SM_STATE_InFunction (m, f, 0) (fr # fs)) cs
      (Cfi SM_STATE_InFunction (m, f, b) (fr # fs))"
    using activate.IH(2) by blast
  ultimately show ?case
    using path_step [OF cfi_step.enter [OF activate.hyps(1)]] path_weave by blast
qed

lemma activation_complete:
  assumes "entry_point data m f" "activation data m f us"
  shows "cfi_complete data (Cfi SM_STATE_Ready p []) us"
  using assms(2)
proof (rule activationE)
  fix c1 cs b c2
  assume us: "us = c1 # cs @ [c2]" and c1: "at_function CFI_ENTER m f c1"
    and cs: "body data m f 0 cs b" and c2: "at_function CFI_EXIT m f c2"
  obtain n where "cfi_path data n (Cfi SM_STATE_Ready p []) (c1 # cs) (Cfi SM_STATE_InFunction (m, f, b) [])"
    using grammar_path(1) [OF cs, of "[]"] cfi_step.start [OF c1 assms(1)] path_step by blast
  moreover have "cfi_final data (Cfi SM_STATE_InFunction (m, f, b) []) c2"
    using c2 assms(1) by (rule cfi_final.finish)
  ultimately show ?thesis
    unfolding cfi_complete_def us by (metis append_Cons)
qed

section \<open>From paths to the grammar\<close>

text \<open>
  What is left to happen in a configuration: the rest of the current function, then, for each
  saved caller, its return and the rest of that caller.
\<close>

fun unwinds :: "monitor_data \<Rightarrow> frame \<Rightarrow> frame list \<Rightarrow> client_signal list \<Rightarrow> bool" where
  "unwinds data (m, f, b) [] us \<longleftrightarrow>
     (\<exists>cs c b'. us = cs @ [c] \<and> body data m f b cs b' \<and> at_function CFI_EXIT m f c \<and> entry_point data m f)"
| "unwinds data (m, f, b) (fr # fs) us \<longleftrightarrow>
     (\<exists>cs c c' vs b'. us = cs @ c # c' # vs \<and> body data m f b cs b' \<and> at_function CFI_EXIT m f c \<and>
        is_event CFI_RETURNED c' \<and> call_edge data (fst fr) (fst (snd fr)) (sig_function c') \<and>
        unwinds data fr fs vs)"

fun remains :: "monitor_data \<Rightarrow> cfi \<Rightarrow> client_signal list \<Rightarrow> bool" where
  "remains data (Cfi SM_STATE_Ready p fs) us \<longleftrightarrow> fs \<noteq> [] \<or> (\<exists>m f. entry_point data m f \<and> activation data m f us)"
| "remains data (Cfi SM_STATE_InFunction p fs) us \<longleftrightarrow> unwinds data p fs us"
| "remains data (Cfi SM_STATE_ExpectCall (m, f, b) fs) us \<longleftrightarrow>
     b = 0 \<and> (\<exists>c vs. us = c # vs \<and> at_function CFI_ENTER m f c \<and> unwinds data (m, f, 0) fs vs)"
| "remains data (Cfi SM_STATE_ExpectReturn (m, f, b) fs) us \<longleftrightarrow>
     (\<exists>c vs. us = c # vs \<and> is_event CFI_RETURNED c \<and> call_edge data m f (sig_function c) \<and>
        unwinds data (m, f, b) fs vs)"
| "remains data (Cfi SM_STATE_ExpectJump (m, f, b) fs) us \<longleftrightarrow>
     (\<exists>c vs. us = c # vs \<and> at_function CFI_AFTER_JUMP m f c \<and> cfg_edge data m f b (sig_block c) \<and>
        unwinds data (m, f, sig_block c) fs vs)"

lemma unwinds_prepend:
  assumes "\<And>cs b'. body data m f b2 cs b' \<Longrightarrow> body data m f b (ps @ cs) b'" "unwinds data (m, f, b2) fs us"
  shows "unwinds data (m, f, b) fs (ps @ us)"
proof (cases fs)
  case Nil
  with assms(2) obtain cs c b' where "us = cs @ [c]" "body data m f b2 cs b'"
    "at_function CFI_EXIT m f c" "entry_point data m f"
    by auto
  with assms(1) Nil show ?thesis
    by (auto intro!: exI [of _ "ps @ cs"])
next
  case (Cons fr fs')
  with assms(2) obtain cs c c' vs b' where us: "us = cs @ c # c' # vs" "body data m f b2 cs b'"
    and rest: "at_function CFI_EXIT m f c" "is_event CFI_RETURNED c'"
    "call_edge data (fst fr) (fst (snd fr)) (sig_function c')" "unwinds data fr fs' vs"
    by auto
  then have "ps @ us = (ps @ cs) @ c # c' # vs" "body data m f b (ps @ cs) b'"
    using assms(1) by simp_all
  with rest Cons show ?thesis by (simp only: unwinds.simps) blast
qed

lemma remains_step:
  assumes "cfi_step data x c y" "remains data y us"
  shows "remains data x (c # us)"
  using assms
proof (induction rule: cfi_step.induct)
  case (start m f c p)
  then obtain cs c' b' where "us = cs @ [c']" "body data m f 0 cs b'" "at_function CFI_EXIT m f c'"
    by auto
  with start.hyps show ?case by (auto intro!: activate)
next
  case (leave_block m f c b fs)
  then obtain c' vs where "us = c' # vs" "at_function CFI_AFTER_JUMP m f c'"
    "cfg_edge data m f b (sig_block c')" "unwinds data (m, f, sig_block c') fs vs"
    by auto
  with leave_block.hyps show ?case
    using unwinds_prepend [of data m f "sig_block c'" b "[c, c']" fs vs] by (auto intro: body_jump)
next
  case (call c g m f m' f' b fs)
  then obtain c1 cs c2 c3 vs b' where us: "us = (c1 # cs @ [c2]) @ c3 # vs"
    and act: "at_function CFI_ENTER m' f' c1" "body data m' f' 0 cs b'" "at_function CFI_EXIT m' f' c2"
    and ret: "is_event CFI_RETURNED c3" "call_edge data m f (sig_function c3)"
    "unwinds data (m, f, b) fs vs"
    by auto
  have "activation data m' f' (c1 # cs @ [c2])"
    using act by (rule activate)
  then have "body data m f b (c # (c1 # cs @ [c2]) @ c3 # ds) d" if "body data m f b ds d" for ds d
    using call.hyps ret(1,2) that by (intro body_call) simp_all
  then show ?case
    using unwinds_prepend [of data m f b b "c # (c1 # cs @ [c2]) @ [c3]" fs vs] ret(3) us by simp
next
  case (leave m f c b fr fs)
  then obtain c' vs where "us = c' # vs" "is_event CFI_RETURNED c'"
    "call_edge data (fst fr) (fst (snd fr)) (sig_function c')" "unwinds data fr fs vs"
    by (cases fr) auto
  with leave.hyps show ?case
    by (auto intro!: exI [of _ "[]"] body_done)
qed auto

lemma path_remains:
  assumes "cfi_path data n x cs y" "remains data y us"
  shows "remains data x (cs @ us)"
  using assms by (induction rule: cfi_path.induct) (auto intro: remains_step)

lemma final_remains: "cfi_final data y c \<Longrightarrow> remains data y [c]"
  by (auto elim!: cfi_finalE intro!: exI [of _ "[]"] body_done)

lemma complete_activation:
  assumes "cfi_complete data (Cfi SM_STATE_Ready p []) us"
  shows "\<exists>m f. entry_point data m f \<and> activation data m f us"
proof -
  obtain n cs c y where us: "us = cs @ [c]" and path: "cfi_path data n (Cfi SM_STATE_Ready p []) cs y"
    and final: "cfi_final data y c"
    using assms by (auto simp: cfi_complete_def)
  have "remains data (Cfi SM_STATE_Ready p []) us"
    unfolding us using path final_remains [OF final] by (rule path_remains)
  then show ?thesis by simp
qed

lemma complete_iff_activation:
  "cfi_complete data (Cfi SM_STATE_Ready p []) us \<longleftrightarrow>
   (\<exists>m f. entry_point data m f \<and> activation data m f us)"
  using complete_activation activation_complete by blast

end
