(* ===== verification/Cfi_Refinement.thy ===== *)
theory Cfi_Refinement
  imports Cfi_Grammar
begin

text \<open>
  The monitor implements the pushdown system of \<open>Cfi_Spec\<close>. \<open>sim\<close> relates the variables and
  the two stacks of \<open>monitor_run\<close> to a configuration. Soundness holds for every allocator
  that does not refuse memory; completeness needs an allocator that grows arrays in place, or
  a program that never has more than 512 callers active, in which case no array ever grows.
\<close>

section \<open>The simulation relation\<close>

definition function_exists :: "monitor_data \<Rightarrow> module_id \<Rightarrow> function_id \<Rightarrow> bool" where
  "function_exists data m f \<longleftrightarrow>
     (case module_at data (Some (unat m)) of None \<Rightarrow> False | Some md \<Rightarrow> f < nb_functions md)"

text \<open>Every external function was relocated to a function that exists.\<close>

definition relocs_ok :: "monitor_data \<Rightarrow> bool" where
  "relocs_ok data \<longleftrightarrow>
     (case modules data of None \<Rightarrow> True
      | Some ms \<Rightarrow> \<forall>md \<in> set ms. nb_functions md \<noteq> 0 \<longrightarrow>
          (case (md_functions md, relocations md) of
             (Some fs, Some rs) \<Rightarrow> \<forall>(fd, r) \<in> set (zip fs rs). FUNCTION_IS_EXTERNAL fd \<longrightarrow>
               function_exists data (MODULE_FUNCTION_GET_MODULE r) (MODULE_FUNCTION_GET_FUNCTION r)
           | _ \<Rightarrow> True))"

definition block_ok :: "monitor_data \<Rightarrow> module_id \<Rightarrow> function_id \<Rightarrow> block_id \<Rightarrow> bool" where
  "block_ok data m f b \<longleftrightarrow>
     function_exists data m f \<and>
     (b = 0 \<or> (case function_at data (Some (unat m, unat f)) of None \<Rightarrow> False | Some fd \<Rightarrow> b < nb_blocks fd))"

text \<open>
  The saved callers, from the last one down: an element of the call stack names the caller
  and the cell of the block stack that holds its block; in trace mode the cell below holds
  the caller's last branching block. \<open>u\<close> bounds the cells that may still be used.
\<close>

fun frames_rel ::
    "bool \<Rightarrow> monitor_data \<Rightarrow> block_stack \<Rightarrow> frame list \<Rightarrow> call_stack_element list \<Rightarrow> nat \<Rightarrow> bool" where
  "frames_rel tr data bl [] [] u \<longleftrightarrow> True"
| "frames_rel tr data bl ((m, f, b) # fs) (e # es) u \<longleftrightarrow>
     cs_module e = m \<and> cs_function e = f \<and> block_ok data m f b \<and>
     (\<exists>k. blocks_sp e = Ptr (stack_block bl) (int k) \<and> k < u \<and> stack_at bl (int k) = Some b \<and>
        (if tr
         then \<exists>j tb. k = Suc j \<and> stack_at bl (int j) = Some tb \<and> block_ok data m f tb \<and>
                frames_rel tr data bl fs es j
         else frames_rel tr data bl fs es k))"
| "frames_rel tr data bl _ _ u \<longleftrightarrow> False"

definition stacks_rel :: "options \<Rightarrow> monitor_data \<Rightarrow> run_state \<Rightarrow> frame list \<Rightarrow> bool" where
  "stacks_rel opts data s fs \<longleftrightarrow>
     stack_ok (calls s) \<and> stack_ok (blocks s) \<and>
     CALL_STACK_EXTEND_SIZE \<le> stack_cap (calls s) \<and> BLOCK_STACK_EXTEND_SIZE \<le> stack_cap (blocks s) \<and>
     frames_rel (OPTION_sm_trace opts) data (blocks s) fs (stack_list (calls s)) (stack_height (blocks s)) \<and>
     (\<not> OPTION_sm_trace opts \<longrightarrow> stack_height (blocks s) = length fs)"

definition pos_rel :: "options \<Rightarrow> monitor_data \<Rightarrow> run_state \<Rightarrow> frame \<Rightarrow> bool" where
  "pos_rel opts data s p \<longleftrightarrow>
     p = (current_module s, current_function s, curblock s) \<and>
     current_module_data s = Some (unat (current_module s)) \<and>
     current_function_data s = Some (unat (current_module s), unat (current_function s)) \<and>
     block_ok data (current_module s) (current_function s) (curblock s) \<and>
     (OPTION_sm_trace opts \<longrightarrow>
        block_ok data (current_module s) (current_function s) (topblock s))"

definition sim :: "options \<Rightarrow> monitor_data \<Rightarrow> run_state \<Rightarrow> cfi \<Rightarrow> bool" where
  "sim opts data s x \<longleftrightarrow>
     state s = phase x \<and> stacks_rel opts data s (frames x) \<and>
     (if phase x = SM_STATE_Ready then frames x = [] else pos_rel opts data s (pos x)) \<and>
     (phase x = SM_STATE_ExpectCall \<longrightarrow> curblock s = 0)"

section \<open>The stacks\<close>

lemma frames_rel_length: "frames_rel tr data bl fs es u \<Longrightarrow> length fs = length es"
proof (induction tr data bl fs es u rule: frames_rel.induct)
  case (2 tr data bl m f b fs e es u)
  then show ?case by (cases tr) auto
qed simp_all

lemma frames_rel_bound: "frames_rel tr data bl fs es u \<Longrightarrow> length fs \<le> u"
proof (induction tr data bl fs es u rule: frames_rel.induct)
  case (2 tr data bl m f b fs e es u)
  then show ?case by (cases tr) fastforce+
qed simp_all

lemma frames_rel_cong:
  assumes "frames_rel tr data bl fs es u" "stack_block bl' = stack_block bl" "u \<le> u'"
    "\<And>i. i < u \<Longrightarrow> stack_at bl' (int i) = stack_at bl (int i)"
  shows "frames_rel tr data bl' fs es u'"
  using assms
proof (induction tr data bl fs es u arbitrary: u' rule: frames_rel.induct)
  case (2 tr data bl m f b fs e es u)
  from "2.prems"(1) obtain k where k: "blocks_sp e = Ptr (stack_block bl) (int k)" "k < u"
    "stack_at bl (int k) = Some b"
    "if tr then \<exists>j tb. k = Suc j \<and> stack_at bl (int j) = Some tb \<and> block_ok data m f tb \<and>
                frames_rel tr data bl fs es j
         else frames_rel tr data bl fs es k"
    by auto
  show ?case
  proof (cases tr)
    case True
    with k obtain j tb where j: "k = Suc j" "stack_at bl (int j) = Some tb" "block_ok data m f tb"
      "frames_rel tr data bl fs es j"
      by auto
    have "frames_rel tr data bl' fs es j"
      using "2.IH"(1) [OF True j(4) "2.prems"(2) order_refl] "2.prems"(4) k(2) j(1) by simp
    then have "\<exists>j tb. k = Suc j \<and> stack_at bl' (int j) = Some tb \<and> block_ok data m f tb \<and>
        frames_rel tr data bl' fs es j"
      using j "2.prems"(4) [of j] k(2) by auto
    with True k "2.prems" show ?thesis by (auto intro!: exI [of _ k])
  next
    case False
    then have "frames_rel tr data bl' fs es k"
      using "2.IH"(2) [OF False _ "2.prems"(2) order_refl] k "2.prems"(4) by simp
    with False k "2.prems" show ?thesis by (auto intro!: exI [of _ k])
  qed
qed simp_all

lemma stacks_rel_height:
  "stacks_rel opts data s fs \<Longrightarrow> stack_height (calls s) = length fs"
  by (auto simp: stacks_rel_def dest!: frames_rel_length)

text \<open>Pushing onto the block stack, above everything that is saved.\<close>

lemma frames_rel_pushed:
  assumes "frames_rel tr data bl fs es u" "pushed bl v bl'" "u \<le> stack_height bl" "u \<le> u'"
  shows "frames_rel tr data bl' fs es u'"
  using assms(1) by (rule frames_rel_cong) (use assms in \<open>auto simp: pushed_def\<close>)

lemma stacks_rel_push_block:
  assumes "stacks_rel opts data s fs" "OPTION_sm_trace opts" "pushed (blocks s) v bl"
  shows "stacks_rel opts data (s\<lparr>blocks := bl\<rparr>) fs"
  using assms frames_rel_pushed [where bl = "blocks s" and bl' = bl, OF _ assms(3) order_refl]
  by (auto simp: stacks_rel_def pushed_def)

lemma stacks_rel_push_frame:
  assumes rel: "stacks_rel opts data s fs" and b: "block_ok data m f b" "OPTION_sm_trace opts \<longrightarrow> block_ok data m f tb"
    and bl1: "if OPTION_sm_trace opts then pushed (blocks s) tb bl1 else bl1 = blocks s"
    and bl2: "pushed bl1 b bl2"
    and cl: "pushed (calls s) \<lparr>cs_module = m, cs_function = f, blocks_sp = BLOCK_STACK_TOP_PTR bl2\<rparr> cl"
    and s': "calls s' = cl" "blocks s' = bl2"
  shows "stacks_rel opts data s' ((m, f, b) # fs)"
proof -
  let ?tr = "OPTION_sm_trace opts"
  have old: "frames_rel ?tr data (blocks s) fs (stack_list (calls s)) (stack_height (blocks s))"
    using rel by (simp add: stacks_rel_def)
  have mid: "frames_rel ?tr data bl1 fs (stack_list (calls s)) (stack_height (blocks s))"
    using bl1 old frames_rel_pushed [OF old, of tb bl1] by (cases ?tr) auto
  have "stack_height (blocks s) \<le> stack_height bl1"
    using bl1 by (auto simp: pushed_def split: if_splits)
  then have new: "frames_rel ?tr data bl2 fs (stack_list (calls s)) (stack_height (blocks s))"
    using frames_rel_pushed [OF mid bl2] by simp
  have "frames_rel ?tr data bl2 ((m, f, b) # fs) (stack_list cl) (stack_height bl2)"
    using new bl1 bl2 cl b
    by (auto simp: pushed_def BLOCK_STACK_TOP_PTR_def intro!: exI [of _ "stack_height bl1"] split: if_splits)
  then show ?thesis
    using rel bl1 bl2 cl s' by (auto simp: stacks_rel_def pushed_def split: if_splits)
qed

text \<open>
  Saving the caller. \<open>clean\<close> rules out that a refused allocation is hidden by a later one
  that succeeds: either nothing is refused, or there is space and nothing is requested.
\<close>

definition clean :: "options \<Rightarrow> run_state \<Rightarrow> alloc \<Rightarrow> bool" where
  "clean opts s al \<longleftrightarrow>
     Alloc_Fail \<notin> range al \<or>
     \<not> OPTION_sm_trace opts \<and> stack_height (blocks s) < stack_cap (blocks s) \<and>
     stack_height (calls s) < stack_cap (calls s)"

lemma block_push_pushed:
  "stack_ok s \<Longrightarrow> BLOCK_STACK_PUSH v 0 al s = Some (e, s', al') \<Longrightarrow>
   Alloc_Fail \<notin> range al \<or> stack_height s < stack_cap s \<Longrightarrow> e = 0 \<and> pushed s v s'"
  unfolding BLOCK_STACK_PUSH_def by (rule stack_push_pushed) simp_all

lemma call_push_pushed:
  "stack_ok s \<Longrightarrow> CALL_STACK_PUSH v 0 al s = Some (e, s', al') \<Longrightarrow>
   Alloc_Fail \<notin> range al \<or> stack_height s < stack_cap s \<Longrightarrow> e = 0 \<and> pushed s v s'"
  unfolding CALL_STACK_PUSH_def by (rule stack_push_pushed) simp_all

lemma push_alloc:
  "BLOCK_STACK_PUSH b e al bl = Some (e', bl', al') \<Longrightarrow> range al' \<subseteq> range al"
  "CALL_STACK_PUSH c e al cl = Some (e', cl', al') \<Longrightarrow> range al' \<subseteq> range al"
  unfolding BLOCK_STACK_PUSH_def CALL_STACK_PUSH_def by (erule stack_push_alloc)+

lemma save_caller_ok:
  assumes rel: "stacks_rel opts data s fs" and err: "error s = 0" and cl: "clean opts s al"
    and cur: "block_ok data (current_module s) (current_function s) (curblock s)"
      "OPTION_sm_trace opts \<longrightarrow> block_ok data (current_module s) (current_function s) (topblock s)"
    and save: "save_caller opts s al = Some (s', al')"
  shows "stacks_rel opts data s' ((current_module s, current_function s, curblock s) # fs) \<and>
    (\<exists>bl cl. s' = s\<lparr>error := 0, blocks := bl, calls := cl, curblock := 0, topblock := 0\<rparr>) \<and>
    range al' \<subseteq> range al"
proof -
  let ?tr = "OPTION_sm_trace opts"
  obtain e1 bl1 al1 e2 bl2 al2 e3 cl3 where
    p1: "(if ?tr then BLOCK_STACK_PUSH (topblock s) (error s) al (blocks s)
          else Some (error s, blocks s, al)) = Some (e1, bl1, al1)"
    and p2: "BLOCK_STACK_PUSH (curblock s) e1 al1 bl1 = Some (e2, bl2, al2)"
    and p3: "CALL_STACK_PUSH \<lparr>cs_module = current_module s, cs_function = current_function s,
               blocks_sp = BLOCK_STACK_TOP_PTR bl2\<rparr> e2 al2 (calls s) = Some (e3, cl3, al')"
    and s': "s' = s\<lparr>error := e3, blocks := bl2, calls := cl3, curblock := 0, topblock := 0\<rparr>"
    using save by (auto simp: save_caller_def bind_eq_Some_conv Let_def FUNCTION_ENTRY_BLOCK_ID_def)
  have sub: "range al1 \<subseteq> range al" "range al2 \<subseteq> range al1" "range al' \<subseteq> range al2"
    using p1 push_alloc(1) [OF p2] push_alloc(2) [OF p3]
    by (simp_all add: push_alloc(1) split: if_splits)
  have ok: "stack_ok (calls s)" "stack_ok (blocks s)"
    using rel by (simp_all add: stacks_rel_def)
  have 1: "e1 = 0 \<and> stack_ok bl1 \<and> (if ?tr then pushed (blocks s) (topblock s) bl1 else bl1 = blocks s)"
    using p1 err cl ok(2) block_push_pushed [OF ok(2)] by (auto simp: clean_def pushed_def split: if_splits)
  then have 2: "e2 = 0 \<and> pushed bl1 (curblock s) bl2"
    using p2 cl sub(1) by (intro block_push_pushed) (auto simp: clean_def split: if_splits)
  then have 3: "e3 = 0 \<and> pushed (calls s) \<lparr>cs_module = current_module s, cs_function = current_function s,
      blocks_sp = BLOCK_STACK_TOP_PTR bl2\<rparr> cl3"
    using p3 cl subset_trans [OF sub(2,1)] ok(1) by (intro call_push_pushed) (auto simp: clean_def)
  have "stacks_rel opts data s' ((current_module s, current_function s, curblock s) # fs)"
    using 1 2 3 s' by (intro stacks_rel_push_frame [OF rel cur, where ?bl1.0 = bl1]) auto
  with 3 s' show ?thesis
    using subset_trans [OF sub(3) subset_trans [OF sub(2,1)]] by auto
qed


text \<open>Returning to the caller finds exactly what the call saved.\<close>

lemma block_okD: "block_ok data m f b \<Longrightarrow> \<exists>md. module_at data (Some (unat m)) = Some md \<and> f < nb_functions md"
  by (auto simp: block_ok_def function_exists_def split: option.splits)

lemma stacks_rel_kept:
  assumes rel: "stacks_rel opts data s ((m, f, b) # fs)"
    and fr: "frames_rel (OPTION_sm_trace opts) data (blocks s) fs (stack_list cl) k"
    and bl: "kept k (blocks s) bl" and k: "k < stack_height (blocks s)"
    and cl: "stack_ok cl" "stack_cap cl = stack_cap (calls s)" and s': "calls s' = cl" "blocks s' = bl"
  shows "stacks_rel opts data s' fs"
proof -
  have "frames_rel (OPTION_sm_trace opts) data bl fs (stack_list cl) k"
    using fr by (rule frames_rel_cong) (use bl in \<open>simp_all add: kept_def\<close>)
  then show ?thesis
    using rel bl cl s' k frames_rel_bound [OF fr] by (auto simp: stacks_rel_def kept_def)
qed

lemma restore_caller_ok:
  assumes rel: "stacks_rel opts data s ((m, f, b) # fs)"
  obtains cl bl tb where
    "restore_caller opts data s al = Some (Break, s\<lparr>calls := cl, current_module := m,
       current_function := f, current_module_data := Some (unat m),
       current_function_data := Some (unat m, unat f), curblock := b, topblock := tb, blocks := bl,
       state := SM_STATE_ExpectReturn\<rparr>, al)"
    "\<And>s'. calls s' = cl \<Longrightarrow> blocks s' = bl \<Longrightarrow> stacks_rel opts data s' fs"
    "block_ok data m f b" "OPTION_sm_trace opts \<longrightarrow> block_ok data m f tb"
proof -
  let ?tr = "OPTION_sm_trace opts" and ?bl = "blocks s"
  have ok: "stack_ok (calls s)" "stack_ok ?bl"
    and fr: "frames_rel ?tr data ?bl ((m, f, b) # fs) (stack_list (calls s)) (stack_height ?bl)"
    using rel by (simp_all add: stacks_rel_def)
  then obtain e es where es: "stack_list (calls s) = e # es"
    by (cases "stack_list (calls s)") auto
  obtain cl where pop: "CALL_STACK_POP (calls s) = Some (e, cl)" "stack_ok cl" "stack_list cl = es"
    "stack_cap cl = stack_cap (calls s)"
    using cs.pop_law [OF ok(1) es] by auto
  from fr es obtain k where e: "cs_module e = m" "cs_function e = f" "blocks_sp e = Ptr (stack_block ?bl) (int k)"
    and k: "k < stack_height ?bl" "stack_at ?bl (int k) = Some b" and b: "block_ok data m f b"
    and rest: "if ?tr then \<exists>j tb. k = Suc j \<and> stack_at ?bl (int j) = Some tb \<and> block_ok data m f tb \<and>
                frames_rel ?tr data ?bl fs es j
         else frames_rel ?tr data ?bl fs es k"
    by auto
  obtain md where md: "module_at data (Some (unat m)) = Some md"
    using block_okD [OF b] by blast
  define bl0 where "bl0 = stack_restore_top ?bl (Ptr (stack_block ?bl) (int k))"
  have bl0: "kept (Suc k) ?bl bl0"
    unfolding bl0_def using ok(2) k(1) by (rule stack_restore_kept)
  then have empty: "stack_is_empty bl0 = Some False"
    by (simp add: kept_def stack_is_empty_ok)
  obtain bl1 where pop0: "stack_pop bl0 = Some (b, bl1)" and bl1: "kept k ?bl bl1"
    using stack_pop_kept [OF bl0 k(2)] by blast
  have step: "restore_caller opts data s al = do {
      (tb, bl) \<leftarrow> (if ?tr then stack_pop bl1 else Some (topblock s, bl1));
      Some (Break, s\<lparr>calls := cl, current_module := m, current_function := f,
        current_module_data := Some (unat m), current_function_data := Some (unat m, unat f),
        curblock := b, topblock := tb, blocks := bl, state := SM_STATE_ExpectReturn\<rparr>, al) }"
    using pop(1) md pop0 empty e
    by (simp add: restore_caller_def block_stack_defs bl0_def [symmetric])
  show ?thesis
  proof (cases ?tr)
    case True
    then obtain j tb where j: "k = Suc j" "stack_at ?bl (int j) = Some tb" "block_ok data m f tb"
      "frames_rel ?tr data ?bl fs (stack_list cl) j"
      using rest pop(3) by auto
    obtain bl2 where "stack_pop bl1 = Some (tb, bl2)" and bl2: "kept j ?bl bl2"
      using stack_pop_kept [of j ?bl bl1 tb] bl1 j(1,2) by auto
    then show ?thesis
      using that step b j k(1) True stacks_rel_kept [OF rel j(4) bl2 _ pop(2,4)] by simp
  next
    case False
    then show ?thesis
      using step b rest pop(3) stacks_rel_kept [OF rel _ bl1 k(1) pop(2,4)]
      by (intro that [of bl1 "topblock s" cl]) simp_all
  qed
qed


section \<open>The tables\<close>

lemma module_at_wf:
  assumes "wf_modules data" "module_at data (Some i) = Some md"
  shows "wf_module md" "\<exists>ms. modules data = Some ms \<and> md \<in> set ms"
  using assms by (auto simp: module_at_def wf_modules_def split: option.splits if_splits)

lemma function_exists_at:
  assumes "wf_modules data" "function_exists data m f"
  obtains md fd where "module_at data (Some (unat m)) = Some md" "f < nb_functions md"
    "arr_get (md_functions md) (unat f) = Some fd" "function_at data (Some (unat m, unat f)) = Some fd"
    "wf_function fd"
proof -
  obtain md where md: "module_at data (Some (unat m)) = Some md" "f < nb_functions md"
    using assms(2) by (auto simp: function_exists_def split: option.splits)
  obtain fs rs where fs: "md_functions md = Some fs" "length fs = unat (nb_functions md)"
    "\<And>i. i < length fs \<Longrightarrow> wf_function (fs ! i)"
    by (rule wf_moduleE [OF module_at_wf(1) [OF assms(1) md(1)]]) (use md(2) in force, metis)
  moreover have "unat f < length fs"
    using md(2) fs(2) by (simp add: word_less_nat_alt)
  ultimately show ?thesis
    using md by (intro that [of md "fs ! unat f"]) (simp_all add: function_at_def)
qed

lemma call_target_dest:
  assumes wf: "wf_modules data" and rel: "relocs_ok data"
    and md: "module_at data (Some (unat m)) = Some md" "g < nb_functions md"
    and s: "current_module s = m" "current_module_data s = Some (unat m)" "sig_function (sig s) = g"
  shows "\<exists>m' f'. call_dest data m g = Some (m', f') \<and>
    call_target data md s = Some (m', f', Some (unat m')) \<and> function_exists data m' f'"
proof -
  obtain fs rs where fs: "md_functions md = Some fs" "relocations md = Some rs"
    "length fs = unat (nb_functions md)" "length rs = unat (nb_functions md)"
    by (rule wf_moduleE [OF module_at_wf(1) [OF wf md(1)]]) (use md(2) in auto)
  have g: "unat g < length fs" "unat g < length rs"
    using md(2) fs(3,4) by (simp_all add: word_less_nat_alt)
  show ?thesis
  proof (cases "FUNCTION_IS_EXTERNAL (fs ! unat g)")
    case False
    then show ?thesis
      using md s fs g by (simp add: call_dest_def call_target_def function_exists_def)
  next
    case True
    let ?r = "rs ! unat g"
    have "(fs ! unat g, ?r) \<in> set (zip fs rs)"
      using g by (auto simp: set_zip)
    then have "function_exists data (MODULE_FUNCTION_GET_MODULE ?r) (MODULE_FUNCTION_GET_FUNCTION ?r)"
      using rel module_at_wf(2) [OF wf md(1)] md(2) fs(1,2) True by (fastforce simp: relocs_ok_def)
    then show ?thesis
      using md s fs g True
      by (auto simp: call_dest_def call_target_def function_exists_def Let_def split: option.splits)
  qed
qed

section \<open>One signal\<close>

lemma fail_not_Break [simp]: "fail e s al \<noteq> Some (Break, s', al')"
  by (simp add: fail_def)

lemma sim_Ready: "sim opts data s (Cfi ph p fs) \<Longrightarrow> state s = SM_STATE_Ready \<longleftrightarrow> ph = SM_STATE_Ready"
  by (simp add: sim_def)

lemma stacks_rel_frame:
  "calls s' = calls s \<Longrightarrow> blocks s' = blocks s \<Longrightarrow> stacks_rel opts data s' fs = stacks_rel opts data s fs"
  by (simp add: stacks_rel_def)

lemma sound_before_jump:
  assumes "sim opts data s x" "is_event CFI_BEFORE_JUMP (sig s)" "on_before_jump s al = Some (Break, s', al')"
  shows "al' = al \<and> error s' = error s \<and> (\<exists>y. cfi_step data x (sig s) y \<and> sim opts data s' y)"
  using assms
  by (cases x; cases "pos x")
    (auto simp: on_before_jump_def sim_def pos_rel_def at_function_def stacks_rel_def
       intro!: exI cfi_step.leave_block split: if_splits)

lemma sound_enter:
  assumes "sim opts data s x" "is_event CFI_ENTER (sig s)" "on_enter data s al = Some (Break, s', al')"
  shows "al' = al \<and> error s' = error s \<and> (\<exists>y. cfi_step data x (sig s) y \<and> sim opts data s' y)"
proof (cases "state s = SM_STATE_Ready")
  case True
  then obtain md fd where m: "ucast (sig_module (sig s)) < nb_modules data"
    "module_at data (Some (unat (sig_module (sig s)))) = Some md" "sig_function (sig s) < nb_functions md"
    "arr_get (md_functions md) (unat (sig_function (sig s))) = Some fd" "FUNCTION_IS_ENTRYPOINT fd"
    and s': "s' = s\<lparr>current_module_data := Some (unat (sig_module (sig s))),
      curblock := 0, topblock := 0, current_module := sig_module (sig s),
      current_function := sig_function (sig s),
      current_function_data := Some (unat (sig_module (sig s)), unat (sig_function (sig s))),
      state := SM_STATE_InFunction\<rparr>" "al' = al"
    using assms(3)
    by (auto simp: on_enter_def bind_eq_Some_conv FUNCTION_ENTRY_BLOCK_ID_def not_le Let_def
        split: if_split_asm)
  obtain p where x: "x = Cfi SM_STATE_Ready p []"
    using assms(1) True by (cases x) (simp add: sim_def)
  have "cfi_step data x (sig s)
      (Cfi SM_STATE_InFunction (sig_module (sig s), sig_function (sig s), 0) [])"
    unfolding x using assms(2) m by (intro cfi_step.start) (simp_all add: at_function_def entry_point_def)
  moreover have "sim opts data s' (Cfi SM_STATE_InFunction (sig_module (sig s), sig_function (sig s), 0) [])"
    using assms(1) m s' x
    by (simp add: sim_def pos_rel_def block_ok_def function_exists_def stacks_rel_def)
  ultimately show ?thesis using s' by auto
next
  case False
  with assms show ?thesis
    by (cases x; cases "pos x")
      (auto simp: on_enter_def sim_def pos_rel_def at_function_def FUNCTION_ENTRY_BLOCK_ID_def
         stacks_rel_def intro!: exI cfi_step.enter split: if_splits)
qed

lemma sound_returned:
  assumes "sim opts data s x" "is_event CFI_RETURNED (sig s)" "on_returned data s al = Some (Break, s', al')"
  shows "al' = al \<and> error s' = error s \<and> (\<exists>y. cfi_step data x (sig s) y \<and> sim opts data s' y)"
  using assms
  by (cases x; cases "pos x")
    (auto simp: on_returned_def sim_def pos_rel_def call_edge_def bind_eq_Some_conv not_le
       stacks_rel_def intro!: exI cfi_step.returned split: if_splits)

lemma sound_exit:
  assumes "sim opts data s x" "is_event CFI_EXIT (sig s)" "on_exit opts data s al = Some (Break, s', al')"
  shows "al' = al \<and> error s' = error s \<and> (\<exists>y. cfi_step data x (sig s) y \<and> sim opts data s' y)"
proof -
  obtain p fs where x: "x = Cfi SM_STATE_InFunction p fs" and rel: "stacks_rel opts data s fs"
    and st: "state s = SM_STATE_InFunction" "current_module s = sig_module (sig s)"
      "current_function s = sig_function (sig s)"
    and p: "p = (current_module s, current_function s, curblock s)"
    using assms(1,3) by (cases x) (auto simp: sim_def on_exit_def pos_rel_def split: if_splits)
  have "CALL_STACK_IS_EMPTY (calls s) = Some (fs = [])"
    using rel stacks_rel_height [OF rel] by (simp add: CALL_STACK_IS_EMPTY_def stack_is_empty_ok stacks_rel_def)
  then have "fs \<noteq> []" and ret: "restore_caller opts data s al = Some (Break, s', al')"
    using assms(3) st by (auto simp: on_exit_def bind_eq_Some_conv split: if_splits)
  then obtain m f b fs' where fs: "fs = (m, f, b) # fs'" by (cases fs) auto
  have rel': "stacks_rel opts data s ((m, f, b) # fs')" using rel fs by simp
  show ?thesis
  proof (rule restore_caller_ok [OF rel', of al])
    fix cl bl tb
    assume r: "restore_caller opts data s al = Some (Break, s\<lparr>calls := cl, current_module := m,
       current_function := f, current_module_data := Some (unat m),
       current_function_data := Some (unat m, unat f), curblock := b, topblock := tb, blocks := bl,
       state := SM_STATE_ExpectReturn\<rparr>, al)"
      and k: "\<And>s'. calls s' = cl \<Longrightarrow> blocks s' = bl \<Longrightarrow> stacks_rel opts data s' fs'"
      and b: "block_ok data m f b" "OPTION_sm_trace opts \<longrightarrow> block_ok data m f tb"
    have "cfi_step data x (sig s) (Cfi SM_STATE_ExpectReturn (m, f, b) fs')"
      unfolding x p fs using assms(2) st by (intro cfi_step.leave) (simp add: at_function_def)
    moreover have "sim opts data s' (Cfi SM_STATE_ExpectReturn (m, f, b) fs')"
      using r ret k b by (simp add: sim_def pos_rel_def)
    ultimately show ?thesis using r ret by auto
  qed
qed

text \<open>A step may only lean on an allocation when it makes one: on a call, or in trace mode.\<close>

definition step_clean :: "options \<Rightarrow> run_state \<Rightarrow> alloc \<Rightarrow> bool" where
  "step_clean opts s al \<longleftrightarrow> (OPTION_sm_trace opts \<or> is_event CFI_CALL (sig s) \<longrightarrow> clean opts s al)"

lemma trace_jump_ok:
  assumes rel: "stacks_rel opts data s fs" and err: "error s = 0"
    and al: "OPTION_sm_trace opts \<longrightarrow> Alloc_Fail \<notin> range al"
    and tr: "trace_jump opts fd s al = Some (s', al')"
  shows "stacks_rel opts data s' fs \<and> range al' \<subseteq> range al \<and>
    (\<exists>bl tb. s' = s\<lparr>error := 0, blocks := bl, topblock := tb\<rparr> \<and> (tb = topblock s \<or> tb = sig_block (sig s)))"
proof (cases "s' = s \<and> al' = al")
  case True
  then show ?thesis using rel err
    by (auto intro!: exI [of _ "blocks s"] exI [of _ "topblock s"])
next
  case False
  then obtain e bl where opt: "OPTION_sm_trace opts"
    and push: "BLOCK_STACK_PUSH (topblock s) (error s) al (blocks s) = Some (e, bl, al')"
    and s': "s' = s\<lparr>error := e, blocks := bl, topblock := sig_block (sig s)\<rparr>"
    using tr by (auto simp: trace_jump_def bind_eq_Some_conv split: if_splits)
  have "e = 0 \<and> pushed (blocks s) (topblock s) bl"
    using rel push err al opt by (intro block_push_pushed) (auto simp: stacks_rel_def)
  then show ?thesis
    using stacks_rel_push_block [OF rel opt, of "topblock s" bl] push_alloc(1) [OF push] s'
    by (simp add: stacks_rel_def) blast
qed

lemma sound_after_jump:
  assumes "sim opts data s x" "is_event CFI_AFTER_JUMP (sig s)" "error s = 0"
    "OPTION_sm_trace opts \<longrightarrow> Alloc_Fail \<notin> range al"
    "on_after_jump opts data s al = Some (Break, s', al')"
  shows "range al' \<subseteq> range al \<and> error s' = 0 \<and> (\<exists>y. cfi_step data x (sig s) y \<and> sim opts data s' y)"
proof -
  let ?m = "current_module s" and ?f = "current_function s" and ?b = "sig_block (sig s)"
  obtain fd e s1 where st: "state s = SM_STATE_ExpectJump" "?m = sig_module (sig s)" "?f = sig_function (sig s)"
    and fd: "function_at data (current_function_data s) = Some fd" "?b < nb_blocks fd"
    and e: "graph_at (control_flow_graph fd) (curblock s) ?b = Some e" "e \<noteq> 0"
    and tr: "trace_jump opts fd s al = Some (s1, al')"
    and s': "s' = s1\<lparr>curblock := ?b, state := SM_STATE_InFunction\<rparr>"
    using assms(5) trace_jump_frame
    by (auto simp: on_after_jump_def bind_eq_Some_conv not_le split: if_splits)
  obtain fs where x: "x = Cfi SM_STATE_ExpectJump (?m, ?f, curblock s) fs"
    and rel: "stacks_rel opts data s fs" and pos: "pos_rel opts data s (?m, ?f, curblock s)"
    using assms(1) st(1) by (cases x) (auto simp: sim_def pos_rel_def)
  obtain bl tb where s1: "s1 = s\<lparr>error := 0, blocks := bl, topblock := tb\<rparr>" "tb = topblock s \<or> tb = ?b"
    and rel1: "stacks_rel opts data s1 fs" and al: "range al' \<subseteq> range al"
    using trace_jump_ok [OF rel assms(3,4) tr] by auto
  have b: "block_ok data ?m ?f ?b"
    using pos fd by (simp add: block_ok_def pos_rel_def)
  have "cfi_step data x (sig s) (Cfi SM_STATE_InFunction (?m, ?f, ?b) fs)"
    unfolding x using assms(2) st pos fd e
    by (intro cfi_step.reach_block) (simp_all add: at_function_def cfg_edge_def pos_rel_def)
  moreover have "stacks_rel opts data s' fs"
    using rel1 by (simp add: stacks_rel_def s')
  then have "sim opts data s' (Cfi SM_STATE_InFunction (?m, ?f, ?b) fs)"
    using pos b s1 s' by (auto simp: sim_def pos_rel_def)
  ultimately show ?thesis using al s' s1 by auto
qed

lemma sound_call:
  assumes "wf_modules data" "relocs_ok data"
    and "sim opts data s x" "is_event CFI_CALL (sig s)" "error s = 0" "clean opts s al"
    and "on_call opts data s al = Some (Break, s', al')"
  shows "range al' \<subseteq> range al \<and> error s' = 0 \<and> (\<exists>y. cfi_step data x (sig s) y \<and> sim opts data s' y)"
proof -
  let ?m = "current_module s" and ?f = "current_function s" and ?g = "sig_function (sig s)"
  obtain md e s1 m f mp where st: "state s = SM_STATE_InFunction"
    and md: "module_at data (current_module_data s) = Some md" "?g < nb_functions md"
    and e: "graph_at (call_graph md) ?f ?g = Some e" "e \<noteq> 0"
    and save: "save_caller opts s al = Some (s1, al')"
    and tgt: "call_target data md s1 = Some (m, f, mp)"
    and s': "s' = s1\<lparr>current_module := m, current_function := f, current_module_data := mp,
      current_function_data := map_option (\<lambda>i. (i, unat f)) mp, state := SM_STATE_ExpectCall\<rparr>"
    using assms(7) by (auto simp: on_call_def bind_eq_Some_conv not_le split: if_splits)
  obtain fs where x: "x = Cfi SM_STATE_InFunction (?m, ?f, curblock s) fs"
    and rel: "stacks_rel opts data s fs" and pos: "pos_rel opts data s (?m, ?f, curblock s)"
    using assms(3) st by (cases x) (auto simp: sim_def pos_rel_def)
  have mdata: "current_module_data s = Some (unat ?m)"
    using pos by (simp add: pos_rel_def)
  obtain bl cl where rel1: "stacks_rel opts data s1 ((?m, ?f, curblock s) # fs)"
    and s1: "s1 = s\<lparr>error := 0, blocks := bl, calls := cl, curblock := 0, topblock := 0\<rparr>"
    and al: "range al' \<subseteq> range al"
    using save_caller_ok [OF rel assms(5,6) _ _ save] pos by (auto simp: pos_rel_def)
  have dest: "call_dest data ?m ?g = Some (m, f)" "mp = Some (unat m)" "function_exists data m f"
    using call_target_dest [OF assms(1,2), of ?m md ?g s1] md mdata tgt s1 by auto
  have "cfi_step data x (sig s) (Cfi SM_STATE_ExpectCall (m, f, 0) ((?m, ?f, curblock s) # fs))"
    unfolding x using assms(4) md mdata e dest
    by (intro cfi_step.call) (simp_all add: call_edge_def)
  moreover have "stacks_rel opts data s' ((?m, ?f, curblock s) # fs)"
    using rel1 by (simp add: stacks_rel_def s')
  then have "sim opts data s' (Cfi SM_STATE_ExpectCall (m, f, 0) ((?m, ?f, curblock s) # fs))"
    using dest s1 s' by (simp add: sim_def pos_rel_def block_ok_def)
  ultimately show ?thesis using al s' s1 by auto
qed

lemma sim_step_sound:
  assumes "wf_modules data" "relocs_ok data" "sim opts data s x" "error s = 0" "step_clean opts s al"
    "handle_signal opts data s al = Some (Break, s', al')"
  shows "range al' \<subseteq> range al \<and> error s' = 0 \<and> (\<exists>y. cfi_step data x (sig s) y \<and> sim opts data s' y)"
proof (cases "client_event_of (sig_event (sig s))")
  case None
  with assms(6) show ?thesis by (simp add: handle_signal_malformed)
next
  case (Some e)
  then have ev: "is_event e (sig s)" by (simp add: is_event_def)
  note step = assms(6) [unfolded handle_signal_def Some]
  show ?thesis
  proof (cases e)
    case CFI_BEFORE_JUMP
    then show ?thesis using sound_before_jump [OF assms(3), of al s' al'] ev step assms(4) by simp
  next
    case CFI_AFTER_JUMP
    have "OPTION_sm_trace opts \<longrightarrow> Alloc_Fail \<notin> range al"
      using assms(5) unfolding step_clean_def clean_def by blast
    with CFI_AFTER_JUMP show ?thesis using sound_after_jump [OF assms(3) _ assms(4)] ev step by simp
  next
    case CFI_CALL
    then have "clean opts s al" using assms(5) ev unfolding step_clean_def by blast
    with CFI_CALL show ?thesis using sound_call [OF assms(1-3) _ assms(4)] ev step by simp
  next
    case CFI_ENTER
    then show ?thesis using sound_enter [OF assms(3), of al s' al'] ev step assms(4) by simp
  next
    case CFI_EXIT
    then show ?thesis using sound_exit [OF assms(3), of al s' al'] ev step assms(4) by simp
  next
    case CFI_RETURNED
    then show ?thesis using sound_returned [OF assms(3), of al s' al'] ev step assms(4) by simp
  qed
qed

section \<open>A step the policy allows is accepted\<close>

text \<open>
  \<open>roomy\<close>: every array grows in place, or no array has to grow. As for \<open>step_clean\<close>, only the
  steps that push need it.
\<close>

definition roomy :: "options \<Rightarrow> run_state \<Rightarrow> alloc \<Rightarrow> bool" where
  "roomy opts s al \<longleftrightarrow>
     range al \<subseteq> {Alloc_InPlace} \<or>
     \<not> OPTION_sm_trace opts \<and> stack_height (blocks s) < stack_cap (blocks s) \<and>
     stack_height (calls s) < stack_cap (calls s)"

definition step_roomy :: "options \<Rightarrow> run_state \<Rightarrow> alloc \<Rightarrow> bool" where
  "step_roomy opts s al \<longleftrightarrow> (OPTION_sm_trace opts \<or> is_event CFI_CALL (sig s) \<longrightarrow> roomy opts s al)"

lemma roomy_clean: "roomy opts s al \<Longrightarrow> clean opts s al"
  unfolding roomy_def clean_def by blast

lemma step_roomy_clean: "step_roomy opts s al \<Longrightarrow> step_clean opts s al"
  unfolding step_roomy_def step_clean_def using roomy_clean by blast

lemma push_roomy:
  assumes "range al \<subseteq> {Alloc_InPlace} \<or> stack_height st < stack_cap st" "stack_ok st"
  shows "room al st"
  using assms by (auto simp: room_def)

lemma block_push_room:
  "stack_ok s \<Longrightarrow> room al s \<Longrightarrow> \<exists>s' al'. BLOCK_STACK_PUSH v 0 al s = Some (0, s', al') \<and> stack_ok s'"
  using bs.push_law by blast

lemma call_push_room:
  "stack_ok s \<Longrightarrow> room al s \<Longrightarrow> \<exists>s' al'. CALL_STACK_PUSH v 0 al s = Some (0, s', al') \<and> stack_ok s'"
  using cs.push_law by blast

lemma save_caller_room:
  assumes rel: "stacks_rel opts data s fs" and err: "error s = 0" and r: "roomy opts s al"
  shows "\<exists>s' al'. save_caller opts s al = Some (s', al')"
proof -
  let ?tr = "OPTION_sm_trace opts"
  have ok: "stack_ok (calls s)" "stack_ok (blocks s)"
    using rel by (simp_all add: stacks_rel_def)
  have room: "room al (blocks s)" "room al (calls s)"
    using r ok by (auto simp: roomy_def intro!: push_roomy)
  obtain bl1 al1 where p1: "(if ?tr then BLOCK_STACK_PUSH (topblock s) (error s) al (blocks s)
          else Some (error s, blocks s, al)) = Some (0, bl1, al1)" "stack_ok bl1"
    "room al1 bl1 \<and> (range al1 \<subseteq> {Alloc_InPlace} \<or> al1 = al)"
  proof (cases ?tr)
    case True
    then have ip: "range al \<subseteq> {Alloc_InPlace}" using r by (simp add: roomy_def)
    obtain bl1 al1 where p: "BLOCK_STACK_PUSH (topblock s) 0 al (blocks s) = Some (0, bl1, al1)" "stack_ok bl1"
      using block_push_room [OF ok(2) room(1)] by blast
    moreover have "range al1 \<subseteq> {Alloc_InPlace}" using push_alloc(1) [OF p(1)] ip by (rule subset_trans)
    ultimately show ?thesis
      using that True err push_roomy [of al1 bl1] by simp
  next
    case False
    then show ?thesis using that ok(2) room(1) err by simp
  qed
  obtain bl2 al2 where p2: "BLOCK_STACK_PUSH (curblock s) 0 al1 bl1 = Some (0, bl2, al2)"
    using block_push_room [OF p1(2)] p1(3) by blast
  have "range al2 \<subseteq> {Alloc_InPlace} \<or> stack_height (calls s) < stack_cap (calls s)"
    using r p1(3) push_alloc(1) [OF p2] unfolding roomy_def by blast
  then have "room al2 (calls s)" using ok(1) by (rule push_roomy)
  then obtain cl al3 where "CALL_STACK_PUSH \<lparr>cs_module = current_module s, cs_function = current_function s,
               blocks_sp = BLOCK_STACK_TOP_PTR bl2\<rparr> 0 al2 (calls s) = Some (0, cl, al3)"
    using call_push_room [OF ok(1)] by blast
  with p1(1) p2 show ?thesis by (simp add: save_caller_def Let_def)
qed

lemma trace_jump_room:
  assumes rel: "stacks_rel opts data s fs" and err: "error s = 0"
    and al: "OPTION_sm_trace opts \<longrightarrow> range al \<subseteq> {Alloc_InPlace} \<and>
      arr_get (immediate_post_dominator fd) (unat (topblock s)) \<noteq> None"
  shows "\<exists>s' al'. trace_jump opts fd s al = Some (s', al')"
proof -
  have ok: "stack_ok (blocks s)" using rel by (simp add: stacks_rel_def)
  have "OPTION_sm_trace opts \<Longrightarrow> room al (blocks s)"
    using al ok by (intro push_roomy) simp_all
  then show ?thesis
    using block_push_room [OF ok, of al "topblock s"] al err by (auto simp: trace_jump_def)
qed

lemma ipd_defined:
  assumes "wf_modules data" "block_ok data m f b" "function_at data (Some (unat m, unat f)) = Some fd"
    "b' < nb_blocks fd"
  shows "arr_get (immediate_post_dominator fd) (unat b) \<noteq> None"
proof -
  obtain fd' where "function_at data (Some (unat m, unat f)) = Some fd'" "wf_function fd'"
    using assms(2) function_exists_at [OF assms(1)] by (metis block_ok_def)
  then have "wf_function fd" using assms(3) by simp
  moreover have "nb_blocks fd \<noteq> 0" using assms(4) by auto
  moreover have "unat b < unat (nb_blocks fd)"
    using assms(2-) calculation(2) by (auto simp: block_ok_def word_less_nat_alt unat_gt_0)
  ultimately show ?thesis
    by (auto simp: wf_function_def split: option.splits)
qed

lemma sim_step_complete:
  assumes wf: "wf_modules data" "relocs_ok data" and sim: "sim opts data s x" and err: "error s = 0"
    and room: "step_roomy opts s al" and step: "cfi_step data x (sig s) y"
  shows "\<exists>s' al'. handle_signal opts data s al = Some (Break, s', al')"
  using step sim
proof cases
  case (start m f p)
  then show ?thesis using sim
    by (auto simp: handle_signal_def at_function_def is_event_def sim_def on_enter_def entry_point_def
        Let_def not_le split: option.splits)
next
  case (leave_block m f b fs)
  then show ?thesis using sim
    by (simp add: handle_signal_def at_function_def is_event_def sim_def on_before_jump_def pos_rel_def)
next
  case (reach_block m f b' b fs)
  then have ev: "client_event_of (sig_event (sig s)) = Some CFI_AFTER_JUMP" "state s = SM_STATE_ExpectJump"
    "m = sig_module (sig s)" "f = sig_function (sig s)" and pos: "pos_rel opts data s (m, f, b)"
    and rel: "stacks_rel opts data s fs"
    using sim by (simp_all add: at_function_def is_event_def sim_def)
  obtain fd e where fd: "function_at data (Some (unat m, unat f)) = Some fd" "b' < nb_blocks fd"
    "graph_at (control_flow_graph fd) b b' = Some e" "e \<noteq> 0"
    using reach_block(5) by (auto simp: cfg_edge_def split: option.splits)
  have "OPTION_sm_trace opts \<longrightarrow> range al \<subseteq> {Alloc_InPlace} \<and>
      arr_get (immediate_post_dominator fd) (unat (topblock s)) \<noteq> None"
    using room pos ipd_defined [OF wf(1) _ fd(1,2), of "topblock s"]
    by (auto simp: step_roomy_def roomy_def pos_rel_def)
  then obtain s' al' where "trace_jump opts fd s al = Some (s', al')"
    using trace_jump_room [OF rel err] by blast
  with ev pos fd show ?thesis
    using reach_block by (simp add: handle_signal_def on_after_jump_def pos_rel_def)
next
  case (call g m f m' f' b fs)
  then have ev: "client_event_of (sig_event (sig s)) = Some CFI_CALL" "state s = SM_STATE_InFunction"
    and pos: "pos_rel opts data s (m, f, b)" and rel: "stacks_rel opts data s fs"
    using sim by (simp_all add: is_event_def sim_def)
  obtain md e where md: "module_at data (Some (unat m)) = Some md" "g < nb_functions md"
    "graph_at (call_graph md) f g = Some e" "e \<noteq> 0"
    using call by (auto simp: call_edge_def split: option.splits)
  have r: "roomy opts s al" using room call by (simp add: step_roomy_def)
  obtain s1 al' where save: "save_caller opts s al = Some (s1, al')"
    using save_caller_room [OF rel err r] by blast
  have "\<exists>m' f'. call_target data md s1 = Some (m', f', Some (unat m'))"
    using call_target_dest [OF wf md(1,2), of s1] save_caller_frame [OF save] pos call
    by (auto simp: pos_rel_def)
  with ev pos md save show ?thesis
    using call by (auto simp: handle_signal_def on_call_def pos_rel_def)
next
  case (enter m f fs)
  then show ?thesis using sim
    by (simp add: handle_signal_def at_function_def is_event_def sim_def on_enter_def pos_rel_def
        FUNCTION_ENTRY_BLOCK_ID_def)
next
  case (leave m f b fr fs)
  obtain m' f' b' where fr: "fr = (m', f', b')" by (cases fr)
  have rel: "stacks_rel opts data s ((m', f', b') # fs)"
    using sim leave fr by (simp add: sim_def)
  have "CALL_STACK_IS_EMPTY (calls s) = Some False"
    using rel stacks_rel_height [OF rel] by (simp add: CALL_STACK_IS_EMPTY_def stack_is_empty_ok stacks_rel_def)
  moreover have "\<exists>s'. restore_caller opts data s al = Some (Break, s', al)"
    by (rule restore_caller_ok [OF rel, of al]) blast
  ultimately show ?thesis using sim leave
    by (auto simp: handle_signal_def at_function_def is_event_def sim_def on_exit_def pos_rel_def)
next
  case (returned g m f b fs)
  then show ?thesis using sim
    by (auto simp: handle_signal_def is_event_def sim_def on_returned_def pos_rel_def call_edge_def
        not_le split: option.splits)
qed

text \<open>The exit of the entry point, and nothing else, ends the run with an answer.\<close>

lemma entry_point_iff:
  assumes "wf_modules data" "module_at data (Some (unat m)) = Some md" "f < nb_functions md"
    "arr_get (md_functions md) (unat f) = Some fd"
  shows "entry_point data m f \<longleftrightarrow> FUNCTION_IS_ENTRYPOINT fd"
proof -
  have "unat m < unat (nb_modules data)"
    using assms(1,2) by (auto simp: wf_modules_def module_at_def split: option.splits if_splits)
  then have "(ucast m :: u32) < nb_modules data"
    by (simp add: word_less_nat_alt)
  with assms(2-) show ?thesis by (simp add: entry_point_def)
qed

lemma restore_caller_no_answer: "restore_caller opts data s al \<noteq> Some (Answer_and_exit, s', al')"
  by (cases "OPTION_sm_trace opts")
    (auto simp: restore_caller_def fail_def bind_eq_Some_conv Let_def split: if_split_asm)

lemma answer_is_exit:
  assumes "handle_signal opts data s al = Some (Answer_and_exit, s', al')"
  shows "is_event CFI_EXIT (sig s)" "on_exit opts data s al = Some (Answer_and_exit, s', al')"
  using assms
  by (auto simp: handle_signal_def is_event_def on_before_jump_def on_after_jump_def on_call_def
      on_enter_def on_returned_def fail_def bind_eq_Some_conv Let_def
      split: option.splits client_event.splits if_split_asm)

lemma answer_frame:
  assumes "handle_signal opts data s al = Some (Answer_and_exit, s', al')"
  shows "s' = s\<lparr>state := SM_STATE_Ready\<rparr> \<and> al' = al"
  using answer_is_exit(2) [OF assms]
  by (auto simp: on_exit_def fail_def bind_eq_Some_conv restore_caller_no_answer split: if_split_asm)

lemma sim_final:
  assumes wf: "wf_modules data" and sim: "sim opts data s x"
  shows "handle_signal opts data s al = Some (Answer_and_exit, s\<lparr>state := SM_STATE_Ready\<rparr>, al) \<longleftrightarrow>
    cfi_final data x (sig s)"
proof (cases "is_event CFI_EXIT (sig s) \<and> phase x = SM_STATE_InFunction \<and> frames x = [] \<and>
    current_module s = sig_module (sig s) \<and> current_function s = sig_function (sig s)")
  case True
  let ?m = "current_module s" and ?f = "current_function s"
  have x: "x = Cfi SM_STATE_InFunction (?m, ?f, curblock s) []"
    and pos: "pos_rel opts data s (?m, ?f, curblock s)" and st: "state s = SM_STATE_InFunction"
    using sim True by (cases x; simp add: sim_def pos_rel_def)+
  obtain md fd where md: "module_at data (Some (unat ?m)) = Some md" "?f < nb_functions md"
    "arr_get (md_functions md) (unat ?f) = Some fd"
    by (rule function_exists_at [OF wf, of ?m ?f]) (use pos in \<open>auto simp: pos_rel_def block_ok_def\<close>)
  have "CALL_STACK_IS_EMPTY (calls s) = Some True"
    using sim True stacks_rel_height [of opts data s "[]"]
    by (auto simp: sim_def CALL_STACK_IS_EMPTY_def stack_is_empty_ok stacks_rel_def)
  then have "handle_signal opts data s al = Some (Answer_and_exit, s\<lparr>state := SM_STATE_Ready\<rparr>, al) \<longleftrightarrow>
      FUNCTION_IS_ENTRYPOINT fd"
    using True st md pos
    by (simp add: handle_signal_def is_event_def on_exit_def pos_rel_def fail_def)
  moreover have "cfi_final data x (sig s) \<longleftrightarrow> entry_point data ?m ?f"
    using True x by (auto simp: at_function_def elim!: cfi_finalE intro: cfi_final.finish)
  ultimately show ?thesis using entry_point_iff [OF wf md] by simp
next
  case False
  then have "\<not> cfi_final data x (sig s)"
    using sim by (auto elim!: cfi_finalE simp: at_function_def sim_def pos_rel_def)
  moreover have "on_exit opts data s al \<noteq> Some (Answer_and_exit, s\<lparr>state := SM_STATE_Ready\<rparr>, al)"
    if "is_event CFI_EXIT (sig s)"
    using False that sim stacks_rel_height [of opts data s "frames x"]
    by (auto simp: on_exit_def fail_def bind_eq_Some_conv restore_caller_no_answer sim_def
        CALL_STACK_IS_EMPTY_def stack_is_empty_ok stacks_rel_def split: if_splits)
  ultimately show ?thesis using answer_is_exit [of opts data s al] by blast
qed

lemma goto_exit_error:
  assumes "handle_signal opts data s al = Some (Goto_exit, s', al')"
  shows "error s' \<noteq> 0"
proof -
  have "error s' \<noteq> 0" if "restore_caller opts data s al = Some (Goto_exit, s', al')"
    using that by (cases "OPTION_sm_trace opts")
      (auto simp: restore_caller_def fail_def bind_eq_Some_conv Let_def split: if_split_asm)
  then show ?thesis
    using assms by (auto simp: handle_signal_def handlers bind_eq_Some_conv Let_def
      split: option.splits client_event.splits if_split_asm)
qed

end
