(* ===== verification/Cfi_Run.thy ===== *)
theory Cfi_Run
  imports Cfi_Refinement
begin

text \<open>
  Whole runs: what \<open>monitor_run\<close> returns on a stream of signals, in terms of the policy. The
  stream holds one packet per signal, as \<open>WRITE_CLIENT_SIGNAL\<close> writes them.
\<close>

section \<open>One turn of the loop\<close>

lemma answer_error:
  assumes "write_monitor_answer w e = (w', e')" "e' = 0"
  shows "e = 0" "monitor_to_client w' = monitor_to_client w @ [[CFI_OK]]"
    "client_to_monitor w' = client_to_monitor w" "w_alloc w' = w_alloc w"
  using assms
  by (auto simp: write_monitor_answer_def WRITE_MONITOR_ANSWER_def pipe_write_def PIPE_BUF_def
      split: prod.splits if_splits)

lemma wait_error:
  assumes "answer_and_wait opts s w = (s', w')" "error s' = 0"
  shows "s' = s" "error s = 0" "monitor_to_client w' = monitor_to_client w @ [[CFI_OK]]"
    "client_to_monitor w' = client_to_monitor w" "w_alloc w' = w_alloc w"
proof -
  obtain w1 e1 where a: "write_monitor_answer w (error s) = (w1, e1)" by fastforce
  then have e: "e1 = 0" and w': "client_to_monitor w' = client_to_monitor w1"
      "monitor_to_client w' = monitor_to_client w1" "w_alloc w' = w_alloc w1" and s': "s' = s\<lparr>error := 0\<rparr>"
    using assms by (auto simp: answer_and_wait_def MONITOR_SIGNAL_TIMEOUT_def split: if_splits)
  then show "s' = s" "error s = 0" "monitor_to_client w' = monitor_to_client w @ [[CFI_OK]]"
    "client_to_monitor w' = client_to_monitor w" "w_alloc w' = w_alloc w"
    using answer_error [OF a e] by simp_all
qed

lemma read_signal_next:
  assumes "client_to_monitor w = encode_signal c # p"
  shows "read_signal s w = (s\<lparr>sig := c\<rparr>, w\<lparr>client_to_monitor := p\<rparr>)"
  using assms read_written_signal [of c p]
  by (simp add: read_signal_def read_client_signal_def PIPE_BUF_def sizeof_client_signal_def encode_signal_def)

lemma read_signal_end:
  "client_to_monitor w = [] \<Longrightarrow> read_signal s w = (s\<lparr>error := 1\<rparr>, w)"
  by (simp add: read_signal_def read_client_signal_def)

text \<open>A signal seen twice ends the run with an error.\<close>

lemma run_loop_refused:
  assumes "handle_signal opts data s al = Some (Break, s1, al1)" "sig s2 = sig s1" "state s2 = state s1"
  shows "run_loop opts data s2 w = Some (s2\<lparr>error := 4\<rparr>, w)"
  using handled_signal_refused [OF assms] by (simp add: run_loop.simps)

section \<open>What is accepted was allowed\<close>

definition accepted :: "monitor_data \<Rightarrow> cfi \<Rightarrow> client_signal \<Rightarrow> client_signal list \<Rightarrow> world \<Rightarrow> world \<Rightarrow> bool" where
  "accepted data x c ts w w' \<longleftrightarrow>
     (\<exists>us vs. ts = us @ vs \<and> cfi_complete data x (c # us) \<and>
        client_to_monitor w' = map encode_signal vs \<and>
        monitor_to_client w' = monitor_to_client w @ replicate (Suc (length us)) [CFI_OK])"

lemma cfi_complete_final: "cfi_final data x c \<Longrightarrow> cfi_complete data x [c]"
  unfolding cfi_complete_def by (auto intro: path_Nil)

lemma cfi_complete_step:
  assumes "cfi_step data x c y" "cfi_complete data y us"
  shows "cfi_complete data x (c # us)"
  using assms path_step [OF assms(1)] unfolding cfi_complete_def by (metis append_Cons)

lemma run_loop_turn:
  assumes run: "run_loop opts data s w = Some (s', w')" "error s' = 0"
    and pipe: "client_to_monitor w = map encode_signal ts"
  obtains (last) "handle_signal opts data s (w_alloc w) =
      Some (Answer_and_exit, s\<lparr>state := SM_STATE_Ready\<rparr>, w_alloc w)"
      "client_to_monitor w' = client_to_monitor w" "monitor_to_client w' = monitor_to_client w @ [[CFI_OK]]"
  | (turn) s1 t ts' w1 where "handle_signal opts data s (w_alloc w) = Some (Break, s1, w_alloc w1)"
      "ts = t # ts'" "client_to_monitor w1 = map encode_signal ts'"
      "monitor_to_client w1 = monitor_to_client w @ [[CFI_OK]]"
      "run_loop opts data (s1\<lparr>sig := t\<rparr>) w1 = Some (s', w')"
proof -
  obtain j s1 al1 where h: "handle_signal opts data s (w_alloc w) = Some (j, s1, al1)"
    using run(1) by (auto simp: run_loop.simps split: option.splits)
  define w0 where "w0 = w\<lparr>w_alloc := al1\<rparr>"
  show ?thesis
  proof (cases j)
    case Goto_exit
    with h run goto_exit_error [of opts data s "w_alloc w" s1 al1] show ?thesis
      by (simp add: run_loop.simps)
  next
    case Answer_and_exit
    then have al: "s1 = s\<lparr>state := SM_STATE_Ready\<rparr>" "al1 = w_alloc w"
      using answer_frame h by auto
    obtain w2 e where a: "write_monitor_answer w (error s1) = (w2, e)" by fastforce
    then have "w' = w2" "e = 0" using h run Answer_and_exit al by (auto simp: run_loop.simps)
    with answer_error [OF a] h al Answer_and_exit show ?thesis by (intro last) simp_all
  next
    case Break
    obtain s2 w2 where a: "answer_and_wait opts s1 w0 = (s2, w2)" by fastforce
    have "error s2 = 0"
      using h run Break a by (auto simp: run_loop.simps w0_def split: if_splits)
    note wait = wait_error [OF a this]
    obtain s3 w3 where r: "read_signal s2 w2 = (s3, w3)" by fastforce
    have next_run: "run_loop opts data s3 w3 = Some (s', w')"
      using run h Break a r wait by (simp add: run_loop.simps [of opts data s w] w0_def)
    show ?thesis
    proof (cases ts)
      case Nil
      then have "s3 = s1\<lparr>error := 1\<rparr>" using r wait pipe read_signal_end [of w2 s2] by (simp add: w0_def)
      then have "error s' = 4"
        using next_run run_loop_refused [of opts data s "w_alloc w" s1 al1 s3 w3] h Break by auto
      with run(2) show ?thesis by simp
    next
      case (Cons t ts')
      then have "s3 = s1\<lparr>sig := t\<rparr>" "w3 = w2\<lparr>client_to_monitor := map encode_signal ts'\<rparr>"
        using r wait pipe read_signal_next [of w2 t "map encode_signal ts'" s2] by (simp_all add: w0_def)
      with Cons next_run h Break wait show ?thesis
        by (intro turn [of s1 w3 t ts']) (simp_all add: w0_def)
    qed
  qed
qed

lemma sim_sig [simp]: "sim opts data (s\<lparr>sig := c\<rparr>) x = sim opts data s x"
  by (simp add: sim_def pos_rel_def stacks_rel_def)

lemma accepted_step:
  assumes "cfi_step data x c y" "accepted data y t ts w1 w'"
    "monitor_to_client w1 = monitor_to_client w @ [[CFI_OK]]"
  shows "accepted data x c (t # ts) w w'"
proof -
  obtain us vs where "ts = us @ vs" "cfi_complete data y (t # us)" "client_to_monitor w' = map encode_signal vs"
    "monitor_to_client w' = monitor_to_client w1 @ replicate (Suc (length us)) [CFI_OK]"
    using assms(2) unfolding accepted_def by blast
  then have "t # ts = (t # us) @ vs \<and> cfi_complete data x (c # t # us) \<and>
      client_to_monitor w' = map encode_signal vs \<and>
      monitor_to_client w' = monitor_to_client w @ replicate (Suc (length (t # us))) [CFI_OK]"
    using assms(3) cfi_complete_step [OF assms(1)] by simp
  then show ?thesis unfolding accepted_def by blast
qed

lemma run_loop_sound:
  assumes wf: "wf_modules data" "relocs_ok data"
    and "Alloc_Fail \<notin> range (w_alloc w)" "sim opts data s x" "error s = 0"
      "client_to_monitor w = map encode_signal ts" "run_loop opts data s w = Some (s', w')" "error s' = 0"
  shows "accepted data x (sig s) ts w w'"
  using assms(3-)
proof (induction "length ts" arbitrary: ts s x w rule: less_induct)
  case less
  show ?case
    using less.prems(5,6,4)
  proof (cases rule: run_loop_turn)
    case last
    then have "cfi_final data x (sig s)" using sim_final [OF wf(1) less.prems(2)] by simp
    then show ?thesis
      using last less.prems(4) cfi_complete_final by (auto simp: accepted_def intro!: exI [of _ "[]"])
  next
    case (turn s1 t ts' w1)
    have "step_clean opts s (w_alloc w)"
      using less.prems(1) by (simp add: step_clean_def clean_def)
    then obtain y where y: "cfi_step data x (sig s) y" "sim opts data s1 y"
      and s1: "error s1 = 0" "range (w_alloc w1) \<subseteq> range (w_alloc w)"
      using sim_step_sound [OF wf less.prems(2,3) _ turn(1)] by auto
    have "accepted data y (sig (s1\<lparr>sig := t\<rparr>)) ts' w1 w'"
      by (rule less.hyps) (use turn less.prems y s1 in auto)
    then show ?thesis
      using accepted_step [OF y(1) _ turn(4), of t ts' w'] turn(2) by simp
  qed
qed

section \<open>What is allowed is accepted\<close>

text \<open>
  \<open>grows_in_place\<close>: the allocator grows every array in place. Otherwise the program may have
  at most 512 callers active, and the monitor must not be in trace mode, where every jump to a
  post-dominator occupies a cell of the block stack until the function returns.
\<close>

definition depth_fits :: "options \<Rightarrow> world \<Rightarrow> nat \<Rightarrow> bool" where
  "depth_fits opts w n \<longleftrightarrow>
     range (w_alloc w) \<subseteq> {Alloc_InPlace} \<or> \<not> OPTION_sm_trace opts \<and> n \<le> CALL_STACK_EXTEND_SIZE"

definition responsive :: "options \<Rightarrow> world \<Rightarrow> bool" where
  "responsive opts w \<longleftrightarrow> range (w_write w) \<subseteq> {True} \<and> (opt_TIMEOUT opts \<longrightarrow> range (w_select w) \<subseteq> {True})"

lemma depth_fits_step:
  assumes "depth_fits opts w n" "sim opts data s x" "cfi_step data x (sig s) y" "length (frames y) \<le> n"
  shows "step_roomy opts s (w_alloc w)"
proof (cases "range (w_alloc w) \<subseteq> {Alloc_InPlace}")
  case True
  then show ?thesis by (simp add: step_roomy_def roomy_def)
next
  case False
  with assms(1) have n: "\<not> OPTION_sm_trace opts" "n \<le> CALL_STACK_EXTEND_SIZE" by (simp_all add: depth_fits_def)
  have "length (frames y) = Suc (length (frames x))" if "is_event CFI_CALL (sig s)"
    using assms(3) that by cases (auto simp: at_function_def dest: is_event_unique)
  moreover have rel: "stacks_rel opts data s (frames x)"
    using assms(2) by (simp add: sim_def)
  moreover have "stack_height (calls s) = length (frames x)"
      "stack_height (blocks s) = length (frames x)"
      "CALL_STACK_EXTEND_SIZE \<le> stack_cap (calls s)" "BLOCK_STACK_EXTEND_SIZE \<le> stack_cap (blocks s)"
    using rel n(1) stacks_rel_height [OF rel] by (simp_all add: stacks_rel_def)
  ultimately show ?thesis
    using n assms(4)
    by (auto simp: step_roomy_def roomy_def CALL_STACK_EXTEND_SIZE_def BLOCK_STACK_EXTEND_SIZE_def)
qed

lemma answer_responsive:
  assumes "responsive opts w"
  shows "\<exists>w'. write_monitor_answer w 0 = (w', 0) \<and> responsive opts w' \<and> w_alloc w' = w_alloc w \<and>
    client_to_monitor w' = client_to_monitor w \<and>
    monitor_to_client w' = monitor_to_client w @ [[CFI_OK]]"
  using assms
  by (auto simp: responsive_def write_monitor_answer_def WRITE_MONITOR_ANSWER_def pipe_write_def PIPE_BUF_def
      image_subset_iff split: prod.splits)

lemma wait_responsive:
  assumes "responsive opts w" "error s = 0"
  shows "\<exists>w'. answer_and_wait opts s w = (s, w') \<and> responsive opts w' \<and> w_alloc w' = w_alloc w \<and>
    client_to_monitor w' = client_to_monitor w \<and>
    monitor_to_client w' = monitor_to_client w @ [[CFI_OK]]"
  using answer_responsive [OF assms(1)] assms(2)
  by (auto simp: answer_and_wait_def MONITOR_SIGNAL_TIMEOUT_def responsive_def image_subset_iff)

definition completed :: "client_signal list \<Rightarrow> client_signal list \<Rightarrow> world \<Rightarrow> run_state \<Rightarrow> world \<Rightarrow> bool" where
  "completed us vs w s' w' \<longleftrightarrow>
     error s' = 0 \<and> stack_ok (calls s') \<and> stack_ok (blocks s') \<and>
     client_to_monitor w' = map encode_signal vs \<and>
     monitor_to_client w' = monitor_to_client w @ replicate (length us) [CFI_OK]"

lemma run_loop_complete:
  assumes wf: "wf_modules data" "relocs_ok data"
    and "cfi_path data n x cs y" "cfi_final data y c" "sig s # ts = cs @ c # vs"
      "client_to_monitor w = map encode_signal ts" "sim opts data s x" "error s = 0"
      "depth_fits opts w n" "responsive opts w"
  shows "\<exists>s' w'. run_loop opts data s w = Some (s', w') \<and> completed (cs @ [c]) vs w s' w'"
  using assms(3-)
proof (induction arbitrary: s ts w rule: cfi_path.induct)
  case (path_Nil x)
  then have h: "handle_signal opts data s (w_alloc w) =
      Some (Answer_and_exit, s\<lparr>state := SM_STATE_Ready\<rparr>, w_alloc w)"
    using sim_final [OF wf(1) path_Nil.prems(4)] by simp
  obtain w' where "write_monitor_answer w 0 = (w', 0)"
    "client_to_monitor w' = client_to_monitor w" "monitor_to_client w' = monitor_to_client w @ [[CFI_OK]]"
    using answer_responsive [OF path_Nil.prems(7)] by blast
  with h path_Nil.prems show ?case
    by (simp add: run_loop.simps completed_def sim_def stacks_rel_def)
next
  case (path_Cons x c1 x' cs y)
  have "length (frames x') \<le> n"
    using path_Cons.hyps(3) by cases
  then have room: "step_roomy opts s (w_alloc w)"
    using path_Cons.prems(2) path_Cons.hyps(2)
    by (intro depth_fits_step [OF path_Cons.prems(6,4)]) simp_all
  obtain t ts' where ts: "ts = t # ts'" "t # ts' = cs @ c # vs" "sig s = c1"
    using path_Cons.prems(2) by (cases ts) auto
  obtain s1 al1 where h: "handle_signal opts data s (w_alloc w) = Some (Break, s1, al1)"
    using sim_step_complete [OF wf path_Cons.prems(4,5) room] path_Cons.hyps(2) ts(3) by blast
  then have s1: "error s1 = 0" "sim opts data s1 x'" and al1: "range al1 \<subseteq> range (w_alloc w)"
    using sim_step_sound [OF wf path_Cons.prems(4,5) step_roomy_clean [OF room] h] path_Cons.hyps(2) ts(3)
    by (auto dest: cfi_step_deterministic)
  obtain w1 where w1: "answer_and_wait opts s1 (w\<lparr>w_alloc := al1\<rparr>) = (s1, w1)" "responsive opts w1"
      "w_alloc w1 = al1" "client_to_monitor w1 = encode_signal t # map encode_signal ts'"
      "monitor_to_client w1 = monitor_to_client w @ [[CFI_OK]]"
    using wait_responsive [of opts "w\<lparr>w_alloc := al1\<rparr>" s1] s1(1) path_Cons.prems(3,7) ts(1)
    by (auto simp: responsive_def)
  define w2 where "w2 = w1\<lparr>client_to_monitor := map encode_signal ts'\<rparr>"
  have "run_loop opts data s w = run_loop opts data (s1\<lparr>sig := t\<rparr>) w2"
    using h w1 s1(1) read_signal_next [OF w1(4)]
    by (simp add: run_loop.simps [of opts data s w] w2_def)
  moreover have "\<exists>s' w'. run_loop opts data (s1\<lparr>sig := t\<rparr>) w2 = Some (s', w') \<and>
      completed (cs @ [c]) vs w2 s' w'"
  proof (rule path_Cons.IH)
    show "depth_fits opts w2 n"
      using path_Cons.prems(6) subset_trans [OF al1] w1(3) by (auto simp: depth_fits_def w2_def)
  qed (use path_Cons.prems(1) ts s1 w1 in \<open>simp_all add: w2_def responsive_def\<close>)
  ultimately show ?case
    using w1(5) by (auto simp: completed_def w2_def)
qed

section \<open>Nesting of calls\<close>

text \<open>The largest number of callers active at once, read off the events alone.\<close>

fun call_depth :: "nat \<Rightarrow> client_signal list \<Rightarrow> nat" where
  "call_depth d [] = d"
| "call_depth d (c # cs) =
     max d (call_depth (if is_event CFI_CALL c then Suc d else if is_event CFI_EXIT c then d - 1 else d) cs)"

lemma call_depth_ge: "d \<le> call_depth d cs"
  by (cases cs) simp_all

lemma cfi_step_depth:
  assumes "cfi_step data x c y"
  shows "length (frames y) = (if is_event CFI_CALL c then Suc (length (frames x))
    else if is_event CFI_EXIT c then length (frames x) - 1 else length (frames x))"
  using assms by cases (auto simp: at_function_def is_event_def)

lemma cfi_path_depth:
  assumes "cfi_path data n x cs y"
  shows "cfi_path data (call_depth (length (frames x)) cs) x cs y"
  using assms
proof (induction rule: cfi_path.induct)
  case (path_Nil x)
  then show ?case by (auto intro: cfi_path.path_Nil)
next
  case (path_Cons x c x' cs z)
  have d: "call_depth (length (frames x)) (c # cs) = max (length (frames x)) (call_depth (length (frames x')) cs)"
    using cfi_step_depth [OF path_Cons.hyps(2)] by simp
  have "cfi_path data (call_depth (length (frames x)) (c # cs)) x' cs z"
    unfolding d using path_Cons.IH by (rule cfi_path_mono) simp
  with path_Cons.hyps(2) show ?case
    by (intro cfi_path.path_Cons) (simp_all add: d)
qed

lemma call_depth_append: "call_depth d cs \<le> call_depth d (cs @ [c])"
proof (induction d cs rule: call_depth.induct)
  case (2 d c' cs)
  then show ?case by (simp only: append_Cons call_depth.simps)
qed simp

section \<open>Whole runs\<close>

lemma call_stack_init_ok:
  assumes "al 0 \<noteq> Alloc_Fail"
  obtains cl where "call_stack_init al stack_uninit = (0, cl, alloc_rest al)" "stack_ok cl"
    "stack_list cl = []" "stack_cap cl = CALL_STACK_EXTEND_SIZE"
  unfolding call_stack_init_def
  by (rule stack_init_ok [of CALL_STACK_EXTEND_SIZE al _ stack_uninit, OF extend_sizes_pos(2) assms])

lemma block_stack_init_ok:
  assumes "al 0 \<noteq> Alloc_Fail"
  obtains bl where "block_stack_init al stack_uninit = (0, bl, alloc_rest al)" "stack_ok bl"
    "stack_height bl = 0" "stack_cap bl = BLOCK_STACK_EXTEND_SIZE"
  unfolding block_stack_init_def
  by (rule stack_init_ok [of BLOCK_STACK_EXTEND_SIZE al _ stack_uninit, OF extend_sizes_pos(1) assms])

lemma sim_init:
  assumes "stack_ok cl" "stack_list cl = []" "stack_cap cl = CALL_STACK_EXTEND_SIZE"
    "stack_ok bl" "stack_height bl = 0" "stack_cap bl = BLOCK_STACK_EXTEND_SIZE"
  shows "sim opts data (run_init cl bl g) (Cfi SM_STATE_Ready p [])"
  using assms by (simp add: sim_def stacks_rel_def run_init_def)

lemma exit_error:
  assumes "monitor_run_exit opts s w = Some (e, w')"
  shows "e = error s" "client_to_monitor w' = client_to_monitor w" "monitor_to_client w' = monitor_to_client w"
  using assms
  by (auto simp: monitor_run_exit_def log_failure_def bind_eq_Some_conv Let_def split: if_splits)

lemma exit_success:
  assumes "error s = 0" "stack_ok (calls s)" "stack_ok (blocks s)"
  shows "monitor_run_exit opts s w = Some (0, w)"
  using assms(1) stack_free_ok [OF assms(2)] stack_free_ok [OF assms(3)]
  by (auto simp: monitor_run_exit_def log_failure_def call_stack_free_def block_stack_free_def)

lemma run_loop_ready_error:
  assumes "run_loop opts data s w = Some (s', w')" "state s = SM_STATE_Ready" "error s \<noteq> 0"
  shows "error s' \<noteq> 0"
proof
  assume "error s' = 0"
  obtain j s1 al1 where h: "handle_signal opts data s (w_alloc w) = Some (j, s1, al1)"
    using assms(1) by (auto simp: run_loop.simps split: option.splits)
  show False
  proof (cases j)
    case Goto_exit
    with h assms(1) \<open>error s' = 0\<close> goto_exit_error [of opts data s "w_alloc w" s1 al1] show ?thesis
      by (simp add: run_loop.simps)
  next
    case Answer_and_exit
    then show ?thesis
      using answer_is_exit(2) [of opts data s "w_alloc w"] h assms(2) by (simp add: on_exit_def fail_def)
  next
    case Break
    then obtain e where "client_event_of (sig_event (sig s)) = Some e" "expects (state s) e"
      using h by (auto elim: handle_signal_Break)
    then have "on_enter data s (w_alloc w) = Some (Break, s1, al1)"
      using h Break assms(2) by (simp add: handle_signal_def)
    then have "error s1 \<noteq> 0"
      using assms(2,3) by (auto simp: on_enter_def bind_eq_Some_conv Let_def split: if_split_asm)
    moreover obtain s2 w2 where a: "answer_and_wait opts s1 (w\<lparr>w_alloc := al1\<rparr>) = (s2, w2)" by fastforce
    ultimately have "error s2 \<noteq> 0" using wait_error(2) [OF a] by auto
    then show ?thesis using assms(1) h Break a \<open>error s' = 0\<close> by (simp add: run_loop.simps)
  qed
qed

text \<open>
  The run proper, from the moment both stacks are allocated: what \<open>monitor_run\<close> does after
  its two \<open>init\<close> calls.
\<close>

lemma monitor_run_stacks:
  assumes "Alloc_Fail \<notin> range (w_alloc w)"
  obtains cl bl where "stack_ok cl" "stack_list cl = []" "stack_cap cl = CALL_STACK_EXTEND_SIZE"
    "stack_ok bl" "stack_height bl = 0" "stack_cap bl = BLOCK_STACK_EXTEND_SIZE"
    "monitor_run opts g data w =
      (let w = w\<lparr>w_alloc := alloc_rest (alloc_rest (w_alloc w))\<rparr>; s = run_init cl bl g;
           (w, e) = MONITOR_SIGNAL_TIMEOUT opts w 0 in
       if e \<noteq> 0 then monitor_run_exit opts (s\<lparr>error := e\<rparr>) w
       else let (s, w) = read_signal s w in
         do { (s, w) \<leftarrow> run_loop opts data s w; monitor_run_exit opts s w })"
proof -
  have al: "w_alloc w 0 \<noteq> Alloc_Fail" "alloc_rest (w_alloc w) 0 \<noteq> Alloc_Fail"
    using assms by (metis rangeI)+
  obtain cl where cl: "call_stack_init (w_alloc w) stack_uninit = (0, cl, alloc_rest (w_alloc w))" "stack_ok cl"
    "stack_list cl = []" "stack_cap cl = CALL_STACK_EXTEND_SIZE"
    using al(1) by (rule call_stack_init_ok)
  obtain bl where bl: "block_stack_init (alloc_rest (w_alloc w)) stack_uninit =
      (0, bl, alloc_rest (alloc_rest (w_alloc w)))" "stack_ok bl"
    "stack_height bl = 0" "stack_cap bl = BLOCK_STACK_EXTEND_SIZE"
    using al(2) by (rule block_stack_init_ok)
  show ?thesis
    using cl bl by (intro that [OF cl(2-4) bl(2-4)]) (simp add: monitor_run_def)
qed

lemma range_alloc_rest: "range (alloc_rest al) \<subseteq> range al"
  by auto

lemma timeout_frame:
  assumes "MONITOR_SIGNAL_TIMEOUT opts w e = (w', e')"
  shows "w_alloc w' = w_alloc w" "client_to_monitor w' = client_to_monitor w"
    "monitor_to_client w' = monitor_to_client w"
  using assms by (cases "opt_TIMEOUT opts"; fastforce simp: MONITOR_SIGNAL_TIMEOUT_def)+

lemma timeout_responsive:
  assumes "MONITOR_SIGNAL_TIMEOUT opts w e = (w', e')" "responsive opts w"
  shows "e' = e \<and> responsive opts w'"
  using assms by (cases "opt_TIMEOUT opts")
    (auto simp: MONITOR_SIGNAL_TIMEOUT_def responsive_def image_subset_iff)

lemma monitor_run_sound:
  assumes wf: "wf_modules data" "relocs_ok data" and al: "Alloc_Fail \<notin> range (w_alloc w)"
    and pipe: "client_to_monitor w = map encode_signal ts"
    and run: "monitor_run opts g data w = Some (0, w')"
  shows "\<exists>us vs m f. ts = us @ vs \<and> entry_point data m f \<and> activation data m f us \<and>
    client_to_monitor w' = map encode_signal vs \<and>
    monitor_to_client w' = monitor_to_client w @ replicate (length us) [CFI_OK]"
proof -
  obtain cl bl where st: "stack_ok cl" "stack_list cl = []" "stack_cap cl = CALL_STACK_EXTEND_SIZE"
    "stack_ok bl" "stack_height bl = 0" "stack_cap bl = BLOCK_STACK_EXTEND_SIZE"
    and eq: "monitor_run opts g data w =
      (let w = w\<lparr>w_alloc := alloc_rest (alloc_rest (w_alloc w))\<rparr>; s = run_init cl bl g;
           (w, e) = MONITOR_SIGNAL_TIMEOUT opts w 0 in
       if e \<noteq> 0 then monitor_run_exit opts (s\<lparr>error := e\<rparr>) w
       else let (s, w) = read_signal s w in
         do { (s, w) \<leftarrow> run_loop opts data s w; monitor_run_exit opts s w })"
    using al by (rule monitor_run_stacks)
  define w0 where "w0 = w\<lparr>w_alloc := alloc_rest (alloc_rest (w_alloc w))\<rparr>"
  obtain w1 e1 where t: "MONITOR_SIGNAL_TIMEOUT opts w0 0 = (w1, e1)" by fastforce
  obtain s2 w2 where r: "read_signal (run_init cl bl g) w1 = (s2, w2)" by fastforce
  have "e1 = 0"
    using run eq t exit_error(1) by (fastforce simp: w0_def [symmetric])
  then obtain s3 w3 where loop: "run_loop opts data s2 w2 = Some (s3, w3)"
    and exit: "monitor_run_exit opts s3 w3 = Some (0, w')"
    using run eq t r by (auto simp: w0_def [symmetric] bind_eq_Some_conv)
  have e3: "error s3 = 0" using exit_error(1) [OF exit] by simp
  have pipe1: "client_to_monitor w1 = map encode_signal ts"
    using timeout_frame(2) [OF t] pipe by (simp add: w0_def)
  show ?thesis
  proof (cases ts)
    case Nil
    then have "error s3 \<noteq> 0"
      using run_loop_ready_error [OF loop] r pipe1 by (auto simp: read_signal_end run_init_def)
    with e3 show ?thesis by simp
  next
    case (Cons t1 ts')
    then have s2: "s2 = (run_init cl bl g)\<lparr>sig := t1\<rparr>" and w2: "w2 = w1\<lparr>client_to_monitor := map encode_signal ts'\<rparr>"
      using r pipe1 read_signal_next [of w1 t1 "map encode_signal ts'"] by simp_all
    have "accepted data (Cfi SM_STATE_Ready p []) (sig s2) ts' w2 w3"
      using wf _ _ _ _ loop e3
    proof (rule run_loop_sound)
      show "Alloc_Fail \<notin> range (w_alloc w2)"
        using al range_alloc_rest timeout_frame(1) [OF t] by (auto simp: w2 w0_def)
      show "sim opts data s2 (Cfi SM_STATE_Ready p [])"
        using sim_init [OF st] s2 by simp
    qed (simp_all add: s2 w2 run_init_def)
    then obtain us vs where us: "ts' = us @ vs" "cfi_complete data (Cfi SM_STATE_Ready p []) (t1 # us)"
      "client_to_monitor w3 = map encode_signal vs"
      "monitor_to_client w3 = monitor_to_client w @ replicate (Suc (length us)) [CFI_OK]"
      using timeout_frame(3) [OF t] by (auto simp: accepted_def s2 w2 w0_def)
    then show ?thesis
      using complete_activation [OF us(2)] exit_error(2,3) [OF exit] Cons
      by (intro exI [of _ "t1 # us"] exI [of _ vs]) auto
  qed
qed

lemma monitor_run_start:
  assumes wf: "wf_modules data" "relocs_ok data" and al: "Alloc_Fail \<notin> range (w_alloc w)"
    and resp: "responsive opts w"
  obtains s w1 where "sim opts data s (Cfi SM_STATE_Ready p [])" "error s = 0" "state s = SM_STATE_Ready"
    "responsive opts w1" "client_to_monitor w1 = client_to_monitor w"
    "monitor_to_client w1 = monitor_to_client w" "range (w_alloc w1) \<subseteq> range (w_alloc w)"
    "monitor_run opts g data w =
      (let (s, w) = read_signal s w1 in do { (s, w) \<leftarrow> run_loop opts data s w; monitor_run_exit opts s w })"
proof -
  obtain cl bl where st: "stack_ok cl" "stack_list cl = []" "stack_cap cl = CALL_STACK_EXTEND_SIZE"
    "stack_ok bl" "stack_height bl = 0" "stack_cap bl = BLOCK_STACK_EXTEND_SIZE"
    and eq: "monitor_run opts g data w =
      (let w = w\<lparr>w_alloc := alloc_rest (alloc_rest (w_alloc w))\<rparr>; s = run_init cl bl g;
           (w, e) = MONITOR_SIGNAL_TIMEOUT opts w 0 in
       if e \<noteq> 0 then monitor_run_exit opts (s\<lparr>error := e\<rparr>) w
       else let (s, w) = read_signal s w in
         do { (s, w) \<leftarrow> run_loop opts data s w; monitor_run_exit opts s w })"
    using al by (rule monitor_run_stacks)
  define w0 where "w0 = w\<lparr>w_alloc := alloc_rest (alloc_rest (w_alloc w))\<rparr>"
  obtain w1 e1 where t: "MONITOR_SIGNAL_TIMEOUT opts w0 0 = (w1, e1)" by fastforce
  have "responsive opts w0" using resp by (simp add: w0_def responsive_def)
  note resp1 = timeout_responsive [OF t this]
  show ?thesis
  proof (rule that [of "run_init cl bl g" w1])
    show "sim opts data (run_init cl bl g) (Cfi SM_STATE_Ready p [])" by (rule sim_init [OF st])
    show "range (w_alloc w1) \<subseteq> range (w_alloc w)"
      using range_alloc_rest timeout_frame(1) [OF t] by (auto simp: w0_def)
  qed (use eq t resp1 timeout_frame [OF t] in \<open>auto simp: w0_def run_init_def\<close>)
qed

lemma monitor_run_complete:
  assumes wf: "wf_modules data" "relocs_ok data" and al: "Alloc_Fail \<notin> range (w_alloc w)"
    and pipe: "client_to_monitor w = map encode_signal (us @ vs)"
    and act: "entry_point data m f" "activation data m f us"
    and fits: "depth_fits opts w (call_depth 0 us)" and resp: "responsive opts w"
  shows "\<exists>w'. monitor_run opts g data w = Some (0, w') \<and> client_to_monitor w' = map encode_signal vs \<and>
    monitor_to_client w' = monitor_to_client w @ replicate (length us) [CFI_OK]"
proof -
  let ?x = "Cfi SM_STATE_Ready (0, 0, 0) []"
  obtain n cs c y where us: "us = cs @ [c]" and path: "cfi_path data n ?x cs y" and fin: "cfi_final data y c"
    using activation_complete [OF act, of "(0, 0, 0)"] by (auto simp: cfi_complete_def)
  obtain s w1 where s: "sim opts data s ?x" "error s = 0"
    and w1: "responsive opts w1" "client_to_monitor w1 = client_to_monitor w"
      "monitor_to_client w1 = monitor_to_client w" "range (w_alloc w1) \<subseteq> range (w_alloc w)"
    and eq: "monitor_run opts g data w =
      (let (s, w) = read_signal s w1 in do { (s, w) \<leftarrow> run_loop opts data s w; monitor_run_exit opts s w })"
    using wf al resp by (rule monitor_run_start)
  obtain t ts where ts: "us @ vs = t # ts" using us by (cases "us @ vs") auto
  define w2 where "w2 = w1\<lparr>client_to_monitor := map encode_signal ts\<rparr>"
  have r: "read_signal s w1 = (s\<lparr>sig := t\<rparr>, w2)"
    using w1(2) pipe ts read_signal_next [of w1 t "map encode_signal ts" s] by (simp add: w2_def)
  have fits2: "depth_fits opts w2 (call_depth 0 cs)"
    using fits call_depth_append [of 0 cs c] subset_trans [OF w1(4)]
    by (auto simp: depth_fits_def w2_def us)
  have "\<exists>s' w'. run_loop opts data (s\<lparr>sig := t\<rparr>) w2 = Some (s', w') \<and> completed (cs @ [c]) vs w2 s' w'"
    by (rule run_loop_complete [OF wf _ fin _ _ _ _ fits2])
      (use cfi_path_depth [OF path] us ts s w1 in \<open>simp_all add: w2_def responsive_def\<close>)
  then obtain s' w' where run: "run_loop opts data (s\<lparr>sig := t\<rparr>) w2 = Some (s', w')"
    and fin2: "completed us vs w2 s' w'"
    unfolding us by blast
  then have "monitor_run_exit opts s' w' = Some (0, w')"
    by (intro exit_success) (simp_all add: completed_def)
  with eq r run fin2 w1(3) show ?thesis
    by (auto simp: completed_def w2_def)
qed

end
