(* ===== verification/Cfi_Safety.thy ===== *)
theory Cfi_Safety
  imports Cfi_Run
begin

text \<open>
  A monitored run never leaves the defined part of C: with tables in which every graph row is
  present, and an allocator that grows arrays in place, \<open>monitor_run\<close> returns on every
  stream of signals, well-behaved or not.
\<close>

section \<open>No undefined behaviour\<close>

text \<open>
  A row of a graph that was never received is a null pointer, and the handlers follow it. With
  every row present, no signal whatsoever leads to undefined behaviour.
\<close>

definition rows_present :: "byte list option list option \<Rightarrow> bool" where
  "rows_present g \<longleftrightarrow> (case g of None \<Rightarrow> True | Some rows \<Rightarrow> None \<notin> set rows)"

definition graphs_present :: "monitor_data \<Rightarrow> bool" where
  "graphs_present data \<longleftrightarrow>
     (case modules data of None \<Rightarrow> True
      | Some ms \<Rightarrow> \<forall>md \<in> set ms. rows_present (call_graph md) \<and>
          (case md_functions md of None \<Rightarrow> True
           | Some fs \<Rightarrow> \<forall>fd \<in> set fs. rows_present (control_flow_graph fd)))"

lemma graph_at_present:
  assumes "wf_rows n g" "rows_present g" "i < n" "j < n"
  shows "\<exists>e. graph_at g i j = Some e"
proof -
  obtain rows where rows: "g = Some rows" "length rows = unat n"
    "\<And>i xs. i < length rows \<Longrightarrow> rows ! i = Some xs \<Longrightarrow> length xs = unat n"
    by (rule wf_rowsE [OF assms(1)]) metis
  have ij: "unat i < length rows" "unat j < unat n"
    using assms(3,4) rows(2) by (simp_all add: word_less_nat_alt)
  then have "rows ! unat i \<noteq> None"
    using assms(2) rows(1) by (simp add: rows_present_def) (metis nth_mem not_None_eq)
  then obtain xs where "rows ! unat i = Some xs" by blast
  with rows ij show ?thesis by (auto simp: graph_at_def)
qed

lemma call_graph_present:
  assumes "wf_modules data" "graphs_present data" "module_at data (Some i) = Some md"
    "f < nb_functions md" "g < nb_functions md"
  shows "\<exists>e. graph_at (call_graph md) f g = Some e"
proof (rule graph_at_present)
  show "wf_rows (nb_functions md) (call_graph md)"
    by (rule wf_moduleE [OF module_at_wf(1) [OF assms(1,3)]]) (use assms(4) in auto)
  show "rows_present (call_graph md)"
    using assms(2) module_at_wf(2) [OF assms(1,3)] by (auto simp: graphs_present_def)
qed (use assms in auto)

lemma cfg_present:
  assumes "wf_modules data" "graphs_present data" "block_ok data m f b"
    "function_at data (Some (unat m, unat f)) = Some fd" "b' < nb_blocks fd"
  shows "\<exists>e. graph_at (control_flow_graph fd) b b' = Some e"
proof (rule graph_at_present)
  obtain md where md: "module_at data (Some (unat m)) = Some md" "arr_get (md_functions md) (unat f) = Some fd"
    using assms(4) by (auto simp: function_at_def bind_eq_Some_conv)
  obtain fs where fs: "md_functions md = Some fs" "fd \<in> set fs"
    using md(2) by (cases "md_functions md") (auto split: if_splits)
  show "rows_present (control_flow_graph fd)"
    using assms(2) module_at_wf(2) [OF assms(1) md(1)] fs by (fastforce simp: graphs_present_def)
  have nz: "nb_blocks fd \<noteq> 0" using assms(5) by auto
  obtain fd' where "function_at data (Some (unat m, unat f)) = Some fd'" "wf_function fd'"
    using assms(3) function_exists_at [OF assms(1)] by (metis block_ok_def)
  then show "wf_rows (nb_blocks fd) (control_flow_graph fd)"
    using assms(4) nz by (simp add: wf_function_def)
  show "b < nb_blocks fd"
    using assms(3,4) nz by (auto simp: block_ok_def word_neq_0_conv)
qed (rule assms(5))

lemma pos_rel_function:
  assumes "wf_modules data" "pos_rel opts data s p"
  obtains md fd where "module_at data (current_module_data s) = Some md" "current_function s < nb_functions md"
    "arr_get (md_functions md) (unat (current_function s)) = Some fd"
    "function_at data (current_function_data s) = Some fd"
  by (rule function_exists_at [OF assms(1), of "current_module s" "current_function s"])
    (use assms(2) in \<open>auto simp: pos_rel_def block_ok_def\<close>)

lemma safe_after_jump:
  assumes wf: "wf_modules data" "graphs_present data" and sim: "sim opts data s x" and err: "error s = 0"
    and room: "step_roomy opts s al"
  shows "on_after_jump opts data s al \<noteq> None"
proof (cases "state s = SM_STATE_ExpectJump")
  case True
  then have pos: "pos_rel opts data s (pos x)" and rel: "stacks_rel opts data s (frames x)"
    using sim by (simp_all add: sim_def)
  obtain md fd where fd: "function_at data (current_function_data s) = Some fd"
    using wf(1) pos by (rule pos_rel_function)
  show ?thesis
  proof (cases "sig_block (sig s) < nb_blocks fd")
    case True
    obtain e where "graph_at (control_flow_graph fd) (curblock s) (sig_block (sig s)) = Some e"
      using cfg_present [OF wf, of "current_module s" "current_function s" "curblock s" fd] pos fd True
      by (auto simp: pos_rel_def)
    moreover have "OPTION_sm_trace opts \<longrightarrow> range al \<subseteq> {Alloc_InPlace} \<and>
        arr_get (immediate_post_dominator fd) (unat (topblock s)) \<noteq> None"
      using room pos ipd_defined [OF wf(1) _ _ True, of "current_module s" "current_function s" "topblock s"] fd
      by (auto simp: step_roomy_def roomy_def pos_rel_def)
    then obtain s' al' where "trace_jump opts fd s al = Some (s', al')"
      using trace_jump_room [OF rel err] by blast
    ultimately show ?thesis using fd by (simp add: on_after_jump_def fail_def)
  qed (use fd in \<open>simp add: on_after_jump_def fail_def not_less\<close>)
qed (simp add: on_after_jump_def fail_def)

lemma safe_call:
  assumes wf: "wf_modules data" "relocs_ok data" "graphs_present data" and sim: "sim opts data s x"
    and err: "error s = 0" and room: "roomy opts s al"
  shows "on_call opts data s al \<noteq> None"
proof (cases "state s = SM_STATE_InFunction")
  case True
  then have pos: "pos_rel opts data s (pos x)" and rel: "stacks_rel opts data s (frames x)"
    using sim by (simp_all add: sim_def)
  obtain md fd where md: "module_at data (current_module_data s) = Some md" "current_function s < nb_functions md"
    using wf(1) pos by (rule pos_rel_function)
  obtain s1 al1 where save: "save_caller opts s al = Some (s1, al1)"
    using save_caller_room [OF rel err room] by blast
  show ?thesis
  proof (cases "sig_function (sig s) < nb_functions md")
    case True
    have cm: "current_module_data s = Some (unat (current_module s))" using pos by (simp add: pos_rel_def)
    obtain e where "graph_at (call_graph md) (current_function s) (sig_function (sig s)) = Some e"
      using call_graph_present [OF wf(1,3) md(1) [unfolded cm] md(2) True] by blast
    moreover have "\<exists>m' f'. call_target data md s1 = Some (m', f', Some (unat m'))"
      using call_target_dest [OF wf(1,2) md(1) [unfolded cm] True, of s1] save_caller_frame [OF save] cm by auto
    ultimately show ?thesis using md save by (auto simp: on_call_def fail_def)
  qed (use md in \<open>simp add: on_call_def fail_def not_less\<close>)
qed (simp add: on_call_def fail_def)

lemma safe_enter:
  assumes wf: "wf_modules data"
  shows "on_enter data s al \<noteq> None"
proof (cases "ucast (sig_module (sig s)) < nb_modules data")
  case True
  then obtain ms where ms: "modules data = Some ms" "unat (sig_module (sig s)) < length ms"
    "wf_module (ms ! unat (sig_module (sig s)))"
    using wf by (auto simp: wf_modules_def word_less_nat_alt split: option.splits)
  let ?md = "ms ! unat (sig_module (sig s))"
  show ?thesis
  proof (cases "sig_function (sig s) < nb_functions ?md")
    case True
    obtain fs where "md_functions ?md = Some fs" "length fs = unat (nb_functions ?md)"
      by (rule wf_moduleE [OF ms(3)]) (use True in auto)
    with ms True show ?thesis
      by (simp add: on_enter_def fail_def module_at_def Let_def not_le word_less_nat_alt)
  qed (use ms in \<open>simp add: on_enter_def fail_def module_at_def Let_def not_less\<close>)
qed (simp add: on_enter_def fail_def not_less)

lemma safe_exit:
  assumes wf: "wf_modules data" and sim: "sim opts data s x"
  shows "on_exit opts data s al \<noteq> None"
proof (cases "state s = SM_STATE_InFunction")
  case True
  then have pos: "pos_rel opts data s (pos x)" and rel: "stacks_rel opts data s (frames x)"
    using sim by (simp_all add: sim_def)
  obtain md fd where md: "module_at data (current_module_data s) = Some md"
    "arr_get (md_functions md) (unat (current_function s)) = Some fd"
    using wf(1) pos by (rule pos_rel_function)
  have empty: "CALL_STACK_IS_EMPTY (calls s) = Some (frames x = [])"
    using rel stacks_rel_height [OF rel] by (simp add: CALL_STACK_IS_EMPTY_def stack_is_empty_ok stacks_rel_def)
  show ?thesis
  proof (cases "frames x")
    case Nil
    with empty md show ?thesis by (auto simp: on_exit_def fail_def)
  next
    case (Cons fr fs)
    obtain m f b where "fr = (m, f, b)" by (cases fr)
    then have rel': "stacks_rel opts data s ((m, f, b) # fs)" using rel Cons by simp
    have "\<exists>s'. restore_caller opts data s al = Some (Break, s', al)"
      by (rule restore_caller_ok [OF rel', of al]) blast
    with empty Cons show ?thesis by (auto simp: on_exit_def fail_def)
  qed
qed (simp add: on_exit_def fail_def)

lemma safe_returned:
  assumes wf: "wf_modules data" "graphs_present data" and sim: "sim opts data s x"
  shows "on_returned data s al \<noteq> None"
proof (cases "state s = SM_STATE_ExpectReturn")
  case True
  then have pos: "pos_rel opts data s (pos x)" using sim by (simp add: sim_def)
  obtain md fd where md: "module_at data (current_module_data s) = Some md" "current_function s < nb_functions md"
    using wf(1) pos by (rule pos_rel_function)
  have cm: "current_module_data s = Some (unat (current_module s))" using pos by (simp add: pos_rel_def)
  show ?thesis
    using call_graph_present [OF wf md(1) [unfolded cm] md(2), of "sig_function (sig s)"] md
    by (cases "sig_function (sig s) < nb_functions md") (auto simp: on_returned_def fail_def not_less)
qed (simp add: on_returned_def fail_def)

lemma sim_step_safe:
  assumes wf: "wf_modules data" "relocs_ok data" "graphs_present data" and sim: "sim opts data s x"
    and err: "state s = SM_STATE_Ready \<or> error s = 0 \<and> step_roomy opts s al"
  shows "handle_signal opts data s al \<noteq> None"
proof (cases "state s = SM_STATE_Ready")
  case True
  then have "on_enter data s al \<noteq> None" by (intro safe_enter wf)
  with True show ?thesis
    by (auto simp: handle_signal_def on_before_jump_def on_after_jump_def on_call_def on_exit_def
        on_returned_def fail_def split: option.splits client_event.splits)
next
  case False
  with err have e: "error s = 0" and room: "step_roomy opts s al" by simp_all
  have "on_call opts data s al \<noteq> None" if "is_event CFI_CALL (sig s)"
    using room that by (intro safe_call [OF wf sim e]) (simp add: step_roomy_def)
  then show ?thesis
    using safe_after_jump [OF wf(1,3) sim e room] safe_enter [OF wf(1)] safe_exit [OF wf(1) sim]
      safe_returned [OF wf(1,3) sim]
    by (auto simp: handle_signal_def is_event_def on_before_jump_def fail_def
        split: option.splits client_event.splits)
qed

lemma goto_exit_frame:
  assumes sim: "sim opts data s x" and h: "handle_signal opts data s al = Some (Goto_exit, s', al')"
  shows "calls s' = calls s \<and> blocks s' = blocks s \<and> al' = al"
proof -
  have "restore_caller opts data s al \<noteq> Some (Goto_exit, s', al')"
    if "CALL_STACK_IS_EMPTY (calls s) = Some False"
  proof -
    have rel: "stacks_rel opts data s (frames x)" using sim by (simp add: sim_def)
    then have "frames x \<noteq> []"
      using that stacks_rel_height [OF rel] by (auto simp: CALL_STACK_IS_EMPTY_def stack_is_empty_ok stacks_rel_def)
    then obtain m f b fs where "frames x = (m, f, b) # fs" by (cases "frames x") auto
    with rel have rel': "stacks_rel opts data s ((m, f, b) # fs)" by simp
    show ?thesis by (rule restore_caller_ok [OF rel', of al]) simp
  qed
  then show ?thesis
    using h by (auto simp: handle_signal_def handlers bind_eq_Some_conv Let_def
      split: option.splits client_event.splits if_split_asm)
qed

lemma answer_alloc: "write_monitor_answer w e = (w', e') \<Longrightarrow> w_alloc w' = w_alloc w"
  by (auto simp: write_monitor_answer_def split: prod.splits)

lemma wait_alloc: "answer_and_wait opts s w = (s', w') \<Longrightarrow> w_alloc w' = w_alloc w"
  by (auto simp: answer_and_wait_def MONITOR_SIGNAL_TIMEOUT_def dest: answer_alloc
      split: prod.splits if_split_asm)

definition stopped :: "world \<Rightarrow> (run_state \<times> world) option \<Rightarrow> bool" where
  "stopped w r \<longleftrightarrow>
     (case r of None \<Rightarrow> False
      | Some (s', w') \<Rightarrow> stack_ok (calls s') \<and> stack_ok (blocks s') \<and> range (w_alloc w') \<subseteq> range (w_alloc w))"

lemma stopped_mono: "stopped w2 r \<Longrightarrow> range (w_alloc w2) \<subseteq> range (w_alloc w) \<Longrightarrow> stopped w r"
  unfolding stopped_def by (cases r) (simp, simp add: split_beta, meson subset_trans)

lemma sim_stacks: "sim opts data s x \<Longrightarrow> stack_ok (calls s) \<and> stack_ok (blocks s)"
  by (simp add: sim_def stacks_rel_def)

lemma stopped_Break:
  assumes h: "handle_signal opts data s (w_alloc w) = Some (Break, s1, al1)"
    and al: "range al1 \<subseteq> range (w_alloc w)" and st: "stack_ok (calls s1)" "stack_ok (blocks s1)"
    and pipe: "client_to_monitor w = map encode_signal ts"
    and next_turn: "\<And>t ts' w'. ts = t # ts' \<Longrightarrow> error s1 = 0 \<Longrightarrow> client_to_monitor w' = map encode_signal ts' \<Longrightarrow>
      w_alloc w' = al1 \<Longrightarrow> stopped w' (run_loop opts data (s1\<lparr>sig := t\<rparr>) w')"
  shows "stopped w (run_loop opts data s w)"
proof -
  obtain s2 w2 where a: "answer_and_wait opts s1 (w\<lparr>w_alloc := al1\<rparr>) = (s2, w2)" by fastforce
  note fr = answer_and_wait_frame [OF a] wait_alloc [OF a]
  show ?thesis
  proof (cases "error s2 = 0")
    case False
    have "calls s2 = calls s1" "blocks s2 = blocks s1"
      by (subst fr(1), simp)+
    with False h a al st fr(5) show ?thesis by (simp add: run_loop.simps stopped_def)
  next
    case True
    note wait = wait_error [OF a True]
    show ?thesis
    proof (cases ts)
      case Nil
      then have r: "read_signal s2 w2 = (s1\<lparr>error := 1\<rparr>, w2)"
        using fr(2) pipe wait read_signal_end [of w2 s2] by simp
      have "run_loop opts data (s1\<lparr>error := 1\<rparr>) w2 = Some (s1\<lparr>error := 4\<rparr>, w2)"
        using run_loop_refused [OF h, of "s1\<lparr>error := 1\<rparr>" w2] by simp
      with h a r True al st fr(5) show ?thesis
        by (simp add: run_loop.simps [of opts data s w] stopped_def)
    next
      case (Cons t ts')
      then have r: "read_signal s2 w2 = (s1\<lparr>sig := t\<rparr>, w2\<lparr>client_to_monitor := map encode_signal ts'\<rparr>)"
        using fr(2) pipe wait read_signal_next [of w2 t "map encode_signal ts'" s2] by simp
      have "stopped (w2\<lparr>client_to_monitor := map encode_signal ts'\<rparr>)
          (run_loop opts data (s1\<lparr>sig := t\<rparr>) (w2\<lparr>client_to_monitor := map encode_signal ts'\<rparr>))"
        using Cons wait fr(5) by (intro next_turn) simp_all
      then have "stopped w (run_loop opts data (s1\<lparr>sig := t\<rparr>) (w2\<lparr>client_to_monitor := map encode_signal ts'\<rparr>))"
        by (rule stopped_mono) (use al fr(5) in simp)
      with h a r True show ?thesis
        by (simp add: run_loop.simps [of opts data s w])
    qed
  qed
qed

lemma stopped_other:
  assumes sim: "sim opts data s x" and h: "handle_signal opts data s (w_alloc w) = Some (j, s1, al1)" "j \<noteq> Break"
  shows "stopped w (run_loop opts data s w)"
proof (cases j)
  case Goto_exit
  then show ?thesis
    using h goto_exit_frame [OF sim, of "w_alloc w" s1 al1] sim_stacks [OF sim]
    by (simp add: run_loop.simps stopped_def)
next
  case Answer_and_exit
  then have s1: "s1 = s\<lparr>state := SM_STATE_Ready\<rparr>" "al1 = w_alloc w" using answer_frame h(1) by auto
  obtain w2 e where a: "write_monitor_answer w (error s) = (w2, e)" by fastforce
  show ?thesis
    using h(1) Answer_and_exit s1 a answer_alloc [OF a] sim_stacks [OF sim]
    by (simp add: run_loop.simps stopped_def)
qed (use h in simp)

lemma run_loop_safe:
  assumes wf: "wf_modules data" "relocs_ok data" "graphs_present data"
    and "range (w_alloc w) \<subseteq> {Alloc_InPlace}" "sim opts data s x" "error s = 0"
      "client_to_monitor w = map encode_signal ts"
  shows "stopped w (run_loop opts data s w)"
  using assms(4-)
proof (induction "length ts" arbitrary: ts s x w rule: less_induct)
  case less
  have room: "step_roomy opts s (w_alloc w)"
    using less.prems(1) by (simp add: step_roomy_def roomy_def)
  obtain j s1 al1 where h: "handle_signal opts data s (w_alloc w) = Some (j, s1, al1)"
    using sim_step_safe [OF wf less.prems(2)] less.prems(3) room by fastforce
  show ?case
  proof (cases "j = Break")
    case True
    then obtain y where s1: "range al1 \<subseteq> range (w_alloc w)" "error s1 = 0" and y: "sim opts data s1 y"
      using sim_step_sound [OF wf(1,2) less.prems(2,3) step_roomy_clean [OF room]] h by blast
    have "stopped w' (run_loop opts data (s1\<lparr>sig := t\<rparr>) w')"
      if "ts = t # ts'" "client_to_monitor w' = map encode_signal ts'" "w_alloc w' = al1" for t ts' w'
      using that y s1 subset_trans [OF s1(1) less.prems(1)] by (intro less.hyps [of ts' w' _ y]) simp_all
    then show ?thesis
      using stopped_Break [OF h [unfolded True] s1(1) _ _ less.prems(4)] sim_stacks [OF y] by blast
  qed (rule stopped_other [OF less.prems(2) h])
qed

lemma log_failure_safe:
  assumes "stack_ok (calls s)" "stack_ok (blocks s)" "range al \<subseteq> {Alloc_InPlace}"
  shows "\<exists>s' al'. log_failure opts s al = Some (s', al') \<and> error s' = error s \<and>
    stack_ok (calls s') \<and> stack_ok (blocks s')"
proof (cases "error s \<noteq> 0 \<and> OPTION_sm_trace opts")
  case True
  have "room al (blocks s)" using assms by (intro push_roomy) simp_all
  then obtain bl al1 where bl: "BLOCK_STACK_PUSH (curblock s) 0 al (blocks s) = Some (0, bl, al1)" "stack_ok bl"
    "stack_list bl = curblock s # stack_list (blocks s)"
    using bs.push_law [OF assms(2), of al "curblock s"] by blast
  let ?c = "\<lparr>cs_module = current_module s, cs_function = current_function s, blocks_sp = BLOCK_STACK_TOP_PTR bl\<rparr>"
  have "room al1 (calls s)"
    using assms(1) subset_trans [OF push_alloc(1) [OF bl(1)] assms(3)] by (intro push_roomy) simp_all
  then obtain cl al2 where cl: "CALL_STACK_PUSH ?c 0 al1 (calls s) = Some (0, cl, al2)" "stack_ok cl"
    "stack_list cl = ?c # stack_list (calls s)"
    using cs.push_law [OF assms(1), of al1 ?c] by blast
  obtain bl' where "BLOCK_STACK_POP bl = Some (curblock s, bl')" "stack_ok bl'"
    using bs.pop_law [OF bl(2,3)] by blast
  moreover obtain cl' where "CALL_STACK_POP cl = Some (?c, cl')" "stack_ok cl'"
    using cs.pop_law [OF cl(2,3)] by blast
  ultimately show ?thesis
    using True bl(1) cl(1) stack_trace_ok [OF bl(2)] stack_trace_ok [OF cl(2)]
    by (simp add: log_failure_def call_stack_trace_def block_stack_trace_def Let_def)
next
  case False
  with assms show ?thesis unfolding log_failure_def by (subst if_not_P) simp_all
qed

lemma exit_safe:
  assumes "stack_ok (calls s)" "stack_ok (blocks s)" "range (w_alloc w) \<subseteq> {Alloc_InPlace}"
  shows "\<exists>w'. monitor_run_exit opts s w = Some (error s, w')"
proof -
  obtain s' al' where l: "log_failure opts s (w_alloc w) = Some (s', al')" "error s' = error s"
    "stack_ok (calls s')" "stack_ok (blocks s')"
    using log_failure_safe [OF assms] by blast
  then show ?thesis
    using stack_free_ok [OF l(3)] stack_free_ok [OF l(4)]
    by (auto simp: monitor_run_exit_def call_stack_free_def block_stack_free_def)
qed

text \<open>With nothing to read at all, the first turn sees an uninitialised signal.\<close>

lemma run_loop_garbage_safe:
  assumes wf: "wf_modules data" "relocs_ok data" "graphs_present data" and sim: "sim opts data s x"
    and s: "state s = SM_STATE_Ready" and pipe: "client_to_monitor w = []"
  shows "stopped w (run_loop opts data s w)"
proof -
  obtain j s1 al1 where h: "handle_signal opts data s (w_alloc w) = Some (j, s1, al1)"
    using sim_step_safe [OF wf sim] s by fastforce
  show ?thesis
  proof (cases "j = Break")
    case True
    then obtain e where "client_event_of (sig_event (sig s)) = Some e" "expects (state s) e"
      using h by (auto elim: handle_signal_Break)
    then have "on_enter data s (w_alloc w) = Some (Break, s1, al1)"
      using h True s by (simp add: handle_signal_def)
    then have "calls s1 = calls s" "blocks s1 = blocks s" "al1 = w_alloc w"
      using s by (auto simp: on_enter_def bind_eq_Some_conv Let_def split: if_split_asm)
    then show ?thesis
      using stopped_Break [OF h [unfolded True], of "[]"] sim_stacks [OF sim] pipe by simp
  qed (rule stopped_other [OF sim h])
qed

lemma monitor_run_total:
  assumes wf: "wf_modules data" "relocs_ok data" "graphs_present data"
    and al: "range (w_alloc w) \<subseteq> {Alloc_InPlace}" and resp: "responsive opts w"
    and pipe: "client_to_monitor w = map encode_signal ts"
  shows "\<exists>e w'. monitor_run opts g data w = Some (e, w')"
proof -
  have nf: "Alloc_Fail \<notin> range (w_alloc w)" using al by auto
  obtain s w1 where s: "sim opts data s (Cfi SM_STATE_Ready (0, 0, 0) [])" "error s = 0" "state s = SM_STATE_Ready"
    and w1: "client_to_monitor w1 = client_to_monitor w" "range (w_alloc w1) \<subseteq> range (w_alloc w)"
    and eq: "monitor_run opts g data w =
      (let (s, w) = read_signal s w1 in do { (s, w) \<leftarrow> run_loop opts data s w; monitor_run_exit opts s w })"
    using wf(1,2) nf resp by (rule monitor_run_start)
  have al1: "range (w_alloc w1) \<subseteq> {Alloc_InPlace}" using w1(2) al by (rule subset_trans)
  obtain s2 w2 where r: "read_signal s w1 = (s2, w2)" and loop: "stopped w2 (run_loop opts data s2 w2)"
    and al2: "range (w_alloc w2) \<subseteq> {Alloc_InPlace}"
  proof (cases ts)
    case Nil
    have "sim opts data (s\<lparr>error := 1\<rparr>) (Cfi SM_STATE_Ready (0, 0, 0) [])"
      using s by (simp add: sim_def stacks_rel_def)
    then have "stopped w1 (run_loop opts data (s\<lparr>error := 1\<rparr>) w1)"
      using s(3) w1(1) pipe Nil by (intro run_loop_garbage_safe [OF wf]) simp_all
    then show ?thesis using Nil w1(1) pipe al1 by (intro that [of "s\<lparr>error := 1\<rparr>" w1]) (simp_all add: read_signal_end)
  next
    case (Cons t ts')
    let ?w = "w1\<lparr>client_to_monitor := map encode_signal ts'\<rparr>"
    have "stopped ?w (run_loop opts data (s\<lparr>sig := t\<rparr>) ?w)"
      by (rule run_loop_safe [OF wf]) (use al1 s in simp_all)
    then show ?thesis using Cons w1(1) pipe al1 by (intro that [of "s\<lparr>sig := t\<rparr>" ?w]) (simp_all add: read_signal_next)
  qed
  then obtain s3 w3 where "run_loop opts data s2 w2 = Some (s3, w3)" "stack_ok (calls s3)" "stack_ok (blocks s3)"
    "range (w_alloc w3) \<subseteq> range (w_alloc w2)"
    unfolding stopped_def by (auto split: option.splits)
  moreover from this obtain w4 where "monitor_run_exit opts s3 w3 = Some (error s3, w4)"
    using exit_safe [of s3 w3 opts] subset_trans [OF _ al2] by blast
  ultimately show ?thesis using eq r by simp
qed

end
