(* ===== verification/Load_Result.thy ===== *)
theory Load_Result
  imports Relocation Cfi_Safety
begin

text \<open>
  What \<open>monitor_load\<close> guarantees to \<open>monitor_run\<close>, and what \<open>monitor_data_free\<close> relies on.
\<close>

section \<open>Linked tables can be run\<close>

lemma linked_exists:
  assumes "wf_modules data" "unat (nb_modules data) \<le> 2 ^ 16" "chosen data mid fj k l"
  shows "function_exists data (MODULE_FUNCTION_GET_MODULE (MODULE_FUNCTION (of_nat k) (of_nat l)))
    (MODULE_FUNCTION_GET_FUNCTION (MODULE_FUNCTION (of_nat k) (of_nat l)))"
proof -
  obtain md where md: "arr_get (modules data) k = Some md" "l < unat (nb_functions md)"
    using assms(3) by (auto simp: chosen_def provides_def exports_def split: option.splits)
  have "k < unat (nb_modules data)"
    using md(1) assms(1) by (auto simp: wf_modules_def split: option.splits if_splits)
  then have k: "k < 2 ^ 16" using assms(2) by simp
  then have "unat (of_nat k :: 32 word) = k" by (simp add: unat_of_nat take_bit_nat_eq_self)
  then have "unat (ucast (of_nat k :: 32 word) :: module_id) = k"
    using k by (simp add: unsigned_ucast_eq take_bit_nat_eq_self)
  moreover have "unat (of_nat l :: u32) = l"
    using md(2) by (rule unat_of_nat_below)
  ultimately show ?thesis
    using md by (simp add: module_function_get_function module_function_get_module function_exists_def module_at_def word_less_nat_alt)
qed

lemma linked_relocs_ok:
  assumes wf: "wf_modules data" and small: "unat (nb_modules data) \<le> 2 ^ 16"
    and linked: "\<And>m. m < unat (nb_modules data) \<Longrightarrow> module_linked data m"
  shows "relocs_ok data"
proof -
  have "function_exists data (MODULE_FUNCTION_GET_MODULE r) (MODULE_FUNCTION_GET_FUNCTION r)"
    if ms: "modules data = Some ms" "md \<in> set ms" "nb_functions md \<noteq> 0" "md_functions md = Some fs" "relocations md = Some rs"
      and fr: "(fd, r) \<in> set (zip fs rs)" "FUNCTION_IS_EXTERNAL fd" for ms md fs rs fd r
  proof -
    obtain m where m: "m < length ms" "ms ! m = md" using ms(2) by (auto simp: in_set_conv_nth)
    have len: "length ms = unat (nb_modules data)" "wf_module md" using wf ms by (auto simp: wf_modules_def)
    then have mid: "unat (of_nat m :: module_id) = m" using m small by (simp add: unat_of_nat take_bit_nat_eq_self)
    obtain j where j: "j < length fs" "j < length rs" "fs ! j = fd" "rs ! j = r" using fr(1) by (auto simp: set_zip)
    have "j < unat (nb_functions md)" using len(2) ms j(1) by (auto elim!: wf_moduleE)
    then have "linked data (of_nat m) j" using linked [of m] m len ms(1) by (simp add: module_linked_def)
    then obtain k l where "chosen data (of_nat m) fd k l" "r = MODULE_FUNCTION (of_nat k) (of_nat l)"
      using ms m j fr(2) by (auto simp: linked_def fun_at_def rel_at_def mid)
    then show ?thesis using linked_exists [OF wf small] by blast
  qed
  then show ?thesis by (auto simp: relocs_ok_def split: option.splits)
qed

section \<open>All modules\<close>

lemma load_and_init_wf:
  assumes "load_and_init opts g gp data w = Some (e, t, data', w')" "wf_modules data"
  shows "alloc_later (w_alloc w) (w_alloc w') \<and> (sound_load (w_alloc w) e \<longrightarrow> wf_modules data')"
proof -
  obtain e1 d1 w1 where 1: "monitor_load_module opts gp data w = Some (e1, d1, w1)"
    using assms(1) by (auto simp: load_and_init_def bind_eq_Some_conv)
  note m = monitor_load_module_wf [OF assms(2) 1]
  show ?thesis
  proof (cases "e1 = 0")
    case False
    then show ?thesis using assms(1) 1 m by (auto simp: load_and_init_def sound_load_def split: if_splits)
  next
    case True
    then obtain e2 d2 where 2: "compute_relocations_of_module d1 (ucast (nb_modules d1 - 1)) False = Some (e2, d2)"
      using assms(1) 1 by (auto simp: load_and_init_def bind_eq_Some_conv)
    have "wf_modules d1" using m True by simp
    then have wf: "wf_modules d2"
      using 2 by (auto simp: compute_relocations_of_module_def bind_eq_Some_conv dest: relocate_wf)
    have "data' = d2 \<and> alloc_later (w_alloc w1) (w_alloc w')"
      using assms(1) 1 2 True by (auto simp: load_and_init_def bind_eq_Some_conv dest: run_inits_later split: if_splits)
    then show ?thesis using wf m alloc_later_trans [of "w_alloc w" "w_alloc w1" "w_alloc w'"] by simp
  qed
qed

lemma load_modules_wf:
  assumes "load_modules opts g gp data w = Some (e, data', w')" "wf_modules data"
  shows "alloc_later (w_alloc w) (w_alloc w') \<and> (sound_load (w_alloc w) e \<longrightarrow> wf_modules data')"
  using assms
proof (induction opts g gp data w rule: load_modules.induct)
  case (1 opts g gp data w)
  obtain e1 t d1 w1 where r: "load_and_init opts g gp data w = Some (e1, t, d1, w1)"
    using "1.prems"(1) by (auto simp: load_modules.simps split: option.splits)
  note l = load_and_init_wf [OF r "1.prems"(2)]
  show ?case
  proof (cases "\<not> t \<and> e1 = 0")
    case True
    then have rest: "load_modules opts g gp d1 w1 = Some (e, data', w')"
      using "1.prems"(1) r by (simp add: load_modules.simps [of opts g gp data w])
    have "wf_modules d1" using l True by (simp add: sound_load_def)
    then have ih: "alloc_later (w_alloc w1) (w_alloc w') \<and> (sound_load (w_alloc w1) e \<longrightarrow> wf_modules data')"
      using "1.IH" [OF r refl refl refl True rest] by simp
    have "alloc_later (w_alloc w) (w_alloc w')" using l ih alloc_later_trans [of "w_alloc w" "w_alloc w1" "w_alloc w'"] by simp
    moreover have "sound_load (w_alloc w1) e" if "sound_load (w_alloc w) e"
      using sound_load_later [OF conjunct1 [OF l] that] .
    ultimately show ?thesis using ih by simp
  next
    case False
    then show ?thesis using "1.prems"(1) r l by (auto simp: load_modules.simps [of opts g gp data w] split: if_splits)
  qed
qed

lemma monitor_load_ok:
  assumes "monitor_load opts g gp pid a b c d w = Some (e, data, w')"
  shows "alloc_later (w_alloc w) (w_alloc w') \<and> (sound_load (w_alloc w) e \<longrightarrow> wf_modules data) \<and>
    (e = 0 \<and> unat (nb_modules data) \<le> 2 ^ 16 \<longrightarrow> (\<forall>m < unat (nb_modules data). module_linked data m) \<and> relocs_ok data)"
proof -
  let ?d0 = "\<lparr>client_pid = pid, fd_client_to_monitor = a, fd_monitor_to_client = b,
       fd_loading_to_monitor = c, fd_monitor_to_loading = d, nb_modules = 0, modules = None\<rparr>"
  obtain e1 d1 where 1: "load_modules opts g gp ?d0 w = Some (e1, d1, w')"
    and 2: "if e1 \<noteq> 0 then e = e1 \<and> data = d1 else relocate_all 0 (unat (nb_modules d1)) d1 = Some (e, data)"
    using assms by (auto simp: monitor_load_def bind_eq_Some_conv Let_def split: if_splits)
  have "wf_modules ?d0" by (simp add: wf_modules_def)
  note l = load_modules_wf [OF 1 this]
  show ?thesis
  proof (cases "e1 = 0")
    case False
    then show ?thesis using l 2 by simp
  next
    case True
    then have rel: "relocate_all 0 (unat (nb_modules d1)) d1 = Some (e, data)" and wf1: "wf_modules d1"
      using 2 l by (simp_all add: sound_load_def)
    have sk: "wf_modules data" "skeleton data = skeleton d1" using relocate_all_ok [OF rel wf1] by simp_all
    have "nb_modules (skeleton data) = nb_modules (skeleton d1)" using sk(2) by simp
    then have nb: "nb_modules data = nb_modules d1" by (simp add: skeleton_def)
    have "(\<forall>m < unat (nb_modules data). module_linked data m)" if "e = 0" "unat (nb_modules data) \<le> 2 ^ 16"
      using relocate_all_links [OF rel wf1] that nb by simp
    moreover from this have "relocs_ok data" if "e = 0" "unat (nb_modules data) \<le> 2 ^ 16"
      using that sk(1) by (intro linked_relocs_ok) simp_all
    ultimately show ?thesis using l sk by simp
  qed
qed

section \<open>Release of the tables\<close>

lemma free_rows_ok:
  assumes "wf_rows n g" "k + m = unat n"
  shows "free_rows k m g \<noteq> None"
proof -
  have "free_rows k m (Some rows) \<noteq> None" if "k + m = length rows" for rows
    using that by (induction m arbitrary: k rows) auto
  with assms show ?thesis by (auto elim!: wf_rowsE)
qed

lemma free_function_ok: "wf_function f \<Longrightarrow> \<exists>f'. free_function f = Some f' \<and> wf_function f'"
  using free_rows_ok [of "nb_blocks f" "control_flow_graph f" 0 "unat (nb_blocks f)"]
  by (cases "nb_blocks f = 0"; cases "free_rows 0 (unat (nb_blocks f)) (control_flow_graph f)")
    (simp_all add: free_function_def wf_function_def)

lemma free_functions_ok:
  assumes "md_functions md = Some fs" "call_graph md = Some cg" "length cg = length fs" "j + n = length fs"
    "\<forall>f \<in> set fs. wf_function f"
  shows "\<exists>fs' cg'. free_functions j n md = Some (md\<lparr>md_functions := Some fs', call_graph := Some cg'\<rparr>)"
  using assms
proof (induction n arbitrary: j md fs cg)
  case 0
  then show ?case by (cases md) auto
next
  case (Suc n)
  have j: "j < length fs" using Suc.prems(4) by simp
  then obtain f' where f': "free_function (fs ! j) = Some f'" "wf_function f'"
    using free_function_ok [of "fs ! j"] Suc.prems(5) by auto
  let ?cg = "if cg ! j \<noteq> None then cg[j := None] else cg"
  let ?md = "md\<lparr>call_graph := Some ?cg, md_functions := Some (fs[j := f'])\<rparr>"
  have "set (fs[j := f']) \<subseteq> insert f' (set fs)" by (rule set_update_subset_insert)
  then have "\<exists>fs' cg'. free_functions (Suc j) n ?md = Some (?md\<lparr>md_functions := Some fs', call_graph := Some cg'\<rparr>)"
    using Suc.prems f'(2) by (intro Suc.IH [of ?md "fs[j := f']" ?cg]) auto
  then show ?case using Suc.prems j f' by (auto split: if_splits)
qed

lemma free_module_ok: "wf_module md \<Longrightarrow> \<exists>md'. free_module md = Some md' \<and> wf_module md'"
proof (cases "nb_functions md = 0")
  case True
  then show "wf_module md \<Longrightarrow> ?thesis" by (simp add: free_module_def)
next
  case False
  assume wf: "wf_module md"
  obtain fs rs where fs: "md_functions md = Some fs" "length fs = unat (nb_functions md)"
      "wf_rows (nb_functions md) (call_graph md)" "\<forall>f \<in> set fs. wf_function f"
    using wf_moduleE [OF wf False] by (metis in_set_conv_nth)
  then obtain cg where "call_graph md = Some cg" "length cg = length fs" by (auto elim!: wf_rowsE)
  then obtain fs' cg' where "free_functions 0 (unat (nb_functions md)) md =
      Some (md\<lparr>md_functions := Some fs', call_graph := Some cg'\<rparr>)"
    using free_functions_ok [of md fs cg 0 "unat (nb_functions md)"] fs by auto
  then show ?thesis using False by (simp add: free_module_def wf_module_def)
qed

lemma free_modules_ok:
  assumes "modules data = Some ms" "i + n = length ms" "\<forall>md \<in> set ms. wf_module md"
  shows "\<exists>ms'. free_modules i n data = Some (data\<lparr>modules := Some ms'\<rparr>)"
  using assms
proof (induction n arbitrary: i data ms)
  case 0
  then show ?case by (cases data) auto
next
  case (Suc n)
  then obtain md' where md': "free_module (ms ! i) = Some md'" "wf_module md'"
    using free_module_ok [of "ms ! i"] by auto
  have "set (ms[i := md']) \<subseteq> insert md' (set ms)" by (rule set_update_subset_insert)
  then have "\<exists>ms'. free_modules (Suc i) n (data\<lparr>modules := Some (ms[i := md'])\<rparr>) =
      Some (data\<lparr>modules := Some (ms[i := md']), modules := Some ms'\<rparr>)"
    using Suc.prems md'(2) by (intro Suc.IH [of "data\<lparr>modules := Some (ms[i := md'])\<rparr>" "ms[i := md']"]) auto
  then show ?case using Suc.prems md' by auto
qed

lemma monitor_data_free_ok:
  assumes "wf_modules data"
  shows "monitor_data_free data = Some (data\<lparr>modules := if nb_modules data = 0 then modules data else None, nb_modules := 0\<rparr>)"
proof (cases "modules data")
  case None
  with assms show ?thesis by (simp add: wf_modules_def monitor_data_free_def)
next
  case (Some ms)
  then obtain ms' where "free_modules 0 (unat (nb_modules data)) data = Some (data\<lparr>modules := Some ms'\<rparr>)"
    using free_modules_ok [of data ms 0 "unat (nb_modules data)"] assms by (auto simp: wf_modules_def)
  then show ?thesis by (cases "nb_modules data = 0") (simp_all add: monitor_data_free_def)
qed

lemma monitor_data_free_null:
  "nb_modules data \<noteq> 0 \<Longrightarrow> modules data = None \<Longrightarrow> monitor_data_free data = None"
  by (cases "unat (nb_modules data)") (simp_all add: monitor_data_free_def unat_eq_0)

end
