(* ===== verification/Text_Io.thy ===== *)
theory Text_Io
  imports Picon_Prelude "HOL-Library.Multiset"
begin

text \<open>
  Numbers and words in text: what \<open>printf\<close> and \<open>strtol\<close> do to environment variables, what the
  formatted input of C++ streams reads from the tables of the compiler, and what the lines and
  \<open>split()\<close> of the prelink script see of the same text.
\<close>

section \<open>Decimal numbers\<close>

text \<open>\<open>%u\<close> of \<open>printf\<close>, and \<open><<\<close> of an unsigned number.\<close>

fun decimal :: "nat \<Rightarrow> string" where
  "decimal n = (if n < 10 then [char_of (48 + n)] else decimal (n div 10) @ [char_of (48 + n mod 10)])"

declare decimal.simps [simp del]

definition is_digit :: "char \<Rightarrow> bool" where
  "is_digit c \<longleftrightarrow> 48 \<le> (of_char c :: nat) \<and> (of_char c :: nat) \<le> 57"

definition digits_value :: "string \<Rightarrow> nat" where
  "digits_value s = foldl (\<lambda>a c. 10 * a + (of_char c - 48)) 0 s"

text \<open>The number the decimal digits a text starts with denote, as \<open>strtol\<close> reads it.\<close>

definition strtol_digits :: "string \<Rightarrow> nat" where
  "strtol_digits s = digits_value (takeWhile is_digit s)"

lemma digit_char: "d < 10 \<Longrightarrow> (of_char (char_of (48 + d) :: char) :: nat) = 48 + d"
  by (simp add: of_char_of take_bit_nat_eq_self)

lemma decimal_digits: "list_all is_digit (decimal n) \<and> digits_value (decimal n) = n"
  unfolding digits_value_def
proof (induction n rule: decimal.induct)
  case (1 n)
  have "n mod 10 < 10" by simp
  then show ?case
    using 1 digit_char [of n] digit_char [of "n mod 10"]
    by (cases "n < 10") (simp_all add: decimal.simps [of n] is_digit_def)
qed

lemma decimal_is_digit: "c \<in> set (decimal n) \<Longrightarrow> is_digit c"
  using decimal_digits [of n] by (simp add: list_all_iff)

lemma digits_value_decimal [simp]: "digits_value (decimal n) = n"
  using decimal_digits by blast

lemma decimal_inject [simp]: "decimal n = decimal k \<longleftrightarrow> n = k"
  by (metis digits_value_decimal)

lemma takeWhile_decimal [simp]: "takeWhile is_digit (decimal n) = decimal n"
  by (simp add: takeWhile_eq_all_conv decimal_is_digit)

lemma strtol_decimal [simp]: "strtol_digits (decimal n) = n"
  by (simp add: strtol_digits_def)

lemma decimal_not_Nil [simp]: "decimal n \<noteq> []" "[] \<noteq> decimal n"
  by (simp_all add: decimal.simps [of n])

lemma length_decimal: "n < 10 ^ Suc k \<Longrightarrow> length (decimal n) \<le> Suc k"
proof (induction k arbitrary: n)
  case (Suc k)
  then show ?case
    by (cases "n < 10") (simp_all add: decimal.simps [of n] less_mult_imp_div_less)
qed (simp add: decimal.simps)

text \<open>\<open><<\<close> of a signed number.\<close>

definition decimal_int :: "int \<Rightarrow> string" where
  "decimal_int i = (if i < 0 then CHR ''-'' # decimal (nat (- i)) else decimal (nat i))"

lemma unat_u32_less: "unat (i :: u32) < 2 ^ 32"
  using unsigned_less [of i, where ?'a = nat] by simp

section \<open>White space, words and lines\<close>

definition is_space :: "char \<Rightarrow> bool" where
  "is_space c \<longleftrightarrow> c = CHR '' '' \<or> (9 \<le> (of_char c :: nat) \<and> (of_char c :: nat) \<le> 13)"

definition newline :: char where
  "newline = CHR 0x0A"

definition is_word :: "string \<Rightarrow> bool" where
  "is_word s \<longleftrightarrow> s \<noteq> [] \<and> list_all (\<lambda>c. \<not> is_space c) s"

text \<open>\<open>split()\<close> of the script: the maximal words of a text.\<close>

function split_words :: "string \<Rightarrow> string list" where
  "split_words s =
     (case dropWhile is_space s of [] \<Rightarrow> []
      | c # t \<Rightarrow> (c # takeWhile (\<lambda>c. \<not> is_space c) t) # split_words (dropWhile (\<lambda>c. \<not> is_space c) t))"
  by pat_completeness auto
termination
proof (relation "measure length")
  fix s c t
  assume "dropWhile is_space s = c # t"
  then have "length (c # t) \<le> length s" using length_dropWhile_le [of is_space s] by simp
  then show "(dropWhile (\<lambda>c. \<not> is_space c) t, s) \<in> measure length"
    using length_dropWhile_le [of "\<lambda>c. \<not> is_space c" t] by simp
qed simp

declare split_words.simps [simp del]

text \<open>The lines of a file, as \<open>getline\<close> and the script iterate over them.\<close>

function lines :: "string \<Rightarrow> string list" where
  "lines s = (if s = [] then []
     else takeWhile (\<lambda>c. c \<noteq> newline) s # lines (tl (dropWhile (\<lambda>c. c \<noteq> newline) s)))"
  by pat_completeness auto
termination
proof (relation "measure length")
  fix s :: string
  assume "s \<noteq> []"
  then show "(tl (dropWhile (\<lambda>c. c \<noteq> newline) s), s) \<in> measure length"
    using length_dropWhile_le [of "\<lambda>c. c \<noteq> newline" s] by (cases s) (auto simp: less_Suc_eq_le)
qed simp

declare lines.simps [simp del]

definition rstrip :: "string \<Rightarrow> string" where
  "rstrip s = rev (dropWhile is_space (rev s))"

text \<open>\<open>strtol\<close> in base 10: leading white space, a sign, the digits; the bounds of a 64-bit \<open>long\<close>.\<close>

definition strtol :: "string \<Rightarrow> int" where
  "strtol s =
     (let t = dropWhile is_space s;
          n = int (strtol_digits (if t \<noteq> [] \<and> hd t \<in> {CHR ''-'', CHR ''+''} then tl t else t))
      in if t \<noteq> [] \<and> hd t = CHR ''-'' then max (- (2 ^ 63)) (- n) else min (2 ^ 63 - 1) n)"

lemma is_space_simps [simp]: "is_space CHR '' ''" "is_space newline"
  by (simp_all add: is_space_def newline_def)

lemma digit_not_space: "is_digit c \<Longrightarrow> \<not> is_space c"
  by (auto simp: is_digit_def is_space_def)

lemma strtol_decimal_int:
  assumes "n < 2 ^ 63"
  shows "strtol (decimal n) = int n"
proof -
  obtain c v where d: "decimal n = c # v" "is_digit c" using decimal_is_digit [of _ n] by (cases "decimal n") auto
  then have "c \<noteq> CHR ''-''" "c \<noteq> CHR ''+''" "\<not> is_space c" by (auto simp: is_digit_def is_space_def)
  moreover have "int n < int (2 ^ 63)" using assms by (simp only: of_nat_less_iff)
  then have "int n \<le> 2 ^ 63 - 1" by simp
  ultimately show ?thesis using strtol_decimal [of n] unfolding d(1) by (simp add: strtol_def)
qed

lemma is_word_decimal [simp]: "is_word (decimal n)"
  by (auto simp: is_word_def list_all_iff digit_not_space decimal_is_digit)

lemma is_word_append: "is_word s \<Longrightarrow> is_word t \<Longrightarrow> is_word (s @ t)"
  by (simp add: is_word_def)

lemma split_words_Nil [simp]: "split_words [] = []"
  by (simp add: split_words.simps)

lemma split_words_space [simp]: "is_space c \<Longrightarrow> split_words (c # s) = split_words s"
  by (simp add: split_words.simps [of "c # s"] split_words.simps [of s])

lemma split_words_word:
  assumes "is_word w" "t = [] \<or> is_space (hd t)"
  shows "split_words (w @ t) = w # split_words t"
proof -
  obtain c v where w: "w = c # v" "\<not> is_space c" "\<forall>x \<in> set v. \<not> is_space x"
    using assms(1) by (cases w) (auto simp: is_word_def list_all_iff)
  have t: "takeWhile (\<lambda>c. \<not> is_space c) t = []" "dropWhile (\<lambda>c. \<not> is_space c) t = t"
    using assms(2) by (cases t; simp)+
  show ?thesis
    using w t by (subst split_words.simps) (simp add: takeWhile_append2 dropWhile_append2)
qed

lemma split_words_are_words: "w \<in> set (split_words s) \<Longrightarrow> is_word w"
proof (induction s rule: split_words.induct)
  case (1 s)
  show ?case
  proof (cases "dropWhile is_space s")
    case (Cons c t)
    then have "\<not> is_space c" by (metis dropWhile_eq_Cons_conv)
    then have "is_word (c # takeWhile (\<lambda>c. \<not> is_space c) t)"
      by (auto simp: is_word_def list_all_iff dest: set_takeWhileD)
    then show ?thesis using 1 Cons by (auto simp: split_words.simps [of s])
  next
    case Nil
    then have "split_words s = []" by (subst split_words.simps) (simp only: list.case)
    then show ?thesis using 1(2) by simp
  qed
qed

text \<open>A row of words, each followed by one white space.\<close>

lemma split_words_spaced:
  assumes "list_all is_word ws"
  shows "split_words (concat (map (\<lambda>w. w @ '' '') ws) @ t) = ws @ split_words t"
  using assms
proof (induction ws)
  case (Cons w ws)
  then show ?case using split_words_word [of w "CHR '' '' # concat (map (\<lambda>w. w @ '' '') ws) @ t"] by simp
qed simp

lemma lines_Nil [simp]: "lines [] = []"
  by (simp add: lines.simps)

lemma lines_line:
  assumes "newline \<notin> set l"
  shows "lines (l @ newline # t) = l # lines t"
proof -
  have "takeWhile (\<lambda>c. c \<noteq> newline) (l @ newline # t) = l" "dropWhile (\<lambda>c. c \<noteq> newline) (l @ newline # t) = newline # t"
    using assms by (induction l) auto
  then show ?thesis by (subst lines.simps) simp
qed

text \<open>A text of whole lines.\<close>

lemma lines_concat:
  assumes "\<forall>l \<in> set ls. newline \<notin> set l"
  shows "lines (concat (map (\<lambda>l. l @ [newline]) ls) @ t) = ls @ lines t"
  using assms
proof (induction ls)
  case (Cons l ls)
  then show ?case using lines_line [of l "concat (map (\<lambda>l. l @ [newline]) ls) @ t"] by simp
qed simp

lemma split_words_rstrip: "split_words (rstrip s) = split_words s"
proof -
  have "split_words (t @ sp) = split_words t" if "list_all is_space sp" for t sp
    using that
  proof (induction t rule: split_words.induct)
    case (1 t)
    show ?case
    proof (cases "dropWhile is_space t")
      case Nil
      moreover have "dropWhile is_space (t @ sp) = []" using Nil 1(2) by (auto simp: list_all_iff)
      ultimately show ?thesis unfolding split_words.simps [of "t @ sp"] split_words.simps [of t] by (simp only: list.case)
    next
      case (Cons c v)
      then have d: "dropWhile is_space (t @ sp) = c # v @ sp"
        by (metis append_Cons dropWhile_append dropWhile_eq_Nil_conv list.distinct(1))
      have v: "takeWhile (\<lambda>c. \<not> is_space c) (v @ sp) = takeWhile (\<lambda>c. \<not> is_space c) v"
        "dropWhile (\<lambda>c. \<not> is_space c) (v @ sp) = dropWhile (\<lambda>c. \<not> is_space c) v @ sp"
        using 1(2) by (induction v) (cases sp; auto)+
      show ?thesis
        using 1(1) [OF Cons] 1(2) d Cons v by (simp add: split_words.simps [of "t @ sp"] split_words.simps [of t])
    qed
  qed
  moreover have "s = rstrip s @ rev (takeWhile is_space (rev s))"
    unfolding rstrip_def by (metis rev_append rev_rev_ident takeWhile_dropWhile_id)
  moreover have "list_all is_space (rev (takeWhile is_space (rev s)))"
    by (auto simp: list_all_iff dest: set_takeWhileD)
  ultimately show ?thesis by metis
qed

section \<open>Hash tables\<close>

text \<open>
  A hash table is an association list with distinct keys, in the order of insertion. It is
  iterated in an order of its keys that the program does not choose.
\<close>

definition iterate :: "('k list \<Rightarrow> 'k list) \<Rightarrow> ('k \<times> 'a) list \<Rightarrow> ('k \<times> 'a) list" where
  "iterate order m = map (\<lambda>k. (k, the (map_of m k))) (order (map fst m))"

definition some_order :: "('k list \<Rightarrow> 'k list) \<Rightarrow> bool" where
  "some_order order \<longleftrightarrow> (\<forall>ks. mset (order ks) = mset ks)"

lemma some_orderD:
  assumes "some_order order"
  shows "set (order ks) = set ks" "distinct (order ks) = distinct ks" "length (order ks) = length ks"
proof -
  have "mset (order ks) = mset ks" using assms by (simp add: some_order_def)
  then show "set (order ks) = set ks" "distinct (order ks) = distinct ks" "length (order ks) = length ks"
    by (metis mset_eq_setD, metis mset_eq_imp_distinct_iff, metis mset_eq_length)
qed

lemma some_order_id: "some_order (\<lambda>ks. ks)" "some_order rev"
  by (simp_all add: some_order_def)

text \<open>An iteration visits each entry once.\<close>

lemma iterate_visits:
  assumes "some_order order" "distinct (map fst m)"
  shows "set (iterate order m) = set m" "distinct (map fst (iterate order m))" "length (iterate order m) = length m"
    "map_of (iterate order m) = map_of m"
proof -
  have keys: "map fst (iterate order m) = order (map fst m)" by (simp add: iterate_def comp_def)
  have "(k, v) \<in> set (iterate order m) \<longleftrightarrow> (k, v) \<in> set m" for k v
    using some_orderD(1) [OF assms(1), of "map fst m"] assms(2) by (force simp: iterate_def map_of_eq_Some_iff)
  then show set: "set (iterate order m) = set m" by auto
  show dist: "distinct (map fst (iterate order m))" using some_orderD(2) [OF assms(1)] assms(2) keys by simp
  show "length (iterate order m) = length m" using some_orderD(3) [OF assms(1)] by (simp add: iterate_def)
  show "map_of (iterate order m) = map_of m"
    using map_of_eq_Some_iff [OF dist] map_of_eq_Some_iff [OF assms(2)] set by (metis not_None_eq ext)
qed

section \<open>Formatted input of C++ streams\<close>

text \<open>
  The state of a stream: what is left of the text, \<open>eofbit\<close> and \<open>failbit\<close>. An operator first builds a
  \<open>sentry\<close>: on a stream that is not \<open>good\<close> it fails; it skips white space, and fails at the end of the
  text. Whoever reaches the end of the text sets \<open>eofbit\<close>.
\<close>

record istream =
  is_text :: string
  is_eof :: bool
  is_fail :: bool

definition open_in :: "string \<Rightarrow> istream" where
  "open_in txt = \<lparr>is_text = txt, is_eof = False, is_fail = False\<rparr>"

definition good :: "istream \<Rightarrow> bool" where
  "good st \<longleftrightarrow> \<not> is_eof st \<and> \<not> is_fail st"

definition sentry :: "istream \<Rightarrow> istream" where
  "sentry st =
     (if \<not> good st then st\<lparr>is_fail := True\<rparr>
      else let t = dropWhile is_space (is_text st) in \<lparr>is_text = t, is_eof = (t = []), is_fail = (t = [])\<rparr>)"

text \<open>\<open>>>\<close> into a string. The value of a read that failed is not looked at.\<close>

definition get_word :: "istream \<Rightarrow> string \<times> istream" where
  "get_word st =
     (let st = sentry st in
      if \<not> good st then ([], st)
      else let t = dropWhile (\<lambda>c. \<not> is_space c) (is_text st)
           in (takeWhile (\<lambda>c. \<not> is_space c) (is_text st), st\<lparr>is_text := t, is_eof := (t = [])\<rparr>))"

text \<open>\<open>>>\<close> into a \<open>uint32_t\<close>: a sign and the digits; no digit and a number too large are failures.\<close>

definition get_u32 :: "istream \<Rightarrow> u32 \<times> istream" where
  "get_u32 st =
     (let st = sentry st in
      if \<not> good st then (0, st)
      else let t = is_text st;
               neg = (hd t = CHR ''-'');
               t = (if hd t \<in> {CHR ''-'', CHR ''+''} then tl t else t);
               ds = takeWhile is_digit t; n = digits_value ds; u = dropWhile is_digit t;
               st = st\<lparr>is_text := u, is_eof := (u = [])\<rparr>
           in if ds = [] then (0, st\<lparr>is_fail := True\<rparr>)
              else if 2 ^ 32 \<le> n then (- 1, st\<lparr>is_fail := True\<rparr>)
              else (if neg then - of_nat n else of_nat n, st))"

text \<open>\<open>peek ()\<close> is \<open>EOF\<close> on a stream that is not good, whatever is left of the text.\<close>

definition peek_is_EOF :: "istream \<Rightarrow> bool" where
  "peek_is_EOF st \<longleftrightarrow> \<not> good st \<or> is_text st = []"

lemma good_open [simp]: "good (open_in txt)"
  by (simp add: good_def open_in_def)

lemma open_in_sel [simp]: "is_text (open_in txt) = txt"
  "(open_in txt)\<lparr>is_text := u, is_eof := False\<rparr> = open_in u"
  by (simp_all add: open_in_def)

lemma failed_stream:
  assumes "is_fail st"
  shows "is_fail (snd (get_word st))" "is_fail (snd (get_u32 st))"
  using assms by (simp_all add: get_word_def get_u32_def sentry_def good_def)

lemma peek_failed: "is_fail st \<Longrightarrow> peek_is_EOF st"
  by (simp add: peek_is_EOF_def good_def)

lemma sentry_shorter: "length (is_text (sentry st)) \<le> length (is_text st)"
  by (simp add: sentry_def Let_def length_dropWhile_le)

lemma sentry_good: "good (sentry st) \<Longrightarrow> \<exists>c t. is_text (sentry st) = c # t \<and> \<not> is_space c"
  by (cases "dropWhile is_space (is_text st)")
    (auto simp: sentry_def good_def Let_def dest: dropWhile_eq_Cons_conv [THEN iffD1] split: if_splits)

lemma get_word_shorter:
  shows "length (is_text (snd (get_word st))) \<le> length (is_text st)"
    "\<not> is_fail (snd (get_word st)) \<Longrightarrow> length (is_text (snd (get_word st))) < length (is_text st)"
proof -
  let ?t = "is_text (sentry st)"
  have le: "length (dropWhile (\<lambda>c. \<not> is_space c) ?t) \<le> length ?t" by (rule length_dropWhile_le)
  then show "length (is_text (snd (get_word st))) \<le> length (is_text st)"
    using sentry_shorter [of st] by (simp add: get_word_def Let_def)
  assume ok: "\<not> is_fail (snd (get_word st))"
  then have g: "good (sentry st)" by (auto simp: get_word_def Let_def sentry_def good_def split: if_splits)
  then obtain c t where t: "?t = c # t" "\<not> is_space c" using sentry_good by blast
  have "length (dropWhile (\<lambda>c. \<not> is_space c) t) \<le> length t" by (rule length_dropWhile_le)
  then show "length (is_text (snd (get_word st))) < length (is_text st)"
    using g t sentry_shorter [of st] by (simp add: get_word_def Let_def)
qed

lemma get_u32_shorter: "length (is_text (snd (get_u32 st))) \<le> length (is_text st)"
proof -
  let ?t = "is_text (sentry st)"
  have "length (dropWhile is_digit ?t) \<le> length ?t" "length (dropWhile is_digit (tl ?t)) \<le> length ?t"
    using length_dropWhile_le [of is_digit ?t] length_dropWhile_le [of is_digit "tl ?t"] by simp_all
  then show ?thesis using sentry_shorter [of st] by (simp add: get_u32_def Let_def)
qed

lemma dropWhile_word:
  assumes "is_word w"
  shows "dropWhile is_space (w @ t) = w @ t"
  using assms by (cases w) (auto simp: is_word_def)

lemma takeWhile_word:
  assumes "is_word w" "t = [] \<or> is_space (hd t)"
  shows "takeWhile (\<lambda>c. \<not> is_space c) (w @ t) = w" "dropWhile (\<lambda>c. \<not> is_space c) (w @ t) = t"
  using assms by (cases t; auto simp: is_word_def list_all_iff takeWhile_append2 dropWhile_append2)+

text \<open>White space in front of a word or a number is as if it was not there.\<close>

lemma sentry_space: "is_space c \<Longrightarrow> sentry (open_in (c # t)) = sentry (open_in t)"
  by (simp add: sentry_def)

lemma get_space [simp]:
  assumes "is_space c"
  shows "get_word (open_in (c # t)) = get_word (open_in t)" "get_u32 (open_in (c # t)) = get_u32 (open_in t)"
  by (simp_all only: get_word_def get_u32_def sentry_space [OF assms])

lemma sentry_word:
  assumes "is_word w"
  shows "sentry (open_in (w @ t)) = open_in (w @ t)"
proof -
  have "w \<noteq> []" using assms by (simp add: is_word_def)
  then show ?thesis by (simp add: sentry_def open_in_def good_def dropWhile_word [OF assms] del: dropWhile_eq_Nil_conv)
qed

lemma get_word_word:
  assumes "is_word w" "is_space c"
  shows "get_word (open_in (w @ c # t)) = (w, open_in (c # t))"
  using takeWhile_word [OF assms(1), of "c # t"] assms
  by (simp add: get_word_def sentry_word)

lemma get_u32_decimal:
  assumes "n < 2 ^ 32" "is_space c"
  shows "get_u32 (open_in (decimal n @ c # t)) = (of_nat n, open_in (c # t))"
proof -
  have "hd (decimal n) \<in> set (decimal n)" by simp
  then have "is_digit (hd (decimal n))" by (rule decimal_is_digit)
  then have "hd (decimal n) \<noteq> CHR ''-''" "hd (decimal n) \<noteq> CHR ''+''" by (auto simp: is_digit_def)
  moreover have d: "takeWhile is_digit (decimal n @ c # t) = decimal n" "dropWhile is_digit (decimal n @ c # t) = c # t"
    using assms(2) digit_not_space by (auto simp: takeWhile_append2 dropWhile_append2 decimal_is_digit)
  ultimately show ?thesis
    using assms(1) by (simp add: get_u32_def sentry_word Let_def d)
qed

end
