(* ===== verification/Monitor_Main.thy ===== *)
theory Monitor_Main
  imports Load_Result Text_Io
begin

text \<open>
  The monitor process (\<open>monitor/src/main.c\<close>): checks of the environment, pipes and the fork, the
  monitor's side of the fork from loading to release, and the client's side up to \<open>execve\<close>.

  The answers of the system (environment, \<open>pipe2\<close>, \<open>fork\<close>, \<open>sigaction\<close>) are a record; what the
  process does to the system beyond its pipes is the list of its actions, in order.
\<close>

section \<open>Answers of the system and actions\<close>

record system =
  argv :: "string list"
  getenv :: "string \<Rightarrow> string option"
  pipe2 :: "nat \<Rightarrow> (int \<times> int) option"
  fork :: int
  mask_sigpipe :: u32

datatype action = Close int | Setenv string string | Kill int

datatype ending = Return u32 | Execve "string list"

definition ENV_FD_MONITOR_TO_LOADING :: string where
  "ENV_FD_MONITOR_TO_LOADING = ''CFI_MONITOR_TO_LOADING''"

definition ENV_FD_LOADING_TO_MONITOR :: string where
  "ENV_FD_LOADING_TO_MONITOR = ''CFI_LOADING_TO_MONITOR''"

definition ENV_FD_CLIENT_TO_MONITOR :: string where
  "ENV_FD_CLIENT_TO_MONITOR = ''CFI_CLIENT_TO_MONITOR''"

definition ENV_FD_MONITOR_TO_CLIENT :: string where
  "ENV_FD_MONITOR_TO_CLIENT = ''CFI_MONITOR_TO_CLIENT''"

definition ENV_SM_TRACE :: string where
  "ENV_SM_TRACE = ''CFI_TRACE''"

definition ENV_SM_DUMP :: string where
  "ENV_SM_DUMP = ''CFI_DUMP''"

section \<open>The client's side\<close>

text \<open>\<open>%u\<close> of \<open>snprintf\<close>, cut to the buffer, whose last byte is the terminator.\<close>

definition snprintf_u :: "nat \<Rightarrow> int \<Rightarrow> string" where
  "snprintf_u bytes fd = take (bytes - 1) (decimal (unat (word_of_int fd :: u32)))"

type_synonym fds = "(int \<times> int) \<times> (int \<times> int) \<times> (int \<times> int) \<times> (int \<times> int)"

definition client_process :: "bool \<Rightarrow> system \<Rightarrow> fds \<Rightarrow> ending \<times> action list" where
  "client_process exec_ok sys = (\<lambda>(c2m, m2c, l2m, m2l).
     (if exec_ok then Execve (tl (argv sys)) else Return (-4),
      [Close (fst c2m), Close (snd m2c), Close (fst l2m), Close (snd m2l),
       Setenv ENV_FD_CLIENT_TO_MONITOR (snprintf_u 128 (snd c2m)),
       Setenv ENV_FD_MONITOR_TO_CLIENT (snprintf_u 128 (fst m2c)),
       Setenv ENV_FD_LOADING_TO_MONITOR (snprintf_u 128 (snd l2m)),
       Setenv ENV_FD_MONITOR_TO_LOADING (snprintf_u 128 (fst m2l))]))"

section \<open>The monitor's side\<close>

fun preload_answers :: "nat \<Rightarrow> world \<Rightarrow> u32 \<Rightarrow> world \<times> u32" where
  "preload_answers 0 w err = (w, err)"
| "preload_answers (Suc n) w err =
     (if err \<noteq> 0 then (w, err) else let (w, err) = write_monitor_answer w err in preload_answers n w err)"

text \<open>The expected finalisers, summed over the modules in 32 bits.\<close>

fun count_finis :: "monitor_data \<Rightarrow> nat \<Rightarrow> nat \<Rightarrow> u32 \<Rightarrow> u32 option" where
  "count_finis data i 0 nb = Some nb"
| "count_finis data i (Suc n) nb = do {
     md \<leftarrow> arr_get (modules data) i;
     count_finis data (Suc i) n (nb + nb_entrypoint_finis md)
   }"

fun run_finis :: "options \<Rightarrow> client_signal \<Rightarrow> monitor_data \<Rightarrow> nat \<Rightarrow> world \<Rightarrow> (u32 \<times> world) option" where
  "run_finis opts g data 0 w = Some (0, w)"
| "run_finis opts g data (Suc n) w = do {
     (err, w) \<leftarrow> monitor_run opts g data w;
     if err \<noteq> 0 then Some (err, w) else run_finis opts g data n w
   }"

text \<open>The error of the preloaded answers is overwritten by that of the run.\<close>

definition monitor_serve ::
    "options \<Rightarrow> client_signal \<Rightarrow> monitor_data \<Rightarrow> world \<Rightarrow> (u32 \<times> world) option" where
  "monitor_serve opts g data w = do {
     let (w, _) = preload_answers (unat (OPTION_nb_preload_monitor_ok_answers opts)) w 0;
     (err, w) \<leftarrow> monitor_run opts g data w;
     if err \<noteq> 0 then Some (err, w)
     else do {
       nb \<leftarrow> count_finis data 0 (unat (nb_modules data)) 0;
       run_finis opts g data (unat nb) w
     }
   }"

text \<open>
  \<open>gdata\<close> is the uninitialised \<open>data\<close> of \<open>main\<close>, which is released as it is when the signal
  mask cannot be set.
\<close>

definition monitor_process ::
    "options \<Rightarrow> client_signal \<Rightarrow> loading_packet \<Rightarrow> monitor_data \<Rightarrow> system \<Rightarrow> fds \<Rightarrow> world \<Rightarrow>
     (ending \<times> action list \<times> world) option" where
  "monitor_process opts g gp gdata sys = (\<lambda>(c2m, m2c, l2m, m2l) w. do {
     (err, data, w) \<leftarrow>
       (if mask_sigpipe sys \<noteq> 0 then Some (mask_sigpipe sys, gdata, w)
        else do {
          (err, data, w) \<leftarrow> monitor_load opts g gp (fork sys) (fst c2m) (snd m2c) (fst l2m) (snd m2l) w;
          if err \<noteq> 0 then Some (err, data, w)
          else do { (err, w) \<leftarrow> monitor_serve opts g data w; Some (err, data, w) }
        });
     _ \<leftarrow> monitor_data_free data;
     Some (Return err,
       [Close (snd c2m), Close (fst m2c), Close (snd l2m), Close (fst m2l)] @
       (if err \<noteq> 0 then [Kill (fork sys)] else []), w)
   })"

section \<open>The program\<close>

definition env_options :: "system \<Rightarrow> options \<Rightarrow> options" where
  "env_options sys opts =
     (let opts = (if getenv sys ENV_SM_TRACE \<noteq> None then opts\<lparr>OPTION_sm_trace := True\<rparr> else opts)
      in if getenv sys ENV_SM_DUMP \<noteq> None then opts\<lparr>OPTION_sm_dump := True\<rparr> else opts)"

definition main ::
    "options \<Rightarrow> client_signal \<Rightarrow> loading_packet \<Rightarrow> monitor_data \<Rightarrow> bool \<Rightarrow> system \<Rightarrow> world \<Rightarrow>
     (ending \<times> action list \<times> world) option" where
  "main opts g gp gdata exec_ok sys w =
     (if getenv sys ''LD_PRELOAD'' \<noteq> None then Some (Return (-1), [], w)
      else if getenv sys ENV_FD_CLIENT_TO_MONITOR \<noteq> None \<or> getenv sys ENV_FD_MONITOR_TO_CLIENT \<noteq> None \<or>
              getenv sys ENV_FD_LOADING_TO_MONITOR \<noteq> None \<or> getenv sys ENV_FD_MONITOR_TO_LOADING \<noteq> None
      then Some (Return (-1), [], w)
      else if length (argv sys) < 2 then Some (Return (-2), [], w)
      else let opts = env_options sys opts in
        (case (pipe2 sys 0, pipe2 sys 1, pipe2 sys 2, pipe2 sys 3) of
           (Some c2m, Some m2c, Some l2m, Some m2l) \<Rightarrow>
             if 0 < fork sys then monitor_process opts g gp gdata sys (c2m, m2c, l2m, m2l) w
             else if fork sys = 0
             then let (r, acts) = client_process exec_ok sys (c2m, m2c, l2m, m2l) in Some (r, acts, w)
             else Some (Return (-5), [], w)
         | _ \<Rightarrow> Some (Return (-3), [], w)))"

section \<open>Descriptors survive the environment\<close>

lemma snprintf_fits:
  assumes "11 \<le> bytes"
  shows "snprintf_u bytes fd = decimal (unat (word_of_int fd :: u32)) \<and> length (snprintf_u bytes fd) \<le> 10"
proof -
  have "unat (word_of_int fd :: u32) < 10 ^ Suc 9"
    using unsigned_less [of "word_of_int fd :: u32", where ?'a = nat] by simp
  then have "length (decimal (unat (word_of_int fd :: u32))) \<le> 10"
    using length_decimal [of _ 9] by simp
  then show ?thesis using assms by (simp add: snprintf_u_def)
qed

section \<open>Serving the client\<close>

text \<open>One complete activation of an entry point.\<close>

definition activated :: "monitor_data \<Rightarrow> client_signal list \<Rightarrow> bool" where
  "activated data us \<longleftrightarrow> (\<exists>m f. entry_point data m f \<and> activation data m f us)"

lemma run_finis_sound:
  assumes "wf_modules data" "relocs_ok data" "Alloc_Fail \<notin> range (w_alloc w)"
    "client_to_monitor w = map encode_signal ts" "run_finis opts g data n w = Some (0, w')"
  shows "\<exists>uss vs. length uss = n \<and> list_all (activated data) uss \<and> ts = concat uss @ vs \<and>
    client_to_monitor w' = map encode_signal vs \<and>
    monitor_to_client w' = monitor_to_client w @ replicate (length (concat uss)) [CFI_OK]"
  using assms(3-)
proof (induction n arbitrary: w ts)
  case 0
  then show ?case by (intro exI [of _ "[]"] exI [of _ ts]) simp
next
  case (Suc n)
  obtain w1 where 1: "monitor_run opts g data w = Some (0, w1)" and 2: "run_finis opts g data n w1 = Some (0, w')"
    using Suc.prems(3) by (auto simp: bind_eq_Some_conv split: if_splits)
  obtain us vs m f where s: "ts = us @ vs" "entry_point data m f" "activation data m f us"
      "client_to_monitor w1 = map encode_signal vs"
      "monitor_to_client w1 = monitor_to_client w @ replicate (length us) [CFI_OK]"
    using monitor_run_sound [OF assms(1,2) Suc.prems(1,2) 1] by blast
  have "Alloc_Fail \<notin> range (w_alloc w1)"
    using alloc_later_member [OF monitor_run_later [OF 1]] Suc.prems(1) by blast
  from Suc.IH [OF this s(4) 2] obtain uss vs' where r: "length uss = n" "list_all (activated data) uss"
      "vs = concat uss @ vs'" "client_to_monitor w' = map encode_signal vs'"
      "monitor_to_client w' = monitor_to_client w1 @ replicate (length (concat uss)) [CFI_OK]"
    by blast
  have "list_all (activated data) (us # uss)" using r(2) s(2,3) by (auto simp: activated_def)
  then show ?case using r s(1,5) by (intro exI [of _ "us # uss"] exI [of _ vs']) (simp add: replicate_add)
qed

lemma preload_frame:
  "preload_answers n w e = (w', e') \<Longrightarrow> w_alloc w' = w_alloc w \<and> client_to_monitor w' = client_to_monitor w"
  by (induction n arbitrary: w e)
    (auto simp: write_monitor_answer_def split: prod.splits if_splits)

lemma monitor_serve_sound:
  assumes "wf_modules data" "relocs_ok data" "Alloc_Fail \<notin> range (w_alloc w)"
    "client_to_monitor w = map encode_signal ts" "monitor_serve opts g data w = Some (0, w')"
  shows "\<exists>nb uss vs. count_finis data 0 (unat (nb_modules data)) 0 = Some nb \<and> length uss = Suc (unat nb) \<and>
    list_all (activated data) uss \<and> ts = concat uss @ vs \<and> client_to_monitor w' = map encode_signal vs"
proof -
  obtain w0 e0 where p: "preload_answers (unat (OPTION_nb_preload_monitor_ok_answers opts)) w 0 = (w0, e0)" by fastforce
  obtain nb w1 where nb: "count_finis data 0 (unat (nb_modules data)) 0 = Some nb"
    and 1: "monitor_run opts g data w0 = Some (0, w1)" and 2: "run_finis opts g data (unat nb) w1 = Some (0, w')"
    using assms(5) p by (auto simp: monitor_serve_def bind_eq_Some_conv split: if_splits)
  then have "run_finis opts g data (Suc (unat nb)) w0 = Some (0, w')" by simp
  from run_finis_sound [OF assms(1,2) _ _ this, of ts] preload_frame [OF p] assms(3,4) nb show ?thesis by auto
qed

lemma preload_writes:
  "w_write w = (\<lambda>_. True) \<Longrightarrow> preload_answers n w 0 =
    (w\<lparr>monitor_to_client := monitor_to_client w @ replicate n [CFI_OK]\<rparr>, 0)"
  by (induction n arbitrary: w)
    (simp_all add: write_monitor_answer_def WRITE_MONITOR_ANSWER_def pipe_write_def PIPE_BUF_def)

section \<open>The monitor process\<close>

lemma monitor_process_success:
  assumes "monitor_process opts g gp gdata sys (c2m, m2c, l2m, m2l) w = Some (Return 0, acts, w')"
  shows "\<exists>data w1. monitor_load opts g gp (fork sys) (fst c2m) (snd m2c) (fst l2m) (snd m2l) w = Some (0, data, w1) \<and>
    monitor_serve opts g data w1 = Some (0, w')"
  using assms by (auto simp: monitor_process_def bind_eq_Some_conv split: if_splits)

lemma monitor_process_sound:
  assumes run: "monitor_process opts g gp gdata sys (c2m, m2c, l2m, m2l) w = Some (Return 0, acts, w')"
    and al: "Alloc_Fail \<notin> range (w_alloc w)"
  shows "\<exists>data w1. monitor_load opts g gp (fork sys) (fst c2m) (snd m2c) (fst l2m) (snd m2l) w = Some (0, data, w1) \<and>
    wf_modules data \<and>
    (\<forall>ts. unat (nb_modules data) \<le> 2 ^ 16 \<and> client_to_monitor w1 = map encode_signal ts \<longrightarrow>
      (\<exists>nb uss vs. count_finis data 0 (unat (nb_modules data)) 0 = Some nb \<and> length uss = Suc (unat nb) \<and>
        list_all (activated data) uss \<and> ts = concat uss @ vs \<and> client_to_monitor w' = map encode_signal vs))"
proof -
  obtain data w1 where l: "monitor_load opts g gp (fork sys) (fst c2m) (snd m2c) (fst l2m) (snd m2l) w = Some (0, data, w1)"
    and s: "monitor_serve opts g data w1 = Some (0, w')"
    using monitor_process_success [OF run] by blast
  note ok = monitor_load_ok [OF l]
  have "Alloc_Fail \<notin> range (w_alloc w1)"
    using alloc_later_member [OF conjunct1 [OF ok]] al by blast
  then show ?thesis using ok l monitor_serve_sound [OF _ _ _ _ s] by (auto simp: sound_load_def)
qed

text \<open>A load that fails without a refused allocation: the client is killed, the tables are released.\<close>

lemma monitor_process_load_error:
  assumes "mask_sigpipe sys = 0" "Alloc_Fail \<notin> range (w_alloc w)" "e \<noteq> 0"
    "monitor_load opts g gp (fork sys) (fst c2m) (snd m2c) (fst l2m) (snd m2l) w = Some (e, data, w1)"
  shows "monitor_process opts g gp gdata sys (c2m, m2c, l2m, m2l) w =
    Some (Return e, [Close (snd c2m), Close (fst m2c), Close (snd l2m), Close (fst m2l), Kill (fork sys)], w1)"
proof -
  have "wf_modules data" using monitor_load_ok [OF assms(4)] assms(2) by (simp add: sound_load_def)
  then show ?thesis using assms by (simp add: monitor_process_def monitor_data_free_ok)
qed

lemma monitor_process_kills:
  assumes "monitor_process opts g gp gdata sys fds w = Some (r, acts, w')"
  shows "Kill (fork sys) \<in> set acts \<longleftrightarrow> r \<noteq> Return 0"
  using assms by (cases fds) (auto simp: monitor_process_def bind_eq_Some_conv split: if_splits)

lemma monitor_process_garbage:
  assumes "mask_sigpipe sys \<noteq> 0" "nb_modules gdata \<noteq> 0" "modules gdata = None"
  shows "monitor_process opts g gp gdata sys fds w = None"
  using assms by (cases fds) (simp add: monitor_process_def monitor_data_free_null)

end
