(* ===== verification/Module_Init.thy ===== *)
theory Module_Init
  imports Prelink Client Monitor_Main
begin

text \<open>
  The constructor of a protected module (\<open>_init_cfi\<close>, the template of \<open>prelink/picon-prelink\<close>):
  it finds the descriptors the monitor left in the environment, sends the sections of the
  module and keeps the number the monitor gives it. What it sends is what the monitor loads.
\<close>

section \<open>The packets of a module\<close>

text \<open>\<open>t_bb\<close> is there when the module was compiled at basic-block granularity.\<close>

record tables =
  t_fcts :: "(byte list \<times> function_id \<times> string) list"
  t_callgraph :: "(function_id \<times> function_id list) list"
  t_bb :: "((function_id \<times> u32 \<times> (block_id \<times> block_id list) list) list \<times>
    (function_id \<times> block_id \<times> block_id \<times> block_id) list) option"

definition gen_packed_cfi :: "(byte list \<times> function_id \<times> string) list \<Rightarrow> byte list" where
  "gen_packed_cfi fcts = le32 (of_nat (length fcts))"

definition main_name :: "byte list" where
  "main_name = [109, 97, 105, 110]"

type_synonym packet = "loading_event \<times> byte list"

definition section_packets :: "tables \<Rightarrow> packet list" where
  "section_packets t =
     [(CFI_LOADING_SECTION_FUNCTION_ID, c_array (gen_packed_fctids (t_fcts t))),
      (CFI_LOADING_SECTION_FUNCTION_TRANSITION, c_array (gen_packed_callgraph (t_callgraph t)))] @
     (case t_bb t of None \<Rightarrow> []
      | Some (bb, ipd) \<Rightarrow>
          map (\<lambda>(f, n, d). (CFI_LOADING_SECTION_BLOCK_TRANSITION, gen_packed_bb f n d)) bb @
          [(CFI_LOADING_SECTION_BLOCK_IPD, c_array (gen_packed_bb_ipd ipd))])"

definition begin_packet :: "tables \<Rightarrow> packet" where
  "begin_packet t = (CFI_LOADING_MODULE_BEGIN, c_array (gen_packed_cfi (t_fcts t)))"

definition end_packets :: "tables \<Rightarrow> packet list" where
  "end_packets t =
     (CFI_LOADING_MODULE_END, []) #
     (if main_name \<in> set (map fst (t_fcts t)) then [(CFI_LOADING_TERMINATED, [])] else [])"

section \<open>The constructor\<close>

record loader =
  ld_client :: client
  ld_to_monitor :: pipe
  ld_from_monitor :: pipe
  ld_write :: "nat \<Rightarrow> bool \<times> bool \<times> bool"

fun send_packets :: "packet list \<Rightarrow> loader \<Rightarrow> loader + loader" where
  "send_packets [] l = Inr l"
| "send_packets ((ev, v) # ps) l =
     (let (ok1, ok2, ok3) = ld_write l 0;
          (p, err) = WRITE_LOADING_PACKET ok1 ok2 ok3 (loading_event_code ev) v (ld_to_monitor l) 0;
          l = l\<lparr>ld_to_monitor := p, ld_write := (\<lambda>n. ld_write l (Suc n))\<rparr>
      in if err \<noteq> 0 then Inl l else send_packets ps l)"

definition get_fd :: "system \<Rightarrow> string \<Rightarrow> int option" where
  "get_fd sys name = do {
     s \<leftarrow> getenv sys name;
     let fd = sint (word_of_int (strtol s) :: u32);
     if fd < 0 then None else Some fd
   }"

definition init_fds :: "system \<Rightarrow> client \<Rightarrow> client option" where
  "init_fds sys c = do {
     _ \<leftarrow> get_fd sys ENV_FD_LOADING_TO_MONITOR;
     _ \<leftarrow> get_fd sys ENV_FD_MONITOR_TO_LOADING;
     c2m \<leftarrow> get_fd sys ENV_FD_CLIENT_TO_MONITOR;
     m2c \<leftarrow> get_fd sys ENV_FD_MONITOR_TO_CLIENT;
     Some (CFI_SET_FDS c2m m2c c)
   }"

text \<open>\<open>garbage\<close> is the uninitialised packet the module number is read into.\<close>

definition init_cfi :: "system \<Rightarrow> module_id \<Rightarrow> tables \<Rightarrow> loader \<Rightarrow> loader + loader" where
  "init_cfi sys garbage t l =
     (case init_fds sys (ld_client l) of None \<Rightarrow> Inl l
      | Some c \<Rightarrow>
        (case send_packets [begin_packet t] (l\<lparr>ld_client := c\<rparr>) of Inl l \<Rightarrow> Inl l
         | Inr l \<Rightarrow>
           let (p, mid, err) = READ_MONITOR_TO_LOADING_PACKET (ld_from_monitor l) garbage 0;
               l = l\<lparr>ld_from_monitor := p\<rparr>
           in if err \<noteq> 0 then Inl l
              else send_packets (section_packets t @ end_packets t)
                (l\<lparr>ld_client := CFI_SET_MODULE_ID mid (ld_client l)\<rparr>)))"

section \<open>What the constructor sends\<close>

definition packet_stream :: "packet list \<Rightarrow> pipe" where
  "packet_stream ps = concat (map (\<lambda>(ev, v). loading_write ev v []) ps)"

lemma send_packets_stream:
  assumes "ld_write l = (\<lambda>_. (True, True, True))"
  shows "send_packets ps l = Inr (l\<lparr>ld_to_monitor := ld_to_monitor l @ packet_stream ps\<rparr>)"
  using assms
proof (induction ps arbitrary: l)
  case (Cons x ps)
  obtain ev v where x: "x = (ev, v)" by (cases x)
  have "WRITE_LOADING_PACKET True True True (loading_event_code ev) v p 0 = (p @ loading_write ev v [], 0)" for p
    by (auto simp: loading_write_def WRITE_LOADING_PACKET_def Let_def pipe_write_def)
  then show ?case using Cons by (simp add: x packet_stream_def)
qed (simp add: packet_stream_def)

lemma init_cfi_sends:
  assumes "ld_write l = (\<lambda>_. (True, True, True))" "init_fds sys (ld_client l) = Some c"
    "ld_from_monitor l = pipe_packets (le16 mid) @ p"
  shows "init_cfi sys garbage t l = Inr (l\<lparr>ld_client := CFI_SET_MODULE_ID mid c, ld_from_monitor := p,
    ld_to_monitor := ld_to_monitor l @ packet_stream (begin_packet t # section_packets t @ end_packets t)\<rparr>)"
proof -
  have "READ_MONITOR_TO_LOADING_PACKET (pipe_packets (le16 mid) @ p) garbage 0 = (p, mid, 0)"
  proof -
    have "le16 mid \<noteq> []" by (simp add: le16_def)
    then show ?thesis by (simp add: READ_MONITOR_TO_LOADING_PACKET_def pipe_read_def PIPE_BUF_def le16_def)
  qed
  then show ?thesis
    using assms by (simp add: init_cfi_def send_packets_stream packet_stream_def)
qed

text \<open>The environment of the program \<open>execve\<close> starts.\<close>

fun exec_env :: "action list \<Rightarrow> (string \<Rightarrow> string option) \<Rightarrow> string \<Rightarrow> string option" where
  "exec_env [] env = env"
| "exec_env (Setenv n v # acts) env = exec_env acts (env(n \<mapsto> v))"
| "exec_env (_ # acts) env = exec_env acts env"

lemma get_fd_printed:
  assumes "0 \<le> fd" "fd < 2 ^ 31" "getenv sys name = Some (snprintf_u 128 fd)"
  shows "get_fd sys name = Some fd"
proof -
  have "unat (word_of_int fd :: u32) < 2 ^ 63" using unat_u32_less [of "word_of_int fd"] by simp
  then have "sint (word_of_int (strtol (snprintf_u 128 fd)) :: u32) = sint (word_of_int fd :: u32)"
    using snprintf_fits [of 128 fd] by (simp add: strtol_decimal_int)
  also have "\<dots> = fd" using assms(1,2) by (simp add: sint_sbintrunc' signed_take_bit_int_eq_self)
  finally show ?thesis using assms by (simp add: get_fd_def Let_def)
qed

lemma init_fds_inherited:
  assumes "client_process True sys (c2m, m2c, l2m, m2l) = (r, acts)"
    "\<forall>fd \<in> {snd c2m, fst m2c, snd l2m, fst m2l}. 0 \<le> fd \<and> fd < 2 ^ 31"
  shows "init_fds (sys\<lparr>getenv := exec_env acts (getenv sys)\<rparr>) c = Some (CFI_SET_FDS (snd c2m) (fst m2c) c)"
proof -
  let ?sys = "sys\<lparr>getenv := exec_env acts (getenv sys)\<rparr>"
  have "getenv ?sys ENV_FD_LOADING_TO_MONITOR = Some (snprintf_u 128 (snd l2m))"
    "getenv ?sys ENV_FD_MONITOR_TO_LOADING = Some (snprintf_u 128 (fst m2l))"
    "getenv ?sys ENV_FD_CLIENT_TO_MONITOR = Some (snprintf_u 128 (snd c2m))"
    "getenv ?sys ENV_FD_MONITOR_TO_CLIENT = Some (snprintf_u 128 (fst m2c))"
    using assms(1) by (auto simp: client_process_def ENV_FD_LOADING_TO_MONITOR_def ENV_FD_MONITOR_TO_LOADING_def
        ENV_FD_CLIENT_TO_MONITOR_def ENV_FD_MONITOR_TO_CLIENT_def)
  then have "get_fd ?sys ENV_FD_LOADING_TO_MONITOR = Some (snd l2m)" "get_fd ?sys ENV_FD_MONITOR_TO_LOADING = Some (fst m2l)"
    "get_fd ?sys ENV_FD_CLIENT_TO_MONITOR = Some (snd c2m)" "get_fd ?sys ENV_FD_MONITOR_TO_CLIENT = Some (fst m2c)"
    using assms(2) by (auto intro: get_fd_printed)
  then show ?thesis by (simp add: init_fds_def)
qed

section \<open>What the monitor loads\<close>

lemma read_packet:
  assumes "loading_to_monitor w = loading_write ev v [] @ p" "length v \<le> PIPE_BUF" "Alloc_Fail \<notin> range (w_alloc w)"
  shows "read_loading_packet w pkt 0 =
    (w\<lparr>loading_to_monitor := p, w_alloc := if v = [] then w_alloc w else alloc_rest (w_alloc w)\<rparr>,
     \<lparr>lp_event = loading_event_code ev, lp_size = of_nat (length v), lp_value = (if v = [] then Buf_NULL else Buf_Live v)\<rparr>, 0)"
proof -
  have "w_alloc w 0 \<noteq> Alloc_Fail" by (rule no_fail_head [OF assms(3)])
  then show ?thesis using read_written_loading [OF assms(2), of ev p pkt 0] assms(1) by (simp add: read_loading_packet_def)
qed

abbreviation held :: "packet \<Rightarrow> loading_packet" where
  "held x \<equiv> \<lparr>lp_event = loading_event_code (fst x), lp_size = of_nat (length (snd x)),
     lp_value = (if snd x = [] then Buf_NULL else Buf_Live (snd x))\<rparr>"

lemma loading_event_code_inject [simp]: "loading_event_code a = loading_event_code b \<longleftrightarrow> a = b"
  by (metis loading_event_of_code option.inject)

text \<open>
  The packet loop over sections that each load: the module at \<open>idx\<close> is the result of loading them
  in turn, and the packet of the last one is held when the loop goes on.
\<close>

lemma load_packets_prefix:
  assumes step: "\<And>x xs md al. I (x # xs) md \<Longrightarrow> Alloc_Fail \<notin> range al \<Longrightarrow> length (snd (enc x)) \<le> PIPE_BUF \<and>
      (\<exists>al'. load_packet opts (held (enc x)) md al = Some (0, f x md, al') \<and> alloc_later al al') \<and>
      fst (enc x) \<noteq> CFI_LOADING_MODULE_END \<and> I xs (f x md)"
    and "loading_to_monitor w = packet_stream (map enc ps) @ rest"
    and "Alloc_Fail \<notin> range (w_alloc w)" "I ps md"
    and "modules mon = Some ms" "idx < length ms" "ms ! idx = md" "fst x0 \<noteq> CFI_LOADING_MODULE_END"
  shows "\<exists>x1 al'. load_packets opts idx (held x0) mon w =
      load_packets opts idx (held x1) (mon\<lparr>modules := Some (ms[idx := fold f ps md])\<rparr>) (w\<lparr>loading_to_monitor := rest, w_alloc := al'\<rparr>) \<and>
      fst x1 \<noteq> CFI_LOADING_MODULE_END \<and> alloc_later (w_alloc w) al'"
  using assms(2-)
proof (induction ps arbitrary: w md mon ms x0)
  case Nil
  have "mon\<lparr>modules := Some (ms[idx := fold f [] md])\<rparr> = mon" using Nil.prems(4,6) by (cases mon) auto
  moreover have "w\<lparr>loading_to_monitor := rest, w_alloc := w_alloc w\<rparr> = w"
    using Nil.prems(1) by (cases w) (simp add: packet_stream_def)
  ultimately show ?case using Nil.prems(7) by (metis alloc_later_refl)
next
  case (Cons x ps)
  note s = step [OF Cons.prems(3)]
  let ?rest = "packet_stream (map enc ps) @ rest"
  let ?al = "if snd (enc x) = [] then w_alloc w else alloc_rest (w_alloc w)"
  have small: "length (snd (enc x)) \<le> PIPE_BUF" and x: "fst (enc x) \<noteq> CFI_LOADING_MODULE_END" and I: "I ps (f x md)"
    using s [OF Cons.prems(2)] by simp_all
  have al: "alloc_later (w_alloc w) ?al" "Alloc_Fail \<notin> range ?al"
    using Cons.prems(2) no_fail_rest alloc_later_rest by auto
  obtain al' where l: "load_packet opts (held (enc x)) md ?al = Some (0, f x md, al')" "alloc_later ?al al'"
    using s [OF al(2)] by blast
  let ?mon = "mon\<lparr>modules := Some (ms[idx := f x md])\<rparr>" and ?w = "w\<lparr>loading_to_monitor := ?rest, w_alloc := al'\<rparr>"
  have "read_loading_packet w pkt 0 = (w\<lparr>loading_to_monitor := ?rest, w_alloc := ?al\<rparr>, held (enc x), 0)" for pkt
    using read_packet [of w "fst (enc x)" "snd (enc x)" ?rest] Cons.prems(1,2) small by (simp add: packet_stream_def split_beta)
  moreover have "FREE_LOADING_PACKET (held x0) = Some ((held x0)\<lparr>lp_value := Buf_NULL\<rparr>)"
    by (simp add: FREE_LOADING_PACKET_def)
  ultimately have unroll: "load_packets opts idx (held x0) mon w = load_packets opts idx (held (enc x)) ?mon ?w"
    using Cons.prems(4-) l(1) by (subst load_packets.simps) (simp add: receive_section_def del: loading_event_code.simps)
  have later: "alloc_later (w_alloc w) al'" by (rule alloc_later_trans [OF al(1) l(2)])
  have "Alloc_Fail \<notin> range al'" using alloc_later_member [OF l(2)] al(2) by blast
  then obtain x1 al2 where "load_packets opts idx (held (enc x)) ?mon ?w =
      load_packets opts idx (held x1) (?mon\<lparr>modules := Some ((ms[idx := f x md])[idx := fold f ps (f x md)])\<rparr>)
        (?w\<lparr>loading_to_monitor := rest, w_alloc := al2\<rparr>)"
      "fst x1 \<noteq> CFI_LOADING_MODULE_END" "alloc_later (w_alloc ?w) al2"
    using Cons.IH [of ?w "f x md" ?mon "ms[idx := f x md]" "enc x"] Cons.prems(4-) x I by auto
  then show ?case
    unfolding unroll using alloc_later_trans [OF later, of al2] by (intro exI [of _ x1] exI [of _ al2]) simp
qed

text \<open>Ended by \<open>CFI_LOADING_MODULE_END\<close>, the loop leaves the module loaded.\<close>

lemma load_packets_stream:
  assumes step: "\<And>x xs md al. I (x # xs) md \<Longrightarrow> Alloc_Fail \<notin> range al \<Longrightarrow> length (snd (enc x)) \<le> PIPE_BUF \<and>
      (\<exists>al'. load_packet opts (held (enc x)) md al = Some (0, f x md, al') \<and> alloc_later al al') \<and>
      fst (enc x) \<noteq> CFI_LOADING_MODULE_END \<and> I xs (f x md)"
    and "loading_to_monitor w = packet_stream (map enc ps @ [(CFI_LOADING_MODULE_END, [])]) @ rest"
    and "Alloc_Fail \<notin> range (w_alloc w)" "I ps md" "OPTION_sm_dump opts \<longrightarrow> dump_module (fold f ps md) \<noteq> None"
    and "modules mon = Some ms" "idx < length ms" "ms ! idx = md" "fst x0 \<noteq> CFI_LOADING_MODULE_END"
  shows "\<exists>pkt' w'. load_packets opts idx (held x0) mon w =
      Some (0, pkt', mon\<lparr>modules := Some (ms[idx := fold f ps md])\<rparr>, w') \<and>
      loading_to_monitor w' = rest \<and> lp_value pkt' = Buf_NULL \<and> alloc_later (w_alloc w) (w_alloc w') \<and> w_write w' = w_write w"
proof -
  let ?e = "(CFI_LOADING_MODULE_END, [] :: byte list)"
  let ?mon = "mon\<lparr>modules := Some (ms[idx := fold f ps md])\<rparr>"
  have pipe: "loading_to_monitor w = packet_stream (map enc ps) @ packet_stream [?e] @ rest"
    using assms(2) by (simp add: packet_stream_def)
  obtain x1 al' where 1: "load_packets opts idx (held x0) mon w =
      load_packets opts idx (held x1) ?mon (w\<lparr>loading_to_monitor := packet_stream [?e] @ rest, w_alloc := al'\<rparr>)"
      "fst x1 \<noteq> CFI_LOADING_MODULE_END" "alloc_later (w_alloc w) al'"
    using load_packets_prefix [where I = I and enc = enc and f = f, OF step pipe assms(3,4,6-9)] by blast
  have "Alloc_Fail \<notin> range al'" using alloc_later_member [OF 1(3)] assms(3) by blast
  then have "read_loading_packet (w\<lparr>loading_to_monitor := packet_stream [?e] @ rest, w_alloc := al'\<rparr>) pkt 0 =
      (w\<lparr>loading_to_monitor := rest, w_alloc := al'\<rparr>, held ?e, 0)" for pkt
    using read_packet [of "w\<lparr>loading_to_monitor := packet_stream [?e] @ rest, w_alloc := al'\<rparr>" CFI_LOADING_MODULE_END "[]" rest]
    by (simp add: packet_stream_def PIPE_BUF_def)
  moreover have "load_packet opts (held ?e) (fold f ps md) al = Some (0, fold f ps md, al)" for al
    using assms(5) by (auto simp: load_packet_def simp del: loading_event_code.simps)
  moreover have "FREE_LOADING_PACKET (held x1) = Some ((held x1)\<lparr>lp_value := Buf_NULL\<rparr>)"
    by (simp add: FREE_LOADING_PACKET_def)
  moreover have "load_packets opts idx (held ?e) m v = Some (0, held ?e, m, v)" for m v
    by (simp add: load_packets.simps)
  ultimately show ?thesis
    using assms(6-8) 1
    by (simp add: load_packets.simps [of opts idx "held x1"] receive_section_def del: loading_event_code.simps)
qed

text \<open>Behind them, a section that is larger than the pipe: the loop ends with a pointer to a freed buffer.\<close>

lemma load_packets_large:
  assumes step: "\<And>x xs md al. I (x # xs) md \<Longrightarrow> Alloc_Fail \<notin> range al \<Longrightarrow> length (snd (enc x)) \<le> PIPE_BUF \<and>
      (\<exists>al'. load_packet opts (held (enc x)) md al = Some (0, f x md, al') \<and> alloc_later al al') \<and>
      fst (enc x) \<noteq> CFI_LOADING_MODULE_END \<and> I xs (f x md)"
    and "loading_to_monitor w = packet_stream (map enc ps) @ loading_write ev v [] @ rest"
    and "Alloc_Fail \<notin> range (w_alloc w)" "I ps md"
    and "modules mon = Some ms" "idx < length ms" "ms ! idx = md" "fst x0 \<noteq> CFI_LOADING_MODULE_END"
    and large: "PIPE_BUF < length v" "length v < 2 ^ 32"
  shows "\<exists>pkt' mon' w'. load_packets opts idx (held x0) mon w = Some (4, pkt', mon', w') \<and> lp_value pkt' = Buf_Freed"
proof -
  obtain x1 al' where 1: "load_packets opts idx (held x0) mon w = load_packets opts idx (held x1)
      (mon\<lparr>modules := Some (ms[idx := fold f ps md])\<rparr>) (w\<lparr>loading_to_monitor := loading_write ev v [] @ rest, w_alloc := al'\<rparr>)"
      "fst x1 \<noteq> CFI_LOADING_MODULE_END" "alloc_later (w_alloc w) al'"
    using load_packets_prefix [where I = I and enc = enc and f = f, OF step assms(2-8)] by blast
  let ?w = "w\<lparr>loading_to_monitor := loading_write ev v [] @ rest, w_alloc := al'\<rparr>"
  let ?pkt = "(held x1)\<lparr>lp_value := Buf_NULL\<rparr>"
  have al: "al' 0 \<noteq> Alloc_Fail" using alloc_later_member [OF 1(3)] assms(3) no_fail_head by blast
  obtain p' where "READ_LOADING_PACKET True (loading_write ev v [] @ rest) ?pkt 0 =
      (p', \<lparr>lp_event = loading_event_code ev, lp_size = 0, lp_value = Buf_Freed\<rparr>, 4)"
    using read_written_loading_large [OF large] by blast
  then obtain w' where r: "read_loading_packet ?w ?pkt 0 =
      (w', \<lparr>lp_event = loading_event_code ev, lp_size = 0, lp_value = Buf_Freed\<rparr>, 4)"
    using al by (simp add: read_loading_packet_def)
  have "FREE_LOADING_PACKET (held x1) = Some ?pkt" by (simp add: FREE_LOADING_PACKET_def)
  moreover have "lp_event (held x1) \<noteq> loading_event_code CFI_LOADING_MODULE_END" using 1(2) by (simp del: loading_event_code.simps)
  ultimately have "load_packets opts idx (held x1) m ?w =
      Some (4, \<lparr>lp_event = loading_event_code ev, lp_size = 0, lp_value = Buf_Freed\<rparr>, m, w')" for m
    by (subst load_packets.simps) (simp only: if_False option.case r Let_def prod.case, simp)
  then show ?thesis using 1(1) by simp
qed

section \<open>A module as the sequence of its sections\<close>

datatype module_section =
  Fctids "(byte list \<times> function_id \<times> string) list"
| Calls "(function_id \<times> function_id list) list"
| Blocks function_id u32 "(block_id \<times> block_id list) list"
| Ipds "(function_id \<times> block_id \<times> block_id \<times> block_id) list"

fun section_packet :: "module_section \<Rightarrow> packet" where
  "section_packet (Fctids fcts) = (CFI_LOADING_SECTION_FUNCTION_ID, c_array (gen_packed_fctids fcts))"
| "section_packet (Calls cg) = (CFI_LOADING_SECTION_FUNCTION_TRANSITION, c_array (gen_packed_callgraph cg))"
| "section_packet (Blocks f n d) = (CFI_LOADING_SECTION_BLOCK_TRANSITION, gen_packed_bb f n d)"
| "section_packet (Ipds xs) = (CFI_LOADING_SECTION_BLOCK_IPD, c_array (gen_packed_bb_ipd xs))"

definition sections :: "tables \<Rightarrow> module_section list" where
  "sections t = [Fctids (t_fcts t), Calls (t_callgraph t)] @
     (case t_bb t of None \<Rightarrow> []
      | Some (bb, ipd) \<Rightarrow> map (\<lambda>(f, n, d). Blocks f n d) bb @ [Ipds ipd])"

lemma section_packets_sections: "section_packets t = map section_packet (sections t)"
  by (auto simp: section_packets_def sections_def split: option.splits)

text \<open>The table a section describes, added to the module.\<close>

fun add_section :: "module_section \<Rightarrow> module_data \<Rightarrow> module_data" where
  "add_section (Fctids fcts) md = module_of (by_id fcts)"
| "add_section (Calls cg) md = md\<lparr>call_graph := Some (rows_of (nb_functions md) cg)\<rparr>"
| "add_section (Blocks f n d) md =
     md\<lparr>md_functions := map_option (\<lambda>fs. fs[unat f := with_blocks n d (fs ! unat f)]) (md_functions md)\<rparr>"
| "add_section (Ipds xs) md = fold put_ipd xs md"

text \<open>When a section can be loaded into a module, in the state the previous ones left it in.\<close>

fun ready :: "module_section \<Rightarrow> module_data \<Rightarrow> bool" where
  "ready (Fctids fcts) md \<longleftrightarrow> md = empty_module \<and> numbered (by_id fcts)"
| "ready (Calls cg) md \<longleftrightarrow> graph_ok (nb_functions md) cg \<and> nb_functions md \<noteq> 0 \<and>
     call_graph md = Some (replicate (unat (nb_functions md)) None)"
| "ready (Blocks f n d) md \<longleftrightarrow> graph_ok n d \<and> n \<noteq> 0 \<and> f < nb_functions md \<and>
     (case md_functions md of None \<Rightarrow> False | Some fs \<Rightarrow> unat f < length fs \<and> nb_blocks (fs ! unat f) = 0)"
| "ready (Ipds xs) md \<longleftrightarrow> ipd_ok xs md \<and> length xs < 2 ^ 32"

fun loadable :: "module_section list \<Rightarrow> module_data \<Rightarrow> bool" where
  "loadable [] md \<longleftrightarrow> True"
| "loadable (s # ss) md \<longleftrightarrow>
     length (snd (section_packet s)) \<le> PIPE_BUF \<and> ready s md \<and> loadable ss (add_section s md)"

lemma length_by_id [simp]: "length (by_id fcts) = length fcts"
  by (simp add: by_id_def)

lemma packed_nonempty [simp]: "snd (section_packet s) \<noteq> []"
  by (cases s) (simp_all add: c_array_def gen_packed_bb_def le32_def)

lemma alloc_later_pow: "alloc_later al ((alloc_rest ^^ n) al)"
proof (induction n)
  case (Suc n)
  then show ?case using alloc_later_trans [OF _ alloc_later_rest] by simp
qed simp

lemma load_section:
  assumes "ready s md" "Alloc_Fail \<notin> range al"
  shows "\<exists>al'. load_packet opts (held (section_packet s)) md al = Some (0, add_section s md, al') \<and> alloc_later al al'"
proof (cases s)
  case (Fctids fcts)
  have "c_array (gen_packed_fctids fcts) = le32 (of_nat (length (by_id fcts))) @ concat (map pack_fct (by_id fcts)) @ [0]"
    by (simp add: c_array_def gen_packed_fctids_def Let_def)
  then have "load_section_function_id (Some (c_array (gen_packed_fctids fcts))) md al =
      Some (0, module_of (by_id fcts), (alloc_rest ^^ (3 + length (by_id fcts))) al)"
    using load_fctids_packed [of "by_id fcts" al "[0]"] assms Fctids by simp
  then show ?thesis
    using alloc_later_pow [of al "3 + length (by_id fcts)"] packed_nonempty [of s]
    by (simp add: Fctids load_packet_def pkt_buffer_def del: loading_event_code.simps)
next
  case (Calls cg)
  then have "load_section_function_transition (Some (c_array (gen_packed_callgraph cg))) md al =
      Some (0, add_section s md, (alloc_rest ^^ length cg) al)"
    using load_callgraph_packed [of md cg al "[0]"] assms by (simp add: c_array_def)
  then show ?thesis
    using alloc_later_pow [of al "length cg"] packed_nonempty [of s]
    by (simp add: Calls load_packet_def pkt_buffer_def del: loading_event_code.simps)
next
  case (Blocks f n d)
  then obtain fs where fs: "md_functions md = Some fs" "unat f < length fs" "nb_blocks (fs ! unat f) = 0"
    using assms(1) by (auto split: option.splits)
  then have "load_section_block_transition (Some (gen_packed_bb f n d)) md al =
      Some (0, add_section s md, (alloc_rest ^^ length d) (alloc_rest (alloc_rest al)))"
    using load_bb_packed [of n d al md fs f "[]"] assms Blocks by simp
  moreover have "alloc_later al ((alloc_rest ^^ length d) (alloc_rest (alloc_rest al)))"
    using alloc_later_trans [OF alloc_later_trans [OF alloc_later_rest alloc_later_rest] alloc_later_pow] .
  ultimately show ?thesis
    using packed_nonempty [of s] by (simp add: Blocks load_packet_def pkt_buffer_def del: loading_event_code.simps)
next
  case (Ipds xs)
  then have "load_section_block_ipd (Some (c_array (gen_packed_bb_ipd xs))) md al = Some (0, add_section s md, al)"
    using load_ipd_packed [of xs md "[0]" al] assms by (simp add: c_array_def)
  then show ?thesis
    using packed_nonempty [of s] by (simp add: Ipds load_packet_def pkt_buffer_def del: loading_event_code.simps)
qed

lemma add_module_run:
  assumes wf: "wf_modules mon" and nz: "nb_modules mon + 1 \<noteq> 0" and ok: "w_alloc w 0 \<noteq> Alloc_Fail" "w_write w 0"
  shows "add_module mon w =
    Some (0, mon\<lparr>nb_modules := nb_modules mon + 1, modules := Some (module_list mon @ [empty_module])\<rparr>,
      w\<lparr>w_alloc := alloc_rest (w_alloc w), w_write := (\<lambda>n. w_write w (Suc n)),
        monitor_to_loading := monitor_to_loading w @ [le16 (ucast (nb_modules mon))]\<rparr>)"
proof -
  let ?n = "nb_modules mon + 1"
  have n: "unat ?n = Suc (unat (nb_modules mon))" using nz by (metis add.commute unatSuc)
  have len: "length (module_list mon) = unat (nb_modules mon)" by (rule wf_module_list [OF wf])
  have old: "(if nb_modules mon \<noteq> 0 then (?n, case modules mon of None \<Rightarrow> [] | Some ms \<Rightarrow> ms) else (1, [])) = (?n, module_list mon)"
    using len unfolding module_list_def [symmetric] by auto
  have "take (unat ?n) (module_list mon) @ replicate (unat ?n - length (module_list mon)) empty_module = module_list mon @ [empty_module]"
    using n len by simp
  moreover have "pipe_packets (le16 m) = [le16 m]" for m by (rule pipe_packets_small) (simp_all add: le16_def PIPE_BUF_def)
  ultimately show ?thesis
    using ok len n
    by (simp add: add_module_def old next_alloc_def write_module_id_def WRITE_MONITOR_TO_LOADING_PACKET_def pipe_write_def
        Let_def list_update_append)
qed

text \<open>
  The whole module: what the constructor sent is what the monitor has at the end, and the number
  it sent back is the index of the module.
\<close>

definition loaded_module :: "tables \<Rightarrow> module_data" where
  "loaded_module t = fold add_section (sections t) empty_module"

text \<open>The first packet adds an empty module, the others fill it.\<close>

lemma load_module_begin:
  assumes wf: "wf_modules mon" and nz: "nb_modules mon + 1 \<noteq> 0"
    and al: "Alloc_Fail \<notin> range (w_alloc w)" and wr: "w_write w 0"
    and pipe: "loading_to_monitor w = packet_stream (begin_packet t # ps) @ rest"
  shows "\<exists>w'. monitor_load_module opts gp mon w = do {
      (err, pkt, mon, w) \<leftarrow> load_packets opts (length (module_list mon)) (held (begin_packet t))
        (mon\<lparr>nb_modules := nb_modules mon + 1, modules := Some (module_list mon @ [empty_module])\<rparr>) w';
      _ \<leftarrow> FREE_LOADING_PACKET pkt;
      Some (if err \<noteq> 0 then -1 else 0, mon, w) } \<and>
    loading_to_monitor w' = packet_stream ps @ rest \<and> alloc_later (w_alloc w) (w_alloc w') \<and>
    w_write w' = (\<lambda>n. w_write w (Suc n))"
proof -
  let ?rest = "packet_stream ps @ rest"
  let ?b = "begin_packet t"
  have b: "fst ?b = CFI_LOADING_MODULE_BEGIN" "length (snd ?b) \<le> PIPE_BUF" "snd ?b \<noteq> []"
    by (simp_all add: begin_packet_def c_array_def gen_packed_cfi_def PIPE_BUF_def)
  let ?w1 = "w\<lparr>loading_to_monitor := ?rest, w_alloc := alloc_rest (w_alloc w)\<rparr>"
  have pipe': "loading_to_monitor w = loading_write (fst ?b) (snd ?b) [] @ ?rest"
    using pipe by (simp add: packet_stream_def split_beta)
  have read: "read_loading_packet w (gp\<lparr>lp_size := 0, lp_value := Buf_NULL\<rparr>) 0 = (?w1, held ?b, 0)"
    using read_packet [OF pipe' b(2) al] b(3) by simp
  let ?mon = "mon\<lparr>nb_modules := nb_modules mon + 1, modules := Some (module_list mon @ [empty_module])\<rparr>"
  let ?al = "alloc_rest (alloc_rest (w_alloc w))"
  let ?w2 = "?w1\<lparr>w_alloc := ?al, w_write := (\<lambda>n. w_write w (Suc n)),
        monitor_to_loading := monitor_to_loading w @ [le16 (ucast (nb_modules mon))]\<rparr>"
  have later: "alloc_later (w_alloc w) ?al" using alloc_later_trans [OF alloc_later_rest alloc_later_rest] .
  have "add_module mon ?w1 = Some (0, ?mon, ?w2)"
    using add_module_run [OF wf nz, of ?w1] no_fail_head [OF no_fail_rest [OF al]] wr by simp
  then have add: "begin_module (held ?b) mon ?w1 = Some (0, False, ?mon, ?w2)"
    by (simp add: begin_module_def b(1) del: loading_event_code.simps)
  have n: "unat (nb_modules mon) = length (module_list mon)" by (simp add: wf_module_list [OF wf])
  show ?thesis
    unfolding monitor_load_module_def read using add n later by (intro exI [of _ ?w2]) simp
qed

lemma load_section_step:
  assumes "loadable (s # ss) md" "Alloc_Fail \<notin> range al"
  shows "length (snd (section_packet s)) \<le> PIPE_BUF \<and>
    (\<exists>al'. load_packet opts (held (section_packet s)) md al = Some (0, add_section s md, al') \<and> alloc_later al al') \<and>
    fst (section_packet s) \<noteq> CFI_LOADING_MODULE_END \<and> loadable ss (add_section s md)"
  using assms load_section [of s md al opts] by (cases s) simp_all

lemma load_module_stream:
  assumes wf: "wf_modules mon" and nz: "nb_modules mon + 1 \<noteq> 0"
    and al: "Alloc_Fail \<notin> range (w_alloc w)" and wr: "w_write w 0"
    and ok: "loadable (sections t) empty_module" and dump: "OPTION_sm_dump opts \<longrightarrow> dump_module (loaded_module t) \<noteq> None"
    and pipe: "loading_to_monitor w =
      packet_stream (begin_packet t # section_packets t @ [(CFI_LOADING_MODULE_END, [])]) @ rest"
  shows "\<exists>w'. monitor_load_module opts gp mon w =
      Some (0, mon\<lparr>nb_modules := nb_modules mon + 1, modules := Some (module_list mon @ [loaded_module t])\<rparr>, w') \<and>
      loading_to_monitor w' = rest \<and> alloc_later (w_alloc w) (w_alloc w') \<and> w_write w' = (\<lambda>n. w_write w (Suc n))"
proof -
  let ?mon = "mon\<lparr>nb_modules := nb_modules mon + 1, modules := Some (module_list mon @ [empty_module])\<rparr>"
  obtain w2 where b: "monitor_load_module opts gp mon w = do {
      (err, pkt, mon, w) \<leftarrow> load_packets opts (length (module_list mon)) (held (begin_packet t)) ?mon w2;
      _ \<leftarrow> FREE_LOADING_PACKET pkt;
      Some (if err \<noteq> 0 then -1 else 0, mon, w) }"
    "loading_to_monitor w2 = packet_stream (section_packets t @ [(CFI_LOADING_MODULE_END, [])]) @ rest"
    "alloc_later (w_alloc w) (w_alloc w2)" "w_write w2 = (\<lambda>n. w_write w (Suc n))"
    using load_module_begin [OF wf nz al wr pipe, of opts gp] by blast
  have al2: "Alloc_Fail \<notin> range (w_alloc w2)" using alloc_later_member [OF b(3)] al by blast
  have "\<exists>pkt' w'. load_packets opts (length (module_list mon)) (held (begin_packet t)) ?mon w2 =
      Some (0, pkt', ?mon\<lparr>modules := Some ((module_list mon @ [empty_module])[length (module_list mon) := fold add_section (sections t) empty_module])\<rparr>, w') \<and>
      loading_to_monitor w' = rest \<and> lp_value pkt' = Buf_NULL \<and> alloc_later (w_alloc w2) (w_alloc w') \<and> w_write w' = w_write w2"
    by (rule load_packets_stream [where I = loadable and enc = section_packet, OF load_section_step])
      (use ok dump al2 b(2) in \<open>simp_all add: loaded_module_def section_packets_sections begin_packet_def\<close>)
  then obtain pkt' w' where l: "load_packets opts (length (module_list mon)) (held (begin_packet t)) ?mon w2 =
      Some (0, pkt', mon\<lparr>nb_modules := nb_modules mon + 1, modules := Some (module_list mon @ [loaded_module t])\<rparr>, w')"
      "loading_to_monitor w' = rest" "lp_value pkt' = Buf_NULL" "alloc_later (w_alloc w2) (w_alloc w')" "w_write w' = w_write w2"
    by (auto simp: loaded_module_def)
  have "FREE_LOADING_PACKET pkt' = Some pkt'" using l(3) by (simp add: FREE_LOADING_PACKET_def)
  then show ?thesis using l b(1,4) alloc_later_trans [OF b(3) l(4)] by auto
qed

lemma load_module_large:
  assumes wf: "wf_modules mon" and nz: "nb_modules mon + 1 \<noteq> 0"
    and al: "Alloc_Fail \<notin> range (w_alloc w)" and wr: "w_write w 0"
    and s: "sections t = ss @ s # ss'" and ok: "loadable ss empty_module"
    and large: "PIPE_BUF < length (snd (section_packet s))" "length (snd (section_packet s)) < 2 ^ 32"
    and pipe: "loading_to_monitor w = packet_stream (begin_packet t # section_packets t @ ps) @ rest"
  shows "monitor_load_module opts gp mon w = None"
proof -
  let ?mon = "mon\<lparr>nb_modules := nb_modules mon + 1, modules := Some (module_list mon @ [empty_module])\<rparr>"
  let ?rest = "packet_stream (map section_packet ss' @ ps) @ rest"
  obtain w2 where b: "monitor_load_module opts gp mon w = do {
      (err, pkt, mon, w) \<leftarrow> load_packets opts (length (module_list mon)) (held (begin_packet t)) ?mon w2;
      _ \<leftarrow> FREE_LOADING_PACKET pkt;
      Some (if err \<noteq> 0 then -1 else 0, mon, w) }"
    "loading_to_monitor w2 = packet_stream (section_packets t @ ps) @ rest"
    "alloc_later (w_alloc w) (w_alloc w2)"
    using load_module_begin [OF wf nz al wr pipe, of opts gp] by blast
  have al2: "Alloc_Fail \<notin> range (w_alloc w2)" using alloc_later_member [OF b(3)] al by blast
  have p: "loading_to_monitor w2 = packet_stream (map section_packet ss) @
      loading_write (fst (section_packet s)) (snd (section_packet s)) [] @ ?rest"
    using b(2) by (simp add: section_packets_sections s packet_stream_def case_prod_unfold)
  have "\<exists>pkt' mon' w'. load_packets opts (length (module_list mon)) (held (begin_packet t)) ?mon w2 = Some (4, pkt', mon', w') \<and>
      lp_value pkt' = Buf_Freed"
    by (rule load_packets_large [where I = loadable and enc = section_packet and ms = "module_list mon @ [empty_module]", OF load_section_step])
      (use ok large al2 p in \<open>simp_all add: begin_packet_def\<close>)
  then show ?thesis using b(1) by (auto simp: FREE_LOADING_PACKET_def)
qed

section \<open>The constructor and the monitor\<close>

text \<open>
  A module that is about to be loaded: the constructor finds its descriptors, its pipes are fresh and
  its writes succeed; the monitor, whose tables are well formed, is granted its memory and answers with
  the number of the module.
\<close>

definition about_to_load :: "system \<Rightarrow> loader \<Rightarrow> monitor_data \<Rightarrow> world \<Rightarrow> bool" where
  "about_to_load sys l mon w \<longleftrightarrow>
     init_fds sys (ld_client l) \<noteq> None \<and> ld_write l = (\<lambda>_. (True, True, True)) \<and> ld_to_monitor l = [] \<and>
     take 1 (ld_from_monitor l) = pipe_packets (le16 (ucast (nb_modules mon))) \<and>
     wf_modules mon \<and> nb_modules mon + 1 \<noteq> 0 \<and> Alloc_Fail \<notin> range (w_alloc w) \<and> w_write w 0"

lemma constructor_sends:
  assumes "init_fds sys (ld_client l) = Some c" "ld_write l = (\<lambda>_. (True, True, True))" "ld_to_monitor l = []"
    "ld_from_monitor l = pipe_packets (le16 mid) @ p"
  shows "init_cfi sys g t l = Inr (l\<lparr>ld_client := CFI_SET_MODULE_ID mid c, ld_from_monitor := p,
    ld_to_monitor := packet_stream (begin_packet t # section_packets t @ end_packets t)\<rparr>)"
  using init_cfi_sends [OF assms(2,1,4)] assms(3) by simp

lemma end_packets_stream:
  "packet_stream (begin_packet t # section_packets t @ end_packets t) =
   packet_stream (begin_packet t # section_packets t @ [(CFI_LOADING_MODULE_END, [])]) @ packet_stream (tl (end_packets t))"
  by (simp add: end_packets_def packet_stream_def)

lemma constructor_loads:
  assumes "wf_modules mon" "nb_modules mon + 1 \<noteq> 0" "Alloc_Fail \<notin> range (w_alloc w)" "w_write w 0"
    "loadable (sections t) empty_module" "\<not> OPTION_sm_dump opts"
    "ld_write l = (\<lambda>_. (True, True, True))" "ld_to_monitor l = []" "init_fds sys (ld_client l) = Some c"
    "ld_from_monitor l = pipe_packets (le16 (ucast (nb_modules mon))) @ p"
  shows "\<exists>l' w'. init_cfi sys g t l = Inr l' \<and>
    monitor_load_module opts gp mon (w\<lparr>loading_to_monitor := ld_to_monitor l'\<rparr>) =
      Some (0, mon\<lparr>nb_modules := nb_modules mon + 1, modules := Some (module_list mon @ [loaded_module t])\<rparr>, w') \<and>
    loading_to_monitor w' = packet_stream (tl (end_packets t)) \<and>
    sig_module (cs (ld_client l')) = ucast (nb_modules mon)"
proof -
  let ?rest = "packet_stream (tl (end_packets t))"
  let ?s = "packet_stream (begin_packet t # section_packets t @ [(CFI_LOADING_MODULE_END, [])]) @ ?rest"
  have init: "init_cfi sys g t l =
      Inr (l\<lparr>ld_client := CFI_SET_MODULE_ID (ucast (nb_modules mon)) c, ld_from_monitor := p, ld_to_monitor := ?s\<rparr>)"
    using constructor_sends [OF assms(9,7,8,10)] by (simp add: end_packets_stream)
  obtain w' where "monitor_load_module opts gp mon (w\<lparr>loading_to_monitor := ?s\<rparr>) =
      Some (0, mon\<lparr>nb_modules := nb_modules mon + 1, modules := Some (module_list mon @ [loaded_module t])\<rparr>, w')"
      "loading_to_monitor w' = ?rest"
    using load_module_stream [of mon "w\<lparr>loading_to_monitor := ?s\<rparr>" t opts ?rest gp] assms(1-6) by auto
  with init show ?thesis by (simp add: CFI_SET_MODULE_ID_def)
qed

lemma about_to_load_number:
  assumes "about_to_load sys l mon w"
  shows "\<exists>p. ld_from_monitor l = pipe_packets (le16 (ucast (nb_modules mon))) @ p"
  using assms unfolding about_to_load_def by (metis append_take_drop_id)

lemma about_to_load_loads:
  assumes "about_to_load sys l mon w" "loadable (sections t) empty_module" "\<not> OPTION_sm_dump opts"
  obtains l' w' where "init_cfi sys g t l = Inr l'"
    "monitor_load_module opts gp mon (w\<lparr>loading_to_monitor := ld_to_monitor l'\<rparr>) =
      Some (0, mon\<lparr>nb_modules := nb_modules mon + 1, modules := Some (module_list mon @ [loaded_module t])\<rparr>, w')"
proof -
  obtain c where "init_fds sys (ld_client l) = Some c" using assms(1) by (auto simp: about_to_load_def)
  moreover obtain p where "ld_from_monitor l = pipe_packets (le16 (ucast (nb_modules mon))) @ p"
    using about_to_load_number [OF assms(1)] by blast
  ultimately show ?thesis
    using constructor_loads [of mon w t opts l sys c p g gp] assms that by (auto simp: about_to_load_def)
qed

lemma about_to_load_large:
  assumes "about_to_load sys l mon w" "sections t = ss @ s # ss'" "loadable ss empty_module"
    "PIPE_BUF < length (snd (section_packet s))" "length (snd (section_packet s)) < 2 ^ 32"
  shows "\<exists>l'. init_cfi sys g t l = Inr l' \<and>
    monitor_load_module opts gp mon (w\<lparr>loading_to_monitor := ld_to_monitor l'\<rparr>) = None"
proof -
  let ?s = "packet_stream (begin_packet t # section_packets t @ end_packets t)"
  obtain c where c: "init_fds sys (ld_client l) = Some c" using assms(1) by (auto simp: about_to_load_def)
  obtain p where p: "ld_from_monitor l = pipe_packets (le16 (ucast (nb_modules mon))) @ p"
    using about_to_load_number [OF assms(1)] by blast
  have "init_cfi sys g t l = Inr (l\<lparr>ld_client := CFI_SET_MODULE_ID (ucast (nb_modules mon)) c, ld_from_monitor := p, ld_to_monitor := ?s\<rparr>)"
    using constructor_sends [OF c _ _ p] assms(1) by (simp add: about_to_load_def)
  moreover have "monitor_load_module opts gp mon (w\<lparr>loading_to_monitor := ?s\<rparr>) = None"
    using assms by (intro load_module_large [of _ _ t ss s ss' "end_packets t" "[]"]) (simp_all add: about_to_load_def)
  ultimately show ?thesis by simp
qed

lemma loaded_module_at:
  assumes "about_to_load sys l mon w" "unat (nb_modules mon) < 2 ^ 16"
  shows "module_at (mon\<lparr>nb_modules := nb_modules mon + 1, modules := Some (module_list mon @ [md])\<rparr>)
    (Some (unat (ucast (nb_modules mon) :: module_id))) = Some md"
proof -
  have "unat (ucast (nb_modules mon) :: module_id) = unat (nb_modules mon)"
    using assms(2) by (simp add: unsigned_ucast_eq take_bit_nat_eq_self)
  moreover have "length (module_list mon) = unat (nb_modules mon)"
    using assms(1) by (auto simp: about_to_load_def wf_module_list)
  ultimately show ?thesis by (simp add: module_at_def nth_append)
qed

lemma loadable_size: "loadable (sections t) empty_module \<Longrightarrow> length (t_fcts t) < 2 ^ 32"
  by (simp add: sections_def numbered_def)

section \<open>The graphs the monitor enforces are those that were compiled\<close>

lemma rows_of_edge:
  assumes "i < n" "j < n"
  shows "graph_at (Some (rows_of n xs)) i j = map_option (\<lambda>succs. if j \<in> set succs then 1 else 0) (map_of xs i)"
  using assms by (cases "map_of xs i") (simp_all add: graph_at_def rows_of_def row_of_def word_less_nat_alt)

lemma add_section_frame:
  "(case s of Fctids _ \<Rightarrow> False | _ \<Rightarrow> True) \<Longrightarrow> nb_functions (add_section s md) = nb_functions md"
  "(case s of Blocks _ _ _ \<Rightarrow> True | Ipds _ \<Rightarrow> True | _ \<Rightarrow> False) \<Longrightarrow> call_graph (add_section s md) = call_graph md"
proof -
  have "nb_functions (fold put_ipd xs md) = nb_functions md \<and> call_graph (fold put_ipd xs md) = call_graph md" for xs
    by (induction xs arbitrary: md) (auto simp: put_ipd_def split: prod.splits)
  then show "(case s of Fctids _ \<Rightarrow> False | _ \<Rightarrow> True) \<Longrightarrow> nb_functions (add_section s md) = nb_functions md"
    "(case s of Blocks _ _ _ \<Rightarrow> True | Ipds _ \<Rightarrow> True | _ \<Rightarrow> False) \<Longrightarrow> call_graph (add_section s md) = call_graph md"
    by (cases s; simp)+
qed

lemma block_sections_frame:
  assumes "\<forall>s \<in> set ss. case s of Blocks _ _ _ \<Rightarrow> True | Ipds _ \<Rightarrow> True | _ \<Rightarrow> False"
  shows "nb_functions (fold add_section ss md) = nb_functions md \<and> call_graph (fold add_section ss md) = call_graph md"
  using assms
proof (induction ss arbitrary: md)
  case (Cons s ss)
  moreover have "nb_functions (add_section s md) = nb_functions md" "call_graph (add_section s md) = call_graph md"
    using Cons.prems add_section_frame [of s md] by (cases s; simp del: add_section.simps)+
  ultimately show ?case by simp
qed simp

lemma loaded_call_graph:
  "nb_functions (loaded_module t) = of_nat (length (t_fcts t)) \<and>
   call_graph (loaded_module t) = Some (rows_of (of_nat (length (t_fcts t))) (t_callgraph t))"
proof -
  let ?tail = "case t_bb t of None \<Rightarrow> [] | Some (bb, ipd) \<Rightarrow> map (\<lambda>(f, n, d). Blocks f n d) bb @ [Ipds ipd]"
  have "\<forall>s \<in> set ?tail. case s of Blocks _ _ _ \<Rightarrow> True | Ipds _ \<Rightarrow> True | _ \<Rightarrow> False"
    by (auto split: option.splits)
  from block_sections_frame [OF this] show ?thesis
    by (simp add: loaded_module_def sections_def module_of_def)
qed

text \<open>Each function gets the graph of its own section, whatever the others are.\<close>

lemma blocks_pending:
  assumes "loadable (map (\<lambda>(f, n, d). Blocks f n d) bb @ ss) md" "md_functions md = Some fs" "(f, n, d) \<in> set bb"
  shows "unat f < length fs \<and> nb_blocks (fs ! unat f) = 0"
  using assms
proof (induction bb arbitrary: md fs)
  case (Cons x bb)
  obtain f' n' d' where x: "x = (f', n', d')" by (metis surj_pair)
  show ?case
  proof (cases "(f, n, d) = x")
    case True
    then show ?thesis using Cons.prems(1,2) by (auto simp: x)
  next
    case False
    let ?fs = "fs[unat f' := with_blocks n' d' (fs ! unat f')]"
    have "unat f < length ?fs \<and> nb_blocks (?fs ! unat f) = 0"
    proof (rule Cons.IH)
      show "loadable (map (\<lambda>(f, n, d). Blocks f n d) bb @ ss) (add_section (Blocks f' n' d') md)"
        using Cons.prems(1) by (simp add: x)
      show "md_functions (add_section (Blocks f' n' d') md) = Some ?fs" using Cons.prems(2) by simp
      show "(f, n, d) \<in> set bb" using Cons.prems(3) False by simp
    qed
    moreover have "n' \<noteq> 0" "unat f' < length fs" using Cons.prems(1,2) by (auto simp: x)
    ultimately show ?thesis by (cases "unat f = unat f'") (auto simp: with_blocks_def)
  qed
qed simp

lemma blocks_loaded:
  assumes "loadable (map (\<lambda>(f, n, d). Blocks f n d) bb @ ss) md" "md_functions md = Some fs"
  shows "\<exists>fs'. md_functions (fold add_section (map (\<lambda>(f, n, d). Blocks f n d) bb) md) = Some fs' \<and> length fs' = length fs \<and>
    (\<forall>(f, n, d) \<in> set bb. fs' ! unat f = with_blocks n d (fs ! unat f)) \<and>
    (\<forall>i. i \<notin> (unat \<circ> fst) ` set bb \<longrightarrow> fs' ! i = fs ! i)"
  using assms
proof (induction bb arbitrary: md fs)
  case (Cons x bb)
  obtain f' n' d' where x: "x = (f', n', d')" by (metis surj_pair)
  let ?md = "add_section (Blocks f' n' d') md" and ?fs = "fs[unat f' := with_blocks n' d' (fs ! unat f')]"
  have r: "n' \<noteq> 0" "unat f' < length fs" using Cons.prems by (auto simp: x)
  have md: "md_functions ?md = Some ?fs" "loadable (map (\<lambda>(f, n, d). Blocks f n d) bb @ ss) ?md"
    using Cons.prems by (simp_all add: x)
  have other: "unat f \<noteq> unat f'" if "(f, n, d) \<in> set bb" for f n d
    using blocks_pending [OF md(2,1) that] r by (auto simp: with_blocks_def)
  from Cons.IH [OF md(2,1)] obtain fs' where fs'':
      "md_functions (fold add_section (map (\<lambda>(f, n, d). Blocks f n d) bb) ?md) = Some fs' \<and> length fs' = length ?fs \<and>
       (\<forall>(f, n, d) \<in> set bb. fs' ! unat f = with_blocks n d (?fs ! unat f)) \<and>
       (\<forall>i. i \<notin> (unat \<circ> fst) ` set bb \<longrightarrow> fs' ! i = ?fs ! i)"
    by blast
  then have fs': "md_functions (fold add_section (map (\<lambda>(f, n, d). Blocks f n d) bb) ?md) = Some fs'"
      "length fs' = length fs" "\<forall>(f, n, d) \<in> set bb. fs' ! unat f = with_blocks n d (?fs ! unat f)"
      "\<forall>i. i \<notin> (unat \<circ> fst) ` set bb \<longrightarrow> fs' ! i = ?fs ! i"
    by (simp_all del: add_section.simps)
  have new: "unat f' \<notin> (unat \<circ> fst) ` set bb" using other by force
  have "fs' ! unat f' = with_blocks n' d' (fs ! unat f')" using mp [OF spec [OF fs'(4)] new] r by simp
  moreover have "\<forall>(f, n, d) \<in> set bb. fs' ! unat f = with_blocks n d (fs ! unat f)"
  proof clarify
    fix f n d
    assume "(f, n, d) \<in> set bb"
    with fs'(3) other [OF this] show "fs' ! unat f = with_blocks n d (fs ! unat f)" by auto
  qed
  moreover have "fs' ! i = fs ! i" if "i \<notin> (unat \<circ> fst) ` set (x # bb)" for i
    using mp [OF spec [OF fs'(4), of i]] that by (simp add: x)
  ultimately show ?case using fs'(1,2) by (intro exI [of _ fs']) (auto simp: x)
qed simp

text \<open>Post-dominators are kept apart from what the monitor decides on.\<close>

definition decisive :: "function_data \<Rightarrow> function_data" where
  "decisive fd = fd\<lparr>immediate_post_dominator := None\<rparr>"

lemma ipds_decisive:
  "map_option (map decisive) (md_functions (fold put_ipd xs md)) = map_option (map decisive) (md_functions md)"
proof (induction xs arbitrary: md)
  case (Cons x xs)
  obtain f b ipd l where x: "x = (f, b, ipd, l)" by (metis surj_pair)
  have "map decisive (fs[i := (fs ! i)\<lparr>immediate_post_dominator := v\<rparr>]) = map decisive fs" for fs i v
  proof (cases "i < length fs")
    case True
    then have "(map decisive fs)[i := decisive (fs ! i)] = map decisive fs" by (metis list_update_id nth_map)
    then show ?thesis by (simp add: map_update decisive_def)
  qed (simp add: not_less list_update_beyond)
  then have "map_option (map decisive) (md_functions (put_ipd x md)) = map_option (map decisive) (md_functions md)"
    by (simp add: put_ipd_def x option.map_comp comp_def)
  then show ?case using Cons.IH by simp
qed simp

lemma loaded_functions:
  assumes "loadable (sections t) empty_module"
  shows "\<exists>fs. md_functions (loaded_module t) = Some fs \<and> length fs = length (t_fcts t) \<and>
    (case t_bb t of None \<Rightarrow> fs = map function_of (by_id (t_fcts t))
     | Some (bb, ipd) \<Rightarrow>
        (\<forall>(f, n, d) \<in> set bb. unat f < length fs \<and>
           decisive (fs ! unat f) = decisive (with_blocks n d (function_of (by_id (t_fcts t) ! unat f)))) \<and>
        (\<forall>i < length fs. i \<notin> (unat \<circ> fst) ` set bb \<longrightarrow>
           decisive (fs ! i) = decisive (function_of (by_id (t_fcts t) ! i))))"
proof (cases "t_bb t")
  case None
  then show ?thesis by (simp add: loaded_module_def sections_def module_of_def)
next
  case (Some p)
  obtain bb ipd where p: "p = (bb, ipd)" by (cases p)
  let ?md = "add_section (Calls (t_callgraph t)) (add_section (Fctids (t_fcts t)) empty_module)"
  let ?fs = "map function_of (by_id (t_fcts t))"
  let ?B = "map (\<lambda>(f, n, d). Blocks f n d) bb"
  have sec: "sections t = [Fctids (t_fcts t), Calls (t_callgraph t)] @ ?B @ [Ipds ipd]"
    by (simp add: sections_def Some p)
  have md: "md_functions ?md = Some ?fs" by (simp add: module_of_def)
  have l: "loadable (?B @ [Ipds ipd]) ?md" using assms unfolding sec by simp
  obtain fs1 where fs1: "md_functions (fold add_section ?B ?md) = Some fs1" "length fs1 = length ?fs"
      "\<forall>(f, n, d) \<in> set bb. fs1 ! unat f = with_blocks n d (?fs ! unat f)"
      "\<forall>i. i \<notin> (unat \<circ> fst) ` set bb \<longrightarrow> fs1 ! i = ?fs ! i"
    using blocks_loaded [OF l md] by blast
  have eq: "map_option (map decisive) (md_functions (loaded_module t)) = Some (map decisive fs1)"
    using ipds_decisive [of ipd "fold add_section ?B ?md"] fs1(1) by (simp add: loaded_module_def sec)
  then obtain fs where fs: "md_functions (loaded_module t) = Some fs" "map decisive fs = map decisive fs1" by auto
  have len: "length fs = length fs1" using fs(2) by (metis length_map)
  have nth: "decisive (fs ! i) = decisive (fs1 ! i)" if "i < length fs" for i
    using fs(2) that len by (metis nth_map)
  have "unat f < length fs \<and> decisive (fs ! unat f) = decisive (with_blocks n d (function_of (by_id (t_fcts t) ! unat f)))"
    if "(f, n, d) \<in> set bb" for f n d
  proof -
    have f: "unat f < length ?fs" using blocks_pending [OF l md that] by blast
    then have "fs1 ! unat f = with_blocks n d (function_of (by_id (t_fcts t) ! unat f))" using fs1(3) that by auto
    then show ?thesis using f nth [of "unat f"] len fs1(2) by simp
  qed
  moreover have "decisive (fs ! i) = decisive (function_of (by_id (t_fcts t) ! i))"
    if "i < length fs" "i \<notin> (unat \<circ> fst) ` set bb" for i
    using nth [OF that(1)] fs1(4) that len fs1(2) by simp
  ultimately show ?thesis using fs(1) len fs1(2) by (auto simp: Some p)
qed

lemma decisive_graph:
  "decisive fd = decisive fd' \<Longrightarrow> nb_blocks fd = nb_blocks fd' \<and> control_flow_graph fd = control_flow_graph fd' \<and>
    fd_flags fd = fd_flags fd' \<and> fd_name fd = fd_name fd'"
  by (cases fd; cases fd') (simp add: decisive_def)

text \<open>The policy of a loaded module, edge by edge.\<close>

lemma loaded_call_edge:
  assumes "module_at data (Some (unat m)) = Some (loaded_module t)" "length (t_fcts t) < 2 ^ 32"
    "f < of_nat (length (t_fcts t))"
  shows "call_edge data m f g \<longleftrightarrow>
    g < of_nat (length (t_fcts t)) \<and> (\<exists>callees. map_of (t_callgraph t) f = Some callees \<and> g \<in> set callees)"
  using assms loaded_call_graph [of t]
  by (cases "map_of (t_callgraph t) f") (auto simp: call_edge_def rows_of_edge split: option.splits if_splits)

lemma loaded_cfg_edge:
  assumes ok: "loadable (sections t) empty_module" and bb: "t_bb t = Some (bb, ipd)" "(f, n, d) \<in> set bb"
    and md: "module_at data (Some (unat m)) = Some (loaded_module t)" and b: "b < n"
  shows "cfg_edge data m f b b' \<longleftrightarrow> b' < n \<and> (\<exists>succs. map_of d b = Some succs \<and> b' \<in> set succs)"
proof -
  obtain fs where fs: "md_functions (loaded_module t) = Some fs" "unat f < length fs"
      "decisive (fs ! unat f) = decisive (with_blocks n d (function_of (by_id (t_fcts t) ! unat f)))"
    using loaded_functions [OF ok] bb by (fastforce split: prod.splits)
  have g: "nb_blocks (fs ! unat f) = n" "control_flow_graph (fs ! unat f) = Some (rows_of n d)"
    using decisive_graph [OF fs(3)] by (simp_all add: with_blocks_def)
  have "function_at data (Some (unat m, unat f)) = Some (fs ! unat f)"
    using md fs by (simp add: function_at_def module_at_def)
  then show ?thesis
    using g b by (cases "map_of d b") (auto simp: cfg_edge_def rows_of_edge split: option.splits if_splits)
qed

end
