(* ===== verification/Single_Module.thy ===== *)
theory Single_Module
  imports Module_Init
begin

text \<open>
  A program that is one module: its constructor sends the tables and announces that nothing more
  is to come. When the module has no external functions and no initialisers or finalisers, the
  monitor loads it, finds nothing to relocate, and serves one run.
\<close>

section \<open>The flags of a loaded module\<close>

lemma loaded_flags:
  assumes ok: "loadable (sections t) empty_module"
  shows "\<exists>fs. md_functions (loaded_module t) = Some fs \<and>
    map fd_flags fs = map (\<lambda>(i, fname, flags). flag_to_int flags) (by_id (t_fcts t))"
proof -
  obtain fs where fs: "md_functions (loaded_module t) = Some fs" "length fs = length (t_fcts t)"
      "case t_bb t of None \<Rightarrow> fs = map function_of (by_id (t_fcts t))
       | Some (bb, ipd) \<Rightarrow>
          (\<forall>(f, n, d) \<in> set bb. unat f < length fs \<and>
             decisive (fs ! unat f) = decisive (with_blocks n d (function_of (by_id (t_fcts t) ! unat f)))) \<and>
          (\<forall>i < length fs. i \<notin> (unat \<circ> fst) ` set bb \<longrightarrow> decisive (fs ! i) = decisive (function_of (by_id (t_fcts t) ! i)))"
    using loaded_functions [OF ok] by blast
  have "fd_flags (fs ! k) = fd_flags (function_of (by_id (t_fcts t) ! k))" if k: "k < length (t_fcts t)" for k
  proof (cases "t_bb t")
    case None
    then show ?thesis using fs(3) k by simp
  next
    case (Some p)
    obtain bb ipd where p: "p = (bb, ipd)" by (cases p)
    show ?thesis
    proof (cases "k \<in> (unat \<circ> fst) ` set bb")
      case True
      then obtain f n d where "(f, n, d) \<in> set bb" "k = unat f" by fastforce
      then have "decisive (fs ! k) = decisive (with_blocks n d (function_of (by_id (t_fcts t) ! k)))"
        using fs(3) by (auto simp: Some p)
      from decisive_graph [OF this] show ?thesis by (simp add: with_blocks_def)
    next
      case False
      then have "decisive (fs ! k) = decisive (function_of (by_id (t_fcts t) ! k))" using fs(2,3) k by (simp add: Some p)
      from decisive_graph [OF this] show ?thesis by simp
    qed
  qed
  then have "map fd_flags fs = map (\<lambda>(i, fname, flags). flag_to_int flags) (by_id (t_fcts t))"
    using fs(2) by (intro nth_equalityI) (simp_all add: function_of_def split_beta)
  then show ?thesis using fs(1) by blast
qed

text \<open>The function with number \<open>i\<close> is at index \<open>i\<close>.\<close>

lemma loaded_function:
  assumes "loadable (sections t) empty_module" "(fname, i, flags) \<in> set (t_fcts t)"
  shows "\<exists>fs. md_functions (loaded_module t) = Some fs \<and> length fs = length (t_fcts t) \<and> unat i < length fs \<and>
    fd_flags (fs ! unat i) = flag_to_int flags"
proof -
  obtain fs where fs: "md_functions (loaded_module t) = Some fs"
      "map fd_flags fs = map (\<lambda>(i, fname, flags). flag_to_int flags) (by_id (t_fcts t))"
    using loaded_flags [OF assms(1)] by blast
  have len: "length fs = length (t_fcts t)" using arg_cong [OF fs(2), of length] by simp
  have num: "map (unat \<circ> fst) (by_id (t_fcts t)) = [0..<length (t_fcts t)]"
    using assms(1) by (simp add: sections_def numbered_def)
  have "(i, fname, flags) \<in> set (by_id (t_fcts t))" using assms(2) by (force simp: by_id_def)
  then obtain k where k: "k < length (t_fcts t)" "by_id (t_fcts t) ! k = (i, fname, flags)"
    by (auto simp: in_set_conv_nth)
  then have "unat i = k" using arg_cong [OF num, of "\<lambda>xs. xs ! k"] by simp
  moreover have "fd_flags (fs ! k) = flag_to_int flags" using arg_cong [OF fs(2), of "\<lambda>xs. xs ! k"] k len by simp
  ultimately show ?thesis using fs(1) k(1) len by simp
qed

lemma function_of_flags [simp]: "fd_flags (function_of x) = flag_to_int (snd (snd x))"
  by (simp add: function_of_def split_beta)

lemma sections_entrypoints:
  assumes "\<forall>s \<in> set ss. case s of Fctids _ \<Rightarrow> False | _ \<Rightarrow> True"
  shows "nb_entrypoint_inits (fold add_section ss md) = nb_entrypoint_inits md \<and>
    nb_entrypoint_finis (fold add_section ss md) = nb_entrypoint_finis md"
  using assms
proof (induction ss arbitrary: md)
  case (Cons s ss)
  have "nb_entrypoint_inits (fold put_ipd xs md) = nb_entrypoint_inits md \<and> nb_entrypoint_finis (fold put_ipd xs md) = nb_entrypoint_finis md" for xs
    by (induction xs arbitrary: md) (auto simp: put_ipd_def split: prod.splits)
  then have "nb_entrypoint_inits (add_section s md) = nb_entrypoint_inits md \<and> nb_entrypoint_finis (add_section s md) = nb_entrypoint_finis md"
    using Cons.prems by (cases s) simp_all
  then show ?case using Cons.IH [of "add_section s md"] Cons.prems by simp
qed simp

text \<open>The monitor expects a run of each initialiser and of each finaliser of the module.\<close>

lemma loaded_entrypoints:
  "nb_entrypoint_inits (loaded_module t) = of_nat (length (filter (\<lambda>(fname, i, flags). flags = ''Init'') (t_fcts t)))"
  "nb_entrypoint_finis (loaded_module t) = of_nat (length (filter (\<lambda>(fname, i, flags). flags = ''Fini'') (t_fcts t)))"
proof -
  let ?ss = "tl (sections t)"
  have s: "sections t = Fctids (t_fcts t) # ?ss" "\<forall>s \<in> set ?ss. case s of Fctids _ \<Rightarrow> False | _ \<Rightarrow> True"
    by (auto simp: sections_def split: option.splits)
  have md: "loaded_module t = fold add_section ?ss (module_of (by_id (t_fcts t)))"
    unfolding loaded_module_def by (subst s(1)) simp
  have flag: "flag_to_int flags = 2 \<longleftrightarrow> flags = ''Init''" "flag_to_int flags = 3 \<longleftrightarrow> flags = ''Fini''" for flags
    by (simp_all add: flag_to_int_def)
  have "length (filter P (by_id (t_fcts t))) = length (filter (P \<circ> (\<lambda>(fname, i, flags). (i, fname, flags))) (t_fcts t))" for P
  proof -
    have "mset (by_id (t_fcts t)) = mset (map (\<lambda>(fname, i, flags). (i, fname, flags)) (t_fcts t))" by (simp add: by_id_def)
    then have "length (filter P (by_id (t_fcts t))) = length (filter P (map (\<lambda>(fname, i, flags). (i, fname, flags)) (t_fcts t)))"
      by (metis mset_filter size_mset)
    then show ?thesis by (simp add: filter_map)
  qed
  moreover have "FUNCTION_IS_ENTRYPOINT_INIT \<circ> function_of \<circ> (\<lambda>(fname, i, flags). (i, fname, flags)) = (\<lambda>(fname, i, flags). flags = ''Init'')"
    "FUNCTION_IS_ENTRYPOINT_FINI \<circ> function_of \<circ> (\<lambda>(fname, i, flags). (i, fname, flags)) = (\<lambda>(fname, i, flags). flags = ''Fini'')"
    by (auto simp: FUNCTION_IS_ENTRYPOINT_INIT_def FUNCTION_IS_ENTRYPOINT_FINI_def flag)
  ultimately show "nb_entrypoint_inits (loaded_module t) = of_nat (length (filter (\<lambda>(fname, i, flags). flags = ''Init'') (t_fcts t)))"
    "nb_entrypoint_finis (loaded_module t) = of_nat (length (filter (\<lambda>(fname, i, flags). flags = ''Fini'') (t_fcts t)))"
    unfolding md using sections_entrypoints [OF s(2)] by (simp_all add: module_of_def)
qed

section \<open>Self-contained modules\<close>

definition self_contained :: "tables \<Rightarrow> bool" where
  "self_contained t \<longleftrightarrow>
     list_all (\<lambda>(fname, i, flags). flags \<notin> {''External'', ''Init'', ''Fini''}) (t_fcts t) \<and>
     main_name \<in> fst ` set (t_fcts t)"

definition one_module :: "int \<Rightarrow> int \<Rightarrow> int \<Rightarrow> int \<Rightarrow> int \<Rightarrow> tables \<Rightarrow> monitor_data" where
  "one_module pid c2m m2c l2m m2l t =
     \<lparr>client_pid = pid, fd_client_to_monitor = c2m, fd_monitor_to_client = m2c, fd_loading_to_monitor = l2m,
      fd_monitor_to_loading = m2l, nb_modules = 1, modules = Some [loaded_module t]\<rparr>"

lemma one_module_simps [simp]:
  "nb_modules (one_module pid c2m m2c l2m m2l t) = 1"
  "modules (one_module pid c2m m2c l2m m2l t) = Some [loaded_module t]"
  by (simp_all add: one_module_def)

lemma set_by_id: "set (by_id fcts) = (\<lambda>(fname, i, flags). (i, fname, flags)) ` set fcts"
  by (simp add: by_id_def)

lemma self_contained_flags:
  assumes "self_contained t" "(i, fname, flags) \<in> set (by_id (t_fcts t))"
  shows "flag_to_int flags \<noteq> 1" "flag_to_int flags \<noteq> 2" "flag_to_int flags \<noteq> 3"
proof -
  have "(fname, i, flags) \<in> set (t_fcts t)" using assms(2) by (auto simp only: set_by_id image_iff prod.case prod.inject)
  then have "flags \<notin> {''External'', ''Init'', ''Fini''}" using assms(1) unfolding self_contained_def list_all_iff by blast
  then show "flag_to_int flags \<noteq> 1" "flag_to_int flags \<noteq> 2" "flag_to_int flags \<noteq> 3"
    by (simp_all only: flag_to_int_def insert_iff empty_iff simp_thms if_False) (simp_all split: if_splits)
qed

lemma self_contained_entrypoints:
  assumes "self_contained t"
  shows "nb_entrypoint_inits (loaded_module t) = 0 \<and> nb_entrypoint_finis (loaded_module t) = 0"
proof -
  have "filter (\<lambda>(fname, i, flags). flags = ''Init'') (t_fcts t) = []" "filter (\<lambda>(fname, i, flags). flags = ''Fini'') (t_fcts t) = []"
    using assms by (auto simp: self_contained_def list_all_iff filter_empty_conv)
  then show ?thesis unfolding loaded_entrypoints by simp
qed

lemma relocate_internal:
  assumes "arr_get (modules data) (unat mid) = Some md" "md_functions md = Some fs" "j + n \<le> length fs"
    "\<forall>f \<in> set fs. \<not> FUNCTION_IS_EXTERNAL f"
  shows "relocate mid fatal j n data = Some (0, data)"
  using assms(3) by (induction n arbitrary: j) (use assms(1,2,4) in \<open>simp_all add: arr_get_def\<close>)

lemma relocate_self_contained:
  assumes "loadable (sections t) empty_module" "self_contained t" "modules data = Some [loaded_module t]"
  shows "compute_relocations_of_module data 0 fatal = Some (0, data)"
proof -
  obtain fs where fs: "md_functions (loaded_module t) = Some fs"
      "map fd_flags fs = map (\<lambda>(i, fname, flags). flag_to_int flags) (by_id (t_fcts t))"
    using loaded_flags [OF assms(1)] by blast
  have "fd_flags f \<noteq> 1" if "f \<in> set fs" for f
  proof -
    have "fd_flags f \<in> set (map fd_flags fs)" using that by simp
    then show ?thesis unfolding fs(2) using self_contained_flags(1) [OF assms(2)] by auto
  qed
  then have int: "\<forall>f \<in> set fs. \<not> FUNCTION_IS_EXTERNAL f" by (simp add: FUNCTION_IS_EXTERNAL_def)
  have "numbered (by_id (t_fcts t))" using assms(1) by (simp add: sections_def)
  then have "unat (nb_functions (loaded_module t)) = length fs"
    using loaded_call_graph [of t] arg_cong [OF fs(2), of length] by (simp add: numbered_def unat_of_nat take_bit_nat_eq_self)
  moreover have md: "arr_get (modules data) (unat (0 :: module_id)) = Some (loaded_module t)" by (simp add: assms(3) arr_get_def)
  ultimately show ?thesis
    using relocate_internal [OF md fs(1) _ int, of 0] by (simp add: compute_relocations_of_module_def)
qed

section \<open>Loading\<close>

text \<open>The packet that ends the loading of the program.\<close>

lemma load_terminated:
  assumes "loading_to_monitor w = packet_stream [(CFI_LOADING_TERMINATED, [])]" "Alloc_Fail \<notin> range (w_alloc w)"
  shows "load_and_init opts g gp mon w = Some (0, True, mon, w\<lparr>loading_to_monitor := []\<rparr>)"
proof -
  have "read_loading_packet w (gp\<lparr>lp_size := 0, lp_value := Buf_NULL\<rparr>) 0 =
      (w\<lparr>loading_to_monitor := []\<rparr>, held (CFI_LOADING_TERMINATED, []), 0)"
    using read_packet [of w CFI_LOADING_TERMINATED "[]" "[]"] assms by (simp add: packet_stream_def PIPE_BUF_def)
  then have "monitor_load_module opts gp mon w = Some (1, mon, w\<lparr>loading_to_monitor := []\<rparr>)"
    by (simp add: monitor_load_module_def begin_module_def FREE_LOADING_PACKET_def del: loading_event_code.simps)
  then show ?thesis by (simp add: load_and_init_def)
qed

lemma init_self_contained:
  assumes ok: "loadable (sections t) empty_module" "self_contained t" and w: "Alloc_Fail \<notin> range (w_alloc w)" "w_write w 0"
    and dump: "\<not> OPTION_sm_dump opts"
    and pipe: "loading_to_monitor w = packet_stream (begin_packet t # section_packets t @ end_packets t)"
  shows "\<exists>w1. load_and_init opts g gp \<lparr>client_pid = pid, fd_client_to_monitor = c2m, fd_monitor_to_client = m2c,
        fd_loading_to_monitor = l2m, fd_monitor_to_loading = m2l, nb_modules = 0, modules = None\<rparr> w =
      Some (0, False, one_module pid c2m m2c l2m m2l t, w1) \<and>
    loading_to_monitor w1 = packet_stream [(CFI_LOADING_TERMINATED, [])] \<and>
    same_client w w1 \<and> alloc_later (w_alloc w) (w_alloc w1)"
proof -
  let ?mon = "\<lparr>client_pid = pid, fd_client_to_monitor = c2m, fd_monitor_to_client = m2c, fd_loading_to_monitor = l2m,
      fd_monitor_to_loading = m2l, nb_modules = 0, modules = None\<rparr>" and ?d = "one_module pid c2m m2c l2m m2l t"
  have mon: "wf_modules ?mon" "module_list ?mon = []" by (simp_all add: wf_modules_def module_list_def)
  have "end_packets t = [(CFI_LOADING_MODULE_END, []), (CFI_LOADING_TERMINATED, [])]"
    using ok(2) by (auto simp: end_packets_def self_contained_def)
  then have split: "loading_to_monitor w = packet_stream (begin_packet t # section_packets t @ [(CFI_LOADING_MODULE_END, [])]) @
      packet_stream [(CFI_LOADING_TERMINATED, [])]"
    using pipe by (simp add: packet_stream_def)
  have d: "?mon\<lparr>nb_modules := nb_modules ?mon + 1, modules := Some (module_list ?mon @ [loaded_module t])\<rparr> = ?d"
    unfolding mon(2) by (simp add: one_module_def)
  obtain w1 where 1: "monitor_load_module opts gp ?mon w = Some (0, ?d, w1)"
      "loading_to_monitor w1 = packet_stream [(CFI_LOADING_TERMINATED, [])]" "alloc_later (w_alloc w) (w_alloc w1)"
    using load_module_stream [OF mon(1) _ w ok(1) _ split, of opts gp] dump unfolding d by auto
  have "compute_relocations_of_module ?d 0 False = Some (0, ?d)"
    using relocate_self_contained [OF ok] by simp
  then have "load_and_init opts g gp ?mon w = Some (0, False, ?d, w1)"
    using 1(1) self_contained_entrypoints [OF ok(2)] by (simp add: load_and_init_def arr_get_def)
  then show ?thesis using 1(2,3) monitor_load_module_client [OF 1(1)] by blast
qed

lemma load_self_contained:
  assumes ok: "loadable (sections t) empty_module" "self_contained t" and w: "Alloc_Fail \<notin> range (w_alloc w)" "w_write w 0"
    and dump: "\<not> OPTION_sm_dump opts"
    and pipe: "loading_to_monitor w = packet_stream (begin_packet t # section_packets t @ end_packets t)"
  shows "\<exists>w'. monitor_load opts g gp pid c2m m2c l2m m2l w = Some (0, one_module pid c2m m2c l2m m2l t, w') \<and>
    same_client w w' \<and> alloc_later (w_alloc w) (w_alloc w')"
proof -
  let ?d = "one_module pid c2m m2c l2m m2l t"
  obtain w1 where 1: "load_and_init opts g gp \<lparr>client_pid = pid, fd_client_to_monitor = c2m, fd_monitor_to_client = m2c,
        fd_loading_to_monitor = l2m, fd_monitor_to_loading = m2l, nb_modules = 0, modules = None\<rparr> w = Some (0, False, ?d, w1)"
      "loading_to_monitor w1 = packet_stream [(CFI_LOADING_TERMINATED, [])]" "same_client w w1" "alloc_later (w_alloc w) (w_alloc w1)"
    using init_self_contained [OF assms] by blast
  have "Alloc_Fail \<notin> range (w_alloc w1)" using alloc_later_member [OF 1(4)] w(1) by blast
  from load_terminated [OF 1(2) this] 1(1)
  have "load_modules opts g gp \<lparr>client_pid = pid, fd_client_to_monitor = c2m, fd_monitor_to_client = m2c,
      fd_loading_to_monitor = l2m, fd_monitor_to_loading = m2l, nb_modules = 0, modules = None\<rparr> w =
    Some (0, ?d, w1\<lparr>loading_to_monitor := []\<rparr>)"
    by (simp add: load_modules.simps)
  moreover have "relocate_all 0 1 ?d = Some (0, ?d)"
    using relocate_self_contained [OF ok, of ?d True] by simp
  ultimately have "monitor_load opts g gp pid c2m m2c l2m m2l w = Some (0, ?d, w1\<lparr>loading_to_monitor := []\<rparr>)"
    by (simp add: monitor_load_def)
  moreover have "same_client w (w1\<lparr>loading_to_monitor := []\<rparr>)" using 1(3) by (simp add: same_client_def)
  ultimately show ?thesis using 1(4) by auto
qed

section \<open>Serving the program\<close>

lemma one_module_entry:
  assumes "loadable (sections t) empty_module" "self_contained t" "entry_point (one_module pid c2m m2c l2m m2l t) m i"
  shows "m = 0 \<and> (\<exists>fname. (fname, i, ''Main'') \<in> set (t_fcts t))"
proof
  have "unat (ucast m :: u32) < 1" using assms(3) by (simp add: entry_point_def word_less_nat_alt)
  then show m: "m = 0" by (simp add: unat_eq_0)
  obtain fs where fs: "md_functions (loaded_module t) = Some fs"
      "map fd_flags fs = map (\<lambda>(i, fname, flags). flag_to_int flags) (by_id (t_fcts t))"
    using loaded_flags [OF assms(1)] by blast
  have num: "map (unat \<circ> fst) (by_id (t_fcts t)) = [0..<length (by_id (t_fcts t))]"
    using assms(1) by (simp add: sections_def numbered_def)
  have i: "unat i < length fs" "FUNCTION_IS_ENTRYPOINT (fs ! unat i)"
    using assms(3) fs(1) m by (auto simp: entry_point_def module_at_def arr_get_def split: if_splits)
  then have k: "unat i < length (by_id (t_fcts t))" using arg_cong [OF fs(2), of length] by simp
  obtain j fname flags where x: "by_id (t_fcts t) ! unat i = (j, fname, flags)" by (metis surj_pair)
  have "unat j = unat i" using arg_cong [OF num, of "\<lambda>xs. xs ! unat i"] k x by simp
  then have "j = i" by (simp add: word_unat_eq_iff)
  then have mem: "(i, fname, flags) \<in> set (by_id (t_fcts t))" using nth_mem [OF k] x by simp
  have "fd_flags (fs ! unat i) = flag_to_int flags"
    using arg_cong [OF fs(2), of "\<lambda>xs. xs ! unat i"] i(1) k x by simp
  then have "flag_to_int flags = 4"
    using i(2) self_contained_flags(2,3) [OF assms(2) mem]
    by (simp add: FUNCTION_IS_ENTRYPOINT_def FUNCTION_IS_ENTRYPOINT_MAIN_def FUNCTION_IS_ENTRYPOINT_INIT_def FUNCTION_IS_ENTRYPOINT_FINI_def)
  then have "flags = ''Main''" by (simp add: flag_to_int_def split: if_split_asm)
  then show "\<exists>fname. (fname, i, ''Main'') \<in> set (t_fcts t)" using mem by (auto simp: set_by_id)
qed

lemma one_module_main:
  assumes "loadable (sections t) empty_module" "(fname, i, ''Main'') \<in> set (t_fcts t)"
  shows "entry_point (one_module pid c2m m2c l2m m2l t) 0 i"
proof -
  obtain fs where fs: "md_functions (loaded_module t) = Some fs" "length fs = length (t_fcts t)" "unat i < length fs"
      "fd_flags (fs ! unat i) = flag_to_int ''Main''"
    using loaded_function [OF assms] by blast
  have "numbered (by_id (t_fcts t))" using assms(1) by (simp add: sections_def)
  then have "i < nb_functions (loaded_module t)"
    using loaded_call_graph [of t] fs(2,3) by (simp add: numbered_def word_less_nat_alt unat_of_nat take_bit_nat_eq_self)
  then show ?thesis
    using fs by (simp add: entry_point_def module_at_def arr_get_def FUNCTION_IS_ENTRYPOINT_def
        FUNCTION_IS_ENTRYPOINT_MAIN_def flag_to_int_def)
qed

end
