(* ===== verification/Cfi_Example.thy ===== *)
theory Cfi_Example
  imports Cfi_Safety
begin

text \<open>
  A small program for the witnesses: module 0 has \<open>main\<close>, with two blocks, and the external
  function \<open>g\<close>; module 1 defines \<open>g\<close>, with one block. \<open>main\<close> jumps to its second block, calls
  \<open>g\<close> and returns.
\<close>

definition ex_main :: function_data where
  "ex_main = \<lparr>fd_name = Some [109], fd_flags = 4, nb_blocks = 2,
     control_flow_graph = Some [Some [0, 1], Some [0, 0]], immediate_post_dominator = Some [1, 0]\<rparr>"

definition ex_extern :: function_data where
  "ex_extern = \<lparr>fd_name = Some [103], fd_flags = 1, nb_blocks = 0, control_flow_graph = None,
     immediate_post_dominator = None\<rparr>"

definition ex_g :: function_data where
  "ex_g = \<lparr>fd_name = Some [103], fd_flags = 0, nb_blocks = 1, control_flow_graph = Some [Some [0]],
     immediate_post_dominator = Some [0]\<rparr>"

definition ex_module0 :: module_data where
  "ex_module0 = \<lparr>nb_functions = 2, nb_entrypoint_inits = 0, nb_entrypoint_finis = 0,
     call_graph = Some [Some [0, 1], Some [0, 0]], relocations = Some [0, MODULE_FUNCTION 1 0],
     md_functions = Some [ex_main, ex_extern]\<rparr>"

definition ex_module1 :: module_data where
  "ex_module1 = \<lparr>nb_functions = 1, nb_entrypoint_inits = 0, nb_entrypoint_finis = 0,
     call_graph = Some [Some [0]], relocations = Some [0], md_functions = Some [ex_g]\<rparr>"

definition ex_data :: monitor_data where
  "ex_data = \<lparr>client_pid = 2, fd_client_to_monitor = 3, fd_monitor_to_client = 6,
     fd_loading_to_monitor = 7, fd_monitor_to_loading = 10, nb_modules = 2,
     modules = Some [ex_module0, ex_module1]\<rparr>"

definition ex_signal :: "client_event \<Rightarrow> module_id \<Rightarrow> function_id \<Rightarrow> block_id \<Rightarrow> client_signal" where
  "ex_signal e m f b = \<lparr>sig_event = client_event_code e, sig_module = m, sig_function = f, sig_block = b\<rparr>"

definition ex_trace :: "client_signal list" where
  "ex_trace =
     [ex_signal CFI_ENTER 0 0 0, ex_signal CFI_BEFORE_JUMP 0 0 0, ex_signal CFI_AFTER_JUMP 0 0 1,
      ex_signal CFI_CALL 0 1 0, ex_signal CFI_ENTER 1 0 0, ex_signal CFI_EXIT 1 0 0,
      ex_signal CFI_RETURNED 0 1 0, ex_signal CFI_EXIT 0 0 0]"

definition ex_options :: options where
  "ex_options = \<lparr>OPTION_sm_trace = False, OPTION_sm_dump = False,
     OPTION_nb_preload_monitor_ok_answers = 0, opt_TIMEOUT = False\<rparr>"

definition ex_world :: "client_signal list \<Rightarrow> world" where
  "ex_world ts = \<lparr>w_alloc = (\<lambda>_. Alloc_InPlace), w_write = (\<lambda>_. True), w_select = (\<lambda>_. True),
     client_to_monitor = map encode_signal ts, monitor_to_client = [], loading_to_monitor = [],
     monitor_to_loading = []\<rparr>"

lemmas ex_tables = ex_data_def ex_module0_def ex_module1_def ex_main_def ex_extern_def ex_g_def

lemma ex_wf [simp]: "wf_modules ex_data"
  by (simp add: ex_tables wf_modules_def wf_module_def wf_rows_def wf_function_def)

lemma ex_relocs [simp]: "relocs_ok ex_data"
  by (simp add: ex_tables relocs_ok_def FUNCTION_IS_EXTERNAL_def module_function_get_function
      module_function_get_module function_exists_def module_at_def)

lemma ex_graphs [simp]: "graphs_present ex_data"
  by (simp add: ex_tables graphs_present_def rows_present_def)

lemma ex_entry: "entry_point ex_data 0 0"
  by (simp add: ex_tables entry_point_def module_at_def FUNCTION_IS_ENTRYPOINT_def
      FUNCTION_IS_ENTRYPOINT_MAIN_def)

lemma ex_edges:
  "cfg_edge ex_data 0 0 0 1" "call_edge ex_data 0 0 1" "call_dest ex_data 0 1 = Some (1, 0)"
  by (simp_all add: ex_tables cfg_edge_def call_edge_def call_dest_def function_at_def module_at_def graph_at_def
      FUNCTION_IS_EXTERNAL_def module_function_get_function module_function_get_module)

lemma ex_event [simp]:
  "is_event e (ex_signal e' m f b) \<longleftrightarrow> e' = e" "at_function e m f (ex_signal e' m' f' b) \<longleftrightarrow> e' = e \<and> m' = m \<and> f' = f"
  "sig_function (ex_signal e m f b) = f" "sig_block (ex_signal e m f b) = b"
  by (auto simp: ex_signal_def is_event_def at_function_def)

lemma ex_activation_g: "activation ex_data 1 0 [ex_signal CFI_ENTER 1 0 0, ex_signal CFI_EXIT 1 0 0]"
  using activate [of 1 0 "ex_signal CFI_ENTER 1 0 0" ex_data "[]" 0 "ex_signal CFI_EXIT 1 0 0"] body_done by simp

lemma ex_activation: "activation ex_data 0 0 ex_trace"
proof -
  have "body ex_data 0 0 1 (ex_signal CFI_CALL 0 1 0 #
      [ex_signal CFI_ENTER 1 0 0, ex_signal CFI_EXIT 1 0 0] @ ex_signal CFI_RETURNED 0 1 0 # []) 1"
    using ex_edges ex_activation_g by (intro body_call [where m' = 1 and f' = 0] body_done) simp_all
  then have "body ex_data 0 0 0 (ex_signal CFI_BEFORE_JUMP 0 0 0 # ex_signal CFI_AFTER_JUMP 0 0 1 #
      ex_signal CFI_CALL 0 1 0 # [ex_signal CFI_ENTER 1 0 0, ex_signal CFI_EXIT 1 0 0] @ ex_signal CFI_RETURNED 0 1 0 # []) 1"
    using ex_edges by (intro body_jump) simp_all
  then show ?thesis
    using activate [of 0 0 "ex_signal CFI_ENTER 0 0 0" ex_data _ 1 "ex_signal CFI_EXIT 0 0 0"]
    by (fastforce simp: ex_trace_def)
qed

lemma ex_world_simps [simp]:
  "w_alloc (ex_world ts) = (\<lambda>_. Alloc_InPlace)" "client_to_monitor (ex_world ts) = map encode_signal ts"
  "monitor_to_client (ex_world ts) = []"
  "responsive ex_options (ex_world ts)" "depth_fits ex_options (ex_world ts) n"
  by (simp_all add: ex_world_def responsive_def depth_fits_def)

end
