(* ===== verification/Module_Example.thy ===== *)
theory Module_Example
  imports Single_Module Cfi_Example
begin

text \<open>
  A module for the witnesses: \<open>main\<close>, with two blocks, may call \<open>g\<close>, with one; and a world in
  which it has just been sent.
\<close>

definition exm_tables :: tables where
  "exm_tables = \<lparr>t_fcts = [([103], 1, ''prog''), (main_name, 0, ''Main'')],
     t_callgraph = [(0, [1])], t_bb = Some ([(0, 2, [(0, [1])]), (1, 1, [])], [(0, 0, 1, 1)])\<rparr>"

definition no_modules :: monitor_data where
  "no_modules = \<lparr>client_pid = 2, fd_client_to_monitor = 3, fd_monitor_to_client = 6,
     fd_loading_to_monitor = 7, fd_monitor_to_loading = 10, nb_modules = 0, modules = None\<rparr>"

definition ex_system :: system where
  "ex_system = \<lparr>argv = [''picon'', ''prog''],
     getenv = (\<lambda>v. if v \<in> {ENV_FD_CLIENT_TO_MONITOR, ENV_FD_MONITOR_TO_CLIENT, ENV_FD_LOADING_TO_MONITOR,
       ENV_FD_MONITOR_TO_LOADING} then Some (snprintf_u 128 5) else None),
     pipe2 = (\<lambda>_. Some (3, 4)), fork = 2, mask_sigpipe = 0\<rparr>"

definition ex_client :: client where
  "ex_client = \<lparr>cl_fd_client_to_monitor = -1, cl_fd_monitor_to_client = -1,
     cs = \<lparr>sig_event = 0, sig_module = -1, sig_function = 0, sig_block = 0\<rparr>,
     to_monitor = [], from_monitor = [], c_write = (\<lambda>_. True)\<rparr>"

lemma ex_init_fds: "init_fds ex_system ex_client = Some (CFI_SET_FDS 5 5 ex_client)"
proof -
  have "get_fd ex_system n = Some 5"
    if "n \<in> {ENV_FD_CLIENT_TO_MONITOR, ENV_FD_MONITOR_TO_CLIENT, ENV_FD_LOADING_TO_MONITOR, ENV_FD_MONITOR_TO_LOADING}" for n
    using that by (intro get_fd_printed) (simp_all add: ex_system_def)
  then show ?thesis by (simp add: init_fds_def)
qed

lemma no_modules_simps [simp]:
  "nb_modules no_modules = 0" "modules no_modules = None" "wf_modules no_modules" "module_list no_modules = []"
  by (simp_all add: no_modules_def wf_modules_def module_list_def)

lemma ex_world_write [simp]: "w_write (ex_world ts) n" "\<not> OPTION_sm_dump ex_options"
  by (simp_all add: ex_world_def ex_options_def)

lemma exm_by_id [simp]: "by_id (t_fcts exm_tables) = [(0, main_name, ''Main''), (1, [103], ''prog'')]"
  by (simp add: by_id_def exm_tables_def)

lemma exm_numbered [simp]: "numbered [(0, main_name, ''Main''), (1, [103], ''prog'')]"
  by (simp add: numbered_def main_name_def)

lemma exm_loadable [simp]: "loadable (sections exm_tables) empty_module"
proof -
  have s: "sections exm_tables = [Fctids (t_fcts exm_tables), Calls [(0, [1])], Blocks 0 2 [(0, [1])], Blocks 1 1 [], Ipds [(0, 0, 1, 1)]]"
    by (simp add: sections_def exm_tables_def)
  have two: "replicate 2 x = [x, x]" for x :: "byte list option" by (simp add: numeral_2_eq_2)
  show ?thesis
    unfolding s
    by (simp add: c_array_def gen_packed_fctids_def PIPE_BUF_def
        pack_fct_def main_name_def gen_packed_callgraph_def pack_row_def gen_packed_bb_def gen_packed_bb_ipd_def
        pack_ipd_def graph_ok_def module_of_def function_of_def empty_function_def with_blocks_def
        ipd_ok_def wf_module_def wf_rows_def wf_function_def rows_of_def row_of_def numbered_def flag_to_int_def two)
qed

lemma exm_module:
  "loaded_module exm_tables = \<lparr>nb_functions = 2, nb_entrypoint_inits = 0, nb_entrypoint_finis = 0,
     call_graph = Some [Some [0, 1], None], relocations = Some [0, 0],
     md_functions = Some
       [\<lparr>fd_name = Some main_name, fd_flags = 4, nb_blocks = 2, control_flow_graph = Some [Some [0, 1], None],
         immediate_post_dominator = Some [1, 0]\<rparr>,
        \<lparr>fd_name = Some [103], fd_flags = 0, nb_blocks = 1, control_flow_graph = Some [None],
         immediate_post_dominator = Some [0]\<rparr>]\<rparr>"
proof -
  have s: "sections exm_tables = [Fctids (t_fcts exm_tables), Calls [(0, [1])], Blocks 0 2 [(0, [1])], Blocks 1 1 [], Ipds [(0, 0, 1, 1)]]"
    by (simp add: sections_def exm_tables_def)
  have two: "replicate 2 x = [x, x]" "[0..<2] = [0, Suc 0]" for x :: u32 by (simp_all add: numeral_2_eq_2)
  show ?thesis
    unfolding loaded_module_def s
    by (simp add: module_of_def function_of_def empty_function_def with_blocks_def rows_of_def row_of_def
        flag_to_int_def put_ipd_def FUNCTION_IS_ENTRYPOINT_INIT_def FUNCTION_IS_ENTRYPOINT_FINI_def two)
qed

definition exm_load_world :: "client_signal list \<Rightarrow> world" where
  "exm_load_world ts = (ex_world ts)\<lparr>loading_to_monitor :=
     packet_stream (begin_packet exm_tables # section_packets exm_tables @ [(CFI_LOADING_MODULE_END, []), (CFI_LOADING_TERMINATED, [])])\<rparr>"

definition no_packet :: loading_packet where
  "no_packet = \<lparr>lp_event = 0, lp_size = 0, lp_value = Buf_NULL\<rparr>"

lemma exm_self_contained: "self_contained exm_tables"
  by (simp add: self_contained_def exm_tables_def)

lemma exm_load_world:
  "Alloc_Fail \<notin> range (w_alloc (exm_load_world ts))" "w_write (exm_load_world ts) 0"
  "loading_to_monitor (exm_load_world ts) =
     packet_stream (begin_packet exm_tables # section_packets exm_tables @ end_packets exm_tables)"
  using exm_self_contained by (auto simp: exm_load_world_def end_packets_def self_contained_def)

lemma exm_one_module: "one_module 2 3 6 7 10 exm_tables = no_modules\<lparr>nb_modules := 1, modules := Some [loaded_module exm_tables]\<rparr>"
  by (simp add: one_module_def no_modules_def)

lemma exm_load_and_init:
  "\<exists>w1. load_and_init ex_options (ex_signal CFI_CALL 9 9 9) no_packet no_modules (exm_load_world ts) =
      Some (0, False, no_modules\<lparr>nb_modules := 1, modules := Some [loaded_module exm_tables]\<rparr>, w1)"
  using init_self_contained [OF exm_loadable exm_self_contained exm_load_world(1,2) ex_world_write(2) exm_load_world(3),
      of "ex_signal CFI_CALL 9 9 9" no_packet 2 3 6 7 10 ts]
  unfolding exm_one_module by (auto simp: no_modules_def)

lemma exm_monitor_load:
  "\<exists>w'. monitor_load ex_options (ex_signal CFI_CALL 9 9 9) no_packet 2 3 6 7 10 (exm_load_world ts) =
    Some (0, no_modules\<lparr>nb_modules := 1, modules := Some [loaded_module exm_tables]\<rparr>, w') \<and>
    same_client (exm_load_world ts) w' \<and> alloc_later (w_alloc (exm_load_world ts)) (w_alloc w')"
  using load_self_contained [OF exm_loadable exm_self_contained exm_load_world(1,2) ex_world_write(2) exm_load_world(3),
      of "ex_signal CFI_CALL 9 9 9" no_packet 2 3 6 7 10 ts]
  unfolding exm_one_module .

section \<open>States, processes and clients\<close>

lemma ex_ready_state:
  "\<exists>s. sim ex_options ex_data s (Cfi SM_STATE_Ready p []) \<and> error s = 0 \<and> sig s = ex_signal CFI_ENTER 0 0 0"
proof -
  let ?al = "\<lambda>_ :: nat. Alloc_InPlace"
  have al: "?al 0 \<noteq> Alloc_Fail" by simp
  obtain cl where "call_stack_init ?al stack_uninit = (0, cl, alloc_rest ?al)"
      and cl: "stack_ok cl" "stack_list cl = []" "stack_cap cl = CALL_STACK_EXTEND_SIZE"
    by (rule call_stack_init_ok [of ?al, OF al])
  obtain bl where "block_stack_init ?al stack_uninit = (0, bl, alloc_rest ?al)"
      and bl: "stack_ok bl" "stack_height bl = 0" "stack_cap bl = BLOCK_STACK_EXTEND_SIZE"
    by (rule block_stack_init_ok [of ?al, OF al])
  show ?thesis
    using sim_init [OF cl bl, of ex_options ex_data "ex_signal CFI_ENTER 0 0 0" p]
    by (intro exI [of _ "run_init cl bl (ex_signal CFI_ENTER 0 0 0)"]) (simp add: run_init_def)
qed

lemma ex_block_stack: "\<exists>s :: block_stack. stack_ok s \<and> stack_height s = 0 \<and> stack_cap s = BLOCK_STACK_EXTEND_SIZE"
proof -
  let ?al = "\<lambda>_ :: nat. Alloc_InPlace"
  have al: "?al 0 \<noteq> Alloc_Fail" by simp
  obtain bl where "block_stack_init ?al stack_uninit = (0, bl, alloc_rest ?al)"
      and bl: "stack_ok bl" "stack_height bl = 0" "stack_cap bl = BLOCK_STACK_EXTEND_SIZE"
    by (rule block_stack_init_ok [of ?al, OF al])
  then show ?thesis by blast
qed

text \<open>A block stack with all its 4096 cells in use.\<close>

definition ex_full_stack :: block_stack where
  "ex_full_stack = \<lparr>st_first = Ptr 0 0, st_last = Ptr 0 4095, st_top = Ptr 0 4095,
     st_heap = \<lparr>cells = [0 \<mapsto> (4096, \<lambda>_. Some 5)], fresh = 1\<rparr>\<rparr>"

lemma ex_full_stack_ok: "stack_ok ex_full_stack" "stack_height ex_full_stack = stack_cap ex_full_stack"
  by (simp_all add: ex_full_stack_def stack_ok_def stack_height_def stack_cap_def)

text \<open>A clean environment with four pipes, and the example program that runs \<open>main\<close> and returns.\<close>

definition ex_launch :: system where
  "ex_launch = \<lparr>argv = [''picon'', ''prog''], getenv = (\<lambda>_. None),
     pipe2 = (\<lambda>i. Some (int (3 + 2 * i), int (4 + 2 * i))), fork = 2, mask_sigpipe = 0\<rparr>"

definition exm_trace :: "client_signal list" where
  "exm_trace = [ex_signal CFI_ENTER 0 0 0, ex_signal CFI_EXIT 0 0 0]"

definition exm_data :: monitor_data where
  "exm_data = no_modules\<lparr>nb_modules := 1, modules := Some [loaded_module exm_tables]\<rparr>"

lemma exm_activation: "entry_point exm_data 0 0" "activation exm_data 0 0 exm_trace"
proof -
  show "entry_point exm_data 0 0"
    by (simp add: exm_data_def exm_module entry_point_def module_at_def FUNCTION_IS_ENTRYPOINT_def FUNCTION_IS_ENTRYPOINT_MAIN_def)
  show "activation exm_data 0 0 exm_trace"
    using activate [of 0 0 "ex_signal CFI_ENTER 0 0 0" exm_data "[]" 0 "ex_signal CFI_EXIT 0 0 0"] body_done
    by (simp add: exm_trace_def)
qed

lemma exm_data_ok: "wf_modules exm_data" "relocs_ok exm_data"
  using exm_monitor_load [of "[]"] monitor_load_ok by (force simp: exm_data_def sound_load_def)+

lemma exm_serve:
  assumes "same_client (exm_load_world exm_trace) w" "alloc_later (w_alloc (exm_load_world exm_trace)) (w_alloc w)"
  shows "\<exists>w'. monitor_serve ex_options g exm_data w = Some (0, w')"
proof -
  have w: "client_to_monitor w = map encode_signal (exm_trace @ [])" "responsive ex_options w"
    using assms(1) by (auto simp: same_client_def exm_load_world_def responsive_def ex_world_def ex_options_def)
  have "range (w_alloc w) \<subseteq> {Alloc_InPlace}"
    using alloc_later_range [OF assms(2)] by (auto simp: exm_load_world_def)
  then have al: "Alloc_Fail \<notin> range (w_alloc w)" "depth_fits ex_options w (call_depth 0 exm_trace)"
    by (auto simp: depth_fits_def)
  obtain w' where "monitor_run ex_options g exm_data w = Some (0, w')"
    using monitor_run_complete [OF exm_data_ok al(1) w(1) exm_activation al(2) w(2), of g] by blast
  then show ?thesis
    by (simp add: monitor_serve_def ex_options_def exm_data_def exm_module)
qed

lemma exm_main:
  "\<exists>w'. main ex_options (ex_signal CFI_CALL 9 9 9) no_packet no_modules True ex_launch (exm_load_world exm_trace) =
     Some (Return 0, [Close 4, Close 5, Close 8, Close 9], w')"
proof -
  obtain w1 where l: "monitor_load ex_options (ex_signal CFI_CALL 9 9 9) no_packet 2 3 6 7 10 (exm_load_world exm_trace) =
      Some (0, exm_data, w1)" "same_client (exm_load_world exm_trace) w1"
      "alloc_later (w_alloc (exm_load_world exm_trace)) (w_alloc w1)"
    using exm_monitor_load unfolding exm_data_def by blast
  obtain w' where "monitor_serve ex_options (ex_signal CFI_CALL 9 9 9) exm_data w1 = Some (0, w')"
    using exm_serve [OF l(2,3)] by blast
  then show ?thesis
    using l(1) monitor_data_free_ok [OF exm_data_ok(1)]
    by (simp add: main_def ex_launch_def env_options_def monitor_process_def)
qed

lemma ex_load_nothing:
  "monitor_load ex_options g no_packet 2 3 6 7 10 (ex_world []) = Some (-1, no_modules, ex_world [])"
proof -
  have "read_loading_packet (ex_world []) (no_packet\<lparr>lp_size := 0, lp_value := Buf_NULL\<rparr>) 0 = (ex_world [], no_packet, 1)"
    by (simp add: read_loading_packet_def READ_LOADING_PACKET_def pipe_read_def ex_world_def no_packet_def
        overlay32_def le32_def)
  then have "monitor_load_module ex_options no_packet no_modules (ex_world []) = Some (-1, no_modules, ex_world [])"
    by (simp add: monitor_load_module_def FREE_LOADING_PACKET_def no_packet_def)
  then have "load_modules ex_options g no_packet no_modules (ex_world []) = Some (-1, no_modules, ex_world [])"
    by (simp add: load_modules.simps load_and_init_def)
  then show ?thesis by (simp add: monitor_load_def no_modules_def)
qed

text \<open>The hooks of the example program, called from module 0.\<close>

definition exm_client :: client where
  "exm_client = CFI_SET_MODULE_ID 0 ex_client"

lemma exm_hooks: "map (hook_signal (sig_module (cs exm_client))) [Enter 0, Leave 0] = exm_trace"
  by (simp add: exm_client_def CFI_SET_MODULE_ID_def exm_trace_def ex_signal_def)

end
