(* ===== verification/Two_Modules.thy ===== *)
theory Two_Modules
  imports Module_Example
begin

text \<open>
  Two modules for the witnesses: a library that defines \<open>g\<close>, and a program whose \<open>main\<close> calls it as
  an external function. The monitor loads them in turn and links them.
\<close>

section \<open>Linking\<close>

text \<open>The tables of \<^term>\<open>ex_data\<close> before relocation, and the program without its library.\<close>

definition exr_data :: monitor_data where
  "exr_data = ex_data\<lparr>modules := Some [ex_module0\<lparr>relocations := Some [0, 0]\<rparr>, ex_module1]\<rparr>"

definition exu_data :: monitor_data where
  "exu_data = ex_data\<lparr>nb_modules := 1, modules := Some [ex_module0]\<rparr>"

lemma two_turns:
  "relocate mid fatal j 2 data = relocate mid fatal j (Suc (Suc 0)) data"
  "find_module data mid fj 2 = find_module data mid fj (Suc (Suc 0))"
  by (simp_all only: numeral_2_eq_2)

lemma exr_relocates: "compute_relocations_of_module exr_data 0 True = Some (0, ex_data)"
  by (simp add: exr_data_def ex_tables compute_relocations_of_module_def two_turns resolve_def same_name_def
      FUNCTION_IS_EXTERNAL_def set_relocation_def)

lemma exr_wf: "wf_modules exr_data"
  by (simp add: exr_data_def ex_tables wf_modules_def wf_module_def wf_rows_def wf_function_def)

lemma exu_wf: "wf_modules exu_data"
  by (simp add: exu_data_def ex_tables wf_modules_def wf_module_def wf_rows_def wf_function_def)

lemma exr_external: "fun_at ex_data 0 1 = Some ex_extern" "FUNCTION_IS_EXTERNAL ex_extern"
  by (simp_all add: fun_at_def ex_tables FUNCTION_IS_EXTERNAL_def)

lemma exu_fails: "compute_relocations_of_module exu_data 0 True = Some (1, exu_data)"
  by (simp add: exu_data_def ex_tables compute_relocations_of_module_def two_turns resolve_def same_name_def
      FUNCTION_IS_EXTERNAL_def set_relocation_def)

section \<open>Loading\<close>

definition exa_library :: tables where
  "exa_library = \<lparr>t_fcts = [([103], 0, ''prog'')], t_callgraph = [], t_bb = None\<rparr>"

definition exa_program :: tables where
  "exa_program = \<lparr>t_fcts = [([103], 1, ''External''), (main_name, 0, ''Main'')], t_callgraph = [(0, [1])], t_bb = None\<rparr>"

lemma exa_by_id: "by_id (t_fcts exa_library) = [(0, [103], ''prog'')]"
  "by_id (t_fcts exa_program) = [(0, main_name, ''Main''), (1, [103], ''External'')]"
  by (simp_all add: by_id_def exa_library_def exa_program_def)

lemma exa_length: "length (t_fcts exa_library) = 1" "length (t_fcts exa_program) = 2"
  by (simp_all add: exa_library_def exa_program_def)

lemma exa_sections: "sections exa_library = [Fctids (t_fcts exa_library), Calls []]"
  "sections exa_program = [Fctids (t_fcts exa_program), Calls [(0, [1])]]"
  by (simp_all add: sections_def exa_library_def exa_program_def)

lemma exa_loadable: "loadable (sections exa_library) empty_module" "loadable (sections exa_program) empty_module"
proof -
  have two: "replicate 2 x = [x, x]" for x :: "byte list option" by (simp add: numeral_2_eq_2)
  show "loadable (sections exa_library) empty_module" "loadable (sections exa_program) empty_module"
    unfolding exa_sections
    by (simp_all add: exa_by_id c_array_def gen_packed_fctids_def PIPE_BUF_def pack_fct_def main_name_def gen_packed_callgraph_def
        pack_row_def graph_ok_def module_of_def numbered_def exa_length two)
qed

lemma exa_modules:
  "loaded_module exa_library = \<lparr>nb_functions = 1, nb_entrypoint_inits = 0, nb_entrypoint_finis = 0,
     call_graph = Some [None], relocations = Some [0],
     md_functions = Some [empty_function\<lparr>fd_name := Some [103], fd_flags := 0\<rparr>]\<rparr>"
  "loaded_module exa_program = \<lparr>nb_functions = 2, nb_entrypoint_inits = 0, nb_entrypoint_finis = 0,
     call_graph = Some [Some [0, 1], None], relocations = Some [0, 0],
     md_functions = Some [empty_function\<lparr>fd_name := Some main_name, fd_flags := 4\<rparr>,
       empty_function\<lparr>fd_name := Some [103], fd_flags := 1\<rparr>]\<rparr>"
proof -
  have two: "replicate 2 x = [x, x]" "[0..<2] = [0, Suc 0]" for x :: u32 by (simp_all add: numeral_2_eq_2)
  show "loaded_module exa_library = \<lparr>nb_functions = 1, nb_entrypoint_inits = 0, nb_entrypoint_finis = 0,
     call_graph = Some [None], relocations = Some [0],
     md_functions = Some [empty_function\<lparr>fd_name := Some [103], fd_flags := 0\<rparr>]\<rparr>"
  "loaded_module exa_program = \<lparr>nb_functions = 2, nb_entrypoint_inits = 0, nb_entrypoint_finis = 0,
     call_graph = Some [Some [0, 1], None], relocations = Some [0, 0],
     md_functions = Some [empty_function\<lparr>fd_name := Some main_name, fd_flags := 4\<rparr>,
       empty_function\<lparr>fd_name := Some [103], fd_flags := 1\<rparr>]\<rparr>"
    unfolding loaded_module_def exa_sections
    by (simp_all add: exa_by_id module_of_def function_of_def empty_function_def rows_of_def row_of_def flag_to_int_def
        FUNCTION_IS_ENTRYPOINT_INIT_def FUNCTION_IS_ENTRYPOINT_FINI_def two)
qed

text \<open>The tables after each step: the library, the program, its link to the library.\<close>

definition exa_first :: monitor_data where
  "exa_first = no_modules\<lparr>nb_modules := 1, modules := Some [loaded_module exa_library]\<rparr>"

definition exa_second :: monitor_data where
  "exa_second = no_modules\<lparr>nb_modules := 2, modules := Some [loaded_module exa_library, loaded_module exa_program]\<rparr>"

definition exa_data :: monitor_data where
  "exa_data = no_modules\<lparr>nb_modules := 2,
     modules := Some [loaded_module exa_library, (loaded_module exa_program)\<lparr>relocations := Some [0, MODULE_FUNCTION 0 0]\<rparr>]\<rparr>"

lemma relocate_all_2: "relocate_all i 2 data = relocate_all i (Suc (Suc 0)) data"
  by (simp only: numeral_2_eq_2)

lemma exa_relocations:
  "compute_relocations_of_module exa_first 0 False = Some (0, exa_first)"
  "compute_relocations_of_module exa_second 1 False = Some (0, exa_data)"
  "relocate_all 0 2 exa_data = Some (0, exa_data)"
  by (simp_all add: exa_first_def exa_second_def exa_data_def exa_modules no_modules_def empty_function_def main_name_def
      compute_relocations_of_module_def two_turns resolve_def same_name_def FUNCTION_IS_EXTERNAL_def set_relocation_def
      relocate_all_2)

text \<open>The packets both constructors send, one after the other; only the program ends the loading.\<close>

definition exa_world :: world where
  "exa_world = (ex_world [])\<lparr>loading_to_monitor :=
     packet_stream (begin_packet exa_library # section_packets exa_library @ end_packets exa_library) @
     packet_stream (begin_packet exa_program # section_packets exa_program @ end_packets exa_program)\<rparr>"

lemma load_linked:
  assumes "wf_modules mon" "nb_modules mon + 1 \<noteq> 0" "Alloc_Fail \<notin> range (w_alloc w)" "w_write w 0"
    "loadable (sections t) empty_module" "\<not> OPTION_sm_dump opts" 
    "loading_to_monitor w = packet_stream (begin_packet t # section_packets t @ [(CFI_LOADING_MODULE_END, [])]) @ rest"
    "data = mon\<lparr>nb_modules := nb_modules mon + 1, modules := Some (module_list mon @ [loaded_module t])\<rparr>"
    "compute_relocations_of_module data (ucast (nb_modules mon)) False = Some (0, data')"
    "map_option nb_entrypoint_inits (arr_get (modules data') (unat (nb_modules mon))) = Some 0" "nb_modules data' = nb_modules data"
  shows "\<exists>w'. load_and_init opts g gp mon w = Some (0, False, data', w') \<and> loading_to_monitor w' = rest \<and>
    alloc_later (w_alloc w) (w_alloc w') \<and> w_write w' = (\<lambda>n. w_write w (Suc n))"
proof -
  obtain w' where "monitor_load_module opts gp mon w = Some (0, data, w')" "loading_to_monitor w' = rest"
      "alloc_later (w_alloc w) (w_alloc w')" "w_write w' = (\<lambda>n. w_write w (Suc n))"
    using load_module_stream [OF assms(1-5) _ assms(7), of opts gp] assms(6,8) by auto
  then show ?thesis using assms(8-) by (auto simp: load_and_init_def)
qed

lemma exa_monitor_load:
  "\<exists>w'. monitor_load ex_options (ex_signal CFI_CALL 9 9 9) no_packet 2 3 6 7 10 exa_world = Some (0, exa_data, w')"
proof -
  let ?g = "ex_signal CFI_CALL 9 9 9"
  let ?rest = "packet_stream (begin_packet exa_program # section_packets exa_program @ end_packets exa_program)"
  have ends: "end_packets exa_library = [(CFI_LOADING_MODULE_END, [])]"
      "end_packets exa_program = [(CFI_LOADING_MODULE_END, []), (CFI_LOADING_TERMINATED, [])]"
    by (simp_all add: end_packets_def exa_library_def exa_program_def main_name_def)
  have w: "Alloc_Fail \<notin> range (w_alloc exa_world)" "w_write exa_world = (\<lambda>_. True)"
    by (auto simp: exa_world_def ex_world_def)
  have "loading_to_monitor exa_world =
      packet_stream (begin_packet exa_library # section_packets exa_library @ [(CFI_LOADING_MODULE_END, [])]) @ ?rest"
    by (simp add: exa_world_def ends)
  then obtain w1 where 1: "load_and_init ex_options ?g no_packet no_modules exa_world = Some (0, False, exa_first, w1)"
      "loading_to_monitor w1 = ?rest" "alloc_later (w_alloc exa_world) (w_alloc w1)" "w_write w1 = (\<lambda>_. True)"
    using load_linked [of no_modules exa_world exa_library ex_options ?rest exa_first exa_first ?g no_packet] w exa_loadable(1)
      exa_relocations(1) by (auto simp: exa_first_def exa_modules)
  have al: "Alloc_Fail \<notin> range (w_alloc w1)" using alloc_later_member [OF 1(3)] w(1) by blast
  have first: "wf_modules exa_first" "nb_modules exa_first = 1" "module_list exa_first = [loaded_module exa_library]"
    by (simp_all add: exa_first_def exa_modules wf_modules_def wf_module_def wf_rows_def wf_function_def empty_function_def module_list_def)
  have pipe: "loading_to_monitor w1 = packet_stream (begin_packet exa_program # section_packets exa_program @ [(CFI_LOADING_MODULE_END, [])]) @
      packet_stream [(CFI_LOADING_TERMINATED, [])]"
    using 1(2) by (simp add: ends packet_stream_def)
  have step: "nb_modules exa_first + 1 \<noteq> 0" "w_write w1 0" "\<not> OPTION_sm_dump ex_options"
      "exa_second = exa_first\<lparr>nb_modules := nb_modules exa_first + 1, modules := Some (module_list exa_first @ [loaded_module exa_program])\<rparr>"
      "compute_relocations_of_module exa_second (ucast (nb_modules exa_first)) False = Some (0, exa_data)"
    unfolding first(2,3) using 1(4) exa_relocations(2) by (simp_all add: exa_second_def exa_first_def)
  have inits: "map_option nb_entrypoint_inits (arr_get (modules exa_data) (unat (nb_modules exa_first))) = Some 0"
      "nb_modules exa_data = nb_modules exa_second"
    unfolding first(2) by (simp_all add: exa_data_def exa_second_def exa_modules)
  obtain w2 where 2: "load_and_init ex_options ?g no_packet exa_first w1 = Some (0, False, exa_data, w2)"
      "loading_to_monitor w2 = packet_stream [(CFI_LOADING_TERMINATED, [])]" "alloc_later (w_alloc w1) (w_alloc w2)"
    using load_linked [OF first(1) step(1) al step(2) exa_loadable(2) step(3) pipe step(4,5) inits, of ?g no_packet] by blast
  have "Alloc_Fail \<notin> range (w_alloc w2)" using alloc_later_member [OF 2(3)] al by blast
  from load_terminated [OF 2(2) this]
  have "load_modules ex_options ?g no_packet no_modules exa_world = Some (0, exa_data, w2\<lparr>loading_to_monitor := []\<rparr>)"
    using 1(1) 2(1) by (simp add: load_modules.simps)
  moreover have "nb_modules exa_data = 2" by (simp add: exa_data_def)
  ultimately show ?thesis
    unfolding monitor_load_def using exa_relocations(3) by (simp flip: no_modules_def)
qed

definition exa_external :: function_data where
  "exa_external = empty_function\<lparr>fd_name := Some [103], fd_flags := 1\<rparr>"

lemma exa_linked: "fun_at exa_data 1 1 = Some exa_external" "FUNCTION_IS_EXTERNAL exa_external"
  by (simp_all add: fun_at_def exa_data_def exa_modules FUNCTION_IS_EXTERNAL_def exa_external_def)

end
