(* ===== verification/Llvm_Ir.thy ===== *)
theory Llvm_Ir
  imports Text_Io
begin

text \<open>
  What the pass of \<open>llvm_pass/CFI\<close> sees of a compilation unit: functions as lists of basic blocks,
  instructions by the properties the pass asks them for, constants of global initialisers. A
  function of a unit is referred to by its name and a block of a function by its position.
  Which names are intrinsics of LLVM is a component of the unit.
\<close>

section \<open>Units\<close>

datatype operand = Const_int u32 | Value string

datatype callee = Function string | Inline_asm | Indirect

text \<open>\<open>CallInst\<close> has the name of its result, its callee and its arguments.\<close>

datatype instr = PHINode | CallInst string callee "operand list" | OtherInst

datatype terminator = Ret | Branch "nat list" | Unreachable | InvokeInst "nat list"

record basic_block =
  bb_instrs :: "instr list"
  bb_term :: terminator

record llvm_function =
  fn_name :: string
  fn_blocks :: "basic_block list"
  fn_local :: bool
  fn_hidden :: bool

datatype llvm_constant =
  Const_null | Const_function string | Const_expr bool "llvm_constant list" | Const_struct "llvm_constant list"
| Const_array "llvm_constant list" | Const_global "llvm_constant option" | Const_data string | Const_other

record global_variable =
  gv_initializer :: "llvm_constant option"
  gv_uses :: nat

record llvm_module =
  m_functions :: "llvm_function list"
  m_globals :: "string \<Rightarrow> global_variable option"
  is_intrinsic :: "string \<Rightarrow> bool"
  is_dbg :: "string \<Rightarrow> bool"

fun successors :: "terminator \<Rightarrow> nat list" where
  "successors (Branch ss) = ss"
| "successors (InvokeInst ss) = ss"
| "successors _ = []"

fun is_invoke :: "terminator \<Rightarrow> bool" where
  "is_invoke (InvokeInst _) = True"
| "is_invoke _ = False"

definition is_declaration :: "llvm_function \<Rightarrow> bool" where
  "is_declaration F \<longleftrightarrow> fn_blocks F = []"

definition new_declaration :: "string \<Rightarrow> llvm_function" where
  "new_declaration name = \<lparr>fn_name = name, fn_blocks = [], fn_local = False, fn_hidden = False\<rparr>"

definition get_function :: "llvm_module \<Rightarrow> string \<Rightarrow> llvm_function option" where
  "get_function M name = find (\<lambda>F. fn_name F = name) (m_functions M)"

text \<open>The function a pointer into the unit leads to.\<close>

definition function_of_name :: "llvm_module \<Rightarrow> string \<Rightarrow> llvm_function" where
  "function_of_name M name = (case get_function M name of Some F \<Rightarrow> F | None \<Rightarrow> new_declaration name)"

definition update_function :: "(llvm_function \<Rightarrow> llvm_function) \<Rightarrow> string \<Rightarrow> llvm_module \<Rightarrow> llvm_module" where
  "update_function f name M =
     M\<lparr>m_functions := map (\<lambda>F. if fn_name F = name then f F else F) (m_functions M)\<rparr>"

text \<open>
  A new declaration in the unit. When its name is taken LLVM renames the new function, which
  nothing refers to then.
\<close>

definition create_function :: "string \<Rightarrow> llvm_module \<Rightarrow> llvm_module" where
  "create_function name M =
     (if get_function M name = None then M\<lparr>m_functions := m_functions M @ [new_declaration name]\<rparr> else M)"

section \<open>Ends of a compilation\<close>

text \<open>
  \<open>report_fatal_error\<close>, a failed \<open>assert\<close>, or an operation of LLVM outside its contract. Assertions
  are compiled or not, as \<open>llvm-config\<close> says: \<open>ndebug\<close> is the definition of \<open>NDEBUG\<close>.
\<close>

datatype stop = Fatal_error | Assertion_failed | Undefined_behaviour

type_synonym 'a result = "stop + 'a"

definition and_then :: "'a result \<Rightarrow> ('a \<Rightarrow> 'b result) \<Rightarrow> 'b result" where
  "and_then r f = (case r of Inl e \<Rightarrow> Inl e | Inr x \<Rightarrow> f x)"

definition c_assert :: "bool \<Rightarrow> bool \<Rightarrow> unit result" where
  "c_assert ndebug b = (if ndebug \<or> b then Inr () else Inl Assertion_failed)"

fun fold_result :: "('a \<Rightarrow> 'b \<Rightarrow> 'b result) \<Rightarrow> 'a list \<Rightarrow> 'b \<Rightarrow> 'b result" where
  "fold_result f [] s = Inr s"
| "fold_result f (x # xs) s = and_then (f x s) (fold_result f xs)"

fun map_result :: "('a \<Rightarrow> 'b result) \<Rightarrow> 'a list \<Rightarrow> 'b list result" where
  "map_result f [] = Inr []"
| "map_result f (x # xs) = and_then (f x) (\<lambda>y. and_then (map_result f xs) (\<lambda>ys. Inr (y # ys)))"

named_theorems results \<comment> \<open>how a compilation that goes on got there\<close>

lemma and_then_simps [simp]: "and_then (Inl e) f = Inl e" "and_then (Inr x) f = f x"
  by (simp_all add: and_then_def)

lemma and_then_Inr [results]: "and_then r f = Inr y \<longleftrightarrow> (\<exists>x. r = Inr x \<and> f x = Inr y)"
  by (cases r) simp_all

lemma c_assert_Inr [results]: "c_assert ndebug b = Inr u \<longleftrightarrow> ndebug \<or> b"
  by (simp add: c_assert_def)

lemma c_assert_True [simp]: "c_assert ndebug True = Inr ()" "c_assert True b = Inr ()"
  by (simp_all add: c_assert_def)

lemma fold_result_append: "fold_result f (xs @ ys) s = and_then (fold_result f xs s) (fold_result f ys)"
  by (induction xs arbitrary: s) (simp_all add: and_then_def split: sum.splits)

text \<open>An invariant of each step is one of the whole loop.\<close>

lemma fold_result_invariant:
  assumes "fold_result f xs s = Inr s'" "I [] s"
    "\<And>x s s' ys. x \<in> set xs \<Longrightarrow> I ys s \<Longrightarrow> f x s = Inr s' \<Longrightarrow> I (ys @ [x]) s'"
  shows "I xs s'"
proof -
  have "I (ys @ xs) s'" if "I ys s" for ys
    using assms(1) that assms(3)
  proof (induction xs arbitrary: s ys)
    case (Cons x xs)
    then obtain s1 where s1: "f x s = Inr s1" "fold_result f xs s1 = Inr s'" by (auto simp: results)
    have "I (ys @ [x]) s1" using Cons.prems(2,3) s1(1) by (meson list.set_intros(1))
    then have "I ((ys @ [x]) @ xs) s'" using Cons.IH [OF s1(2)] Cons.prems(3) by (meson list.set_intros(2))
    then show ?case by simp
  qed simp
  from this [of "[]"] show ?thesis using assms(2) by simp
qed

lemma map_result_Inr:
  "map_result f xs = Inr ys \<longleftrightarrow> list_all2 (\<lambda>x y. f x = Inr y) xs ys"
  by (induction xs arbitrary: ys) (auto simp: results list_all2_Cons1)

section \<open>Lemmas\<close>

text \<open>Functions of a unit have distinct names, which are words.\<close>

definition wf_unit :: "llvm_module \<Rightarrow> bool" where
  "wf_unit M \<longleftrightarrow> distinct (map fn_name (m_functions M)) \<and> list_all (is_word \<circ> fn_name) (m_functions M)"

lemma get_function_SomeD: "get_function M name = Some F \<Longrightarrow> F \<in> set (m_functions M) \<and> fn_name F = name"
  by (auto simp: get_function_def find_Some_iff)

lemma get_function_None: "get_function M name = None \<longleftrightarrow> name \<notin> fn_name ` set (m_functions M)"
  by (auto simp: get_function_def find_None_iff)

lemma get_function_unique:
  assumes "wf_unit M" "F \<in> set (m_functions M)"
  shows "get_function M (fn_name F) = Some F"
proof -
  have "G = F" if "get_function M (fn_name F) = Some G" for G
    using get_function_SomeD [OF that] assms by (auto simp: wf_unit_def distinct_map inj_on_def)
  moreover have "get_function M (fn_name F) \<noteq> None" using assms(2) by (auto simp: get_function_None)
  ultimately show ?thesis by blast
qed

lemma function_of_name_eq: "get_function M name = Some F \<Longrightarrow> function_of_name M name = F"
  by (simp add: function_of_name_def)

lemma update_function_names [simp]:
  assumes "\<And>F. fn_name (f F) = fn_name F"
  shows "map fn_name (m_functions (update_function f name M)) = map fn_name (m_functions M)"
  by (auto simp: update_function_def assms)

lemma get_update_function:
  assumes "\<And>F. fn_name (f F) = fn_name F"
  shows "get_function (update_function f name M) g =
    (if g = name then map_option f (get_function M g) else get_function M g)"
proof -
  have "find (\<lambda>F. fn_name F = g) (map (\<lambda>F. if fn_name F = name then f F else F) Fs) =
      (if g = name then map_option f (find (\<lambda>F. fn_name F = g) Fs) else find (\<lambda>F. fn_name F = g) Fs)" for Fs
    by (induction Fs) (auto simp: assms)
  then show ?thesis by (simp add: get_function_def update_function_def)
qed

lemma get_create_function:
  "get_function (create_function name M) g =
    (case get_function M g of Some F \<Rightarrow> Some F | None \<Rightarrow> if g = name then Some (new_declaration name) else None)"
proof -
  have "find P (xs @ ys) = (case find P xs of Some x \<Rightarrow> Some x | None \<Rightarrow> find P ys)" for P and xs ys :: "llvm_function list"
    by (induction xs) simp_all
  then show ?thesis
    by (auto simp: create_function_def get_function_def new_declaration_def split: option.splits)
qed

end
