(* ===== verification/Cfi_Pass.thy ===== *)
theory Cfi_Pass
  imports Llvm_Ir "HOL-Library.AList"
begin

text \<open>
  The class \<open>ControlFlowIntegrity\<close> of the compiler pass (\<open>llvm_pass/CFI/CFI.cpp\<close>, \<open>CFI.hh\<close>): it numbers
  the functions of a unit, in step with the units compiled before it, and writes the tables of
  function numbers, calls, jumps and post-dominators the prelink script reads.

  A \<open>StringMap\<close> is an association list in order of insertion; it is iterated in the order of its
  hash table, which is the parameter \<open>order\<close>. A \<open>StringMap\<close> that is only looked up is a map.
\<close>

section \<open>State\<close>

record CFIFct =
  cf_fun :: string
  cf_id :: u32
  cf_bb_map :: "(nat \<times> u32) list"

record control_flow_integrity =
  FunctionMap :: "(string \<times> CFIFct) list"
  IdentifiedFunctions :: "string \<Rightarrow> u32 option"
  IgnoredFunctions :: "string set"
  InitFunctions :: "string set"
  FiniFunctions :: "string set"
  IgnoredBlocksFunctions :: "string set"
  fun_id_file :: string
  transTableFile :: string
  transTableBBFile :: string
  ipdom_file :: string
  fun_id_ctr :: u32

type_synonym hash_order = "string list \<Rightarrow> string list"

record file_system =
  contents :: "string \<Rightarrow> string option"
  writable :: "string \<Rightarrow> bool"

text \<open>\<open>open\<close> for writing, the failure of which an assertion reports, and a write of the whole text.\<close>

definition write_file :: "bool \<Rightarrow> string \<Rightarrow> string \<Rightarrow> file_system \<Rightarrow> file_system result" where
  "write_file ndebug name txt fs =
     and_then (c_assert ndebug (writable fs name)) (\<lambda>_.
       Inr (if writable fs name then fs\<lparr>contents := (contents fs)(name \<mapsto> txt)\<rparr> else fs))"

definition text_of :: "file_system \<Rightarrow> string \<Rightarrow> string" where
  "text_of fs name = (case contents fs name of None \<Rightarrow> [] | Some old \<Rightarrow> old)"

definition append_file :: "bool \<Rightarrow> string \<Rightarrow> string \<Rightarrow> file_system \<Rightarrow> file_system result" where
  "append_file ndebug name txt fs =
     write_file ndebug name (text_of fs name @ txt) fs"

definition ControlFlowIntegrity ::
    "bool \<Rightarrow> file_system \<Rightarrow> string \<Rightarrow> string \<Rightarrow> string \<Rightarrow> string \<Rightarrow> string \<Rightarrow> control_flow_integrity result" where
  "ControlFlowIntegrity ndebug fs fun_id ipdom trans_table trans_tablebb IgnoredFctFileName =
     and_then
       (if IgnoredFctFileName = [] then Inr {}
        else (case contents fs IgnoredFctFileName of
            None \<Rightarrow> and_then (c_assert ndebug False) (\<lambda>_. Inr {})
          | Some txt \<Rightarrow> Inr (set (lines txt)))) (\<lambda>ignored.
     Inr \<lparr>FunctionMap = [], IdentifiedFunctions = Map.empty, IgnoredFunctions = ignored, InitFunctions = {},
       FiniFunctions = {}, IgnoredBlocksFunctions = {}, fun_id_file = fun_id, transTableFile = trans_table,
       transTableBBFile = trans_tablebb, ipdom_file = ipdom, fun_id_ctr = 0\<rparr>)"

definition isIgnoredFunction :: "control_flow_integrity \<Rightarrow> string \<Rightarrow> bool" where
  "isIgnoredFunction cfi fName \<longleftrightarrow> fName \<in> IgnoredFunctions cfi"

definition isInitFunction :: "control_flow_integrity \<Rightarrow> string \<Rightarrow> bool" where
  "isInitFunction cfi fName \<longleftrightarrow> fName \<in> InitFunctions cfi"

definition isFiniFunction :: "control_flow_integrity \<Rightarrow> string \<Rightarrow> bool" where
  "isFiniFunction cfi fName \<longleftrightarrow> fName \<in> FiniFunctions cfi"

definition isIgnoredBlocksFunction :: "control_flow_integrity \<Rightarrow> string \<Rightarrow> bool" where
  "isIgnoredBlocksFunction cfi fName \<longleftrightarrow> fName \<in> IgnoredBlocksFunctions cfi"

section \<open>Numbering\<close>

definition IdentifyFunction :: "string \<Rightarrow> control_flow_integrity \<Rightarrow> u32 \<times> control_flow_integrity" where
  "IdentifyFunction F cfi =
     (case IdentifiedFunctions cfi F of Some f_id \<Rightarrow> (f_id, cfi)
      | None \<Rightarrow> (fun_id_ctr cfi,
          cfi\<lparr>IdentifiedFunctions := (IdentifiedFunctions cfi)(F \<mapsto> fun_id_ctr cfi), fun_id_ctr := fun_id_ctr cfi + 1\<rparr>))"

definition AddIdentifiedFunction :: "bool \<Rightarrow> string \<Rightarrow> u32 \<Rightarrow> control_flow_integrity \<Rightarrow> control_flow_integrity result" where
  "AddIdentifiedFunction ndebug name f_id cfi =
     and_then
       (if IdentifiedFunctions cfi name \<noteq> None then and_then (c_assert ndebug False) (\<lambda>_. Inr cfi)
        else Inr (cfi\<lparr>IdentifiedFunctions := (IdentifiedFunctions cfi)(name \<mapsto> f_id)\<rparr>)) (\<lambda>cfi.
     Inr (if fun_id_ctr cfi \<le> f_id then cfi\<lparr>fun_id_ctr := f_id + 1\<rparr> else cfi))"

definition HasAlreadyBeenIdentified_id :: "control_flow_integrity \<Rightarrow> string \<Rightarrow> bool" where
  "HasAlreadyBeenIdentified_id cfi F \<longleftrightarrow> IdentifiedFunctions cfi F \<noteq> None"

definition getIdentifier :: "bool \<Rightarrow> control_flow_integrity \<Rightarrow> string \<Rightarrow> u32 result" where
  "getIdentifier ndebug cfi F =
     (case IdentifiedFunctions cfi F of Some f_id \<Rightarrow> Inr f_id
      | None \<Rightarrow> and_then (c_assert ndebug False) (\<lambda>_. Inr (- 1)))"

text \<open>
  \<open>while (fs >> fctName >> id >> flags)\<close>: the entries of the table of numbers, and the stream at the
  end of the loop.
\<close>

lemma read_entry_shorter:
  assumes "(w, st1) = get_word st" "(i, st2) = get_u32 st1" "(fl, st3) = get_word st2" "\<not> is_fail st3"
  shows "length (is_text st3) < length (is_text st)"
  using get_word_shorter(1) [of st] get_u32_shorter [of st1] get_word_shorter(2) [of st2] assms
  by (metis (no_types) less_le_trans snd_conv)

function read_entries :: "istream \<Rightarrow> (string \<times> u32 \<times> string) list \<times> istream" where
  "read_entries st =
     (let (fctName, st) = get_word st;
          (f_id, st) = get_u32 st;
          (flags, st) = get_word st
      in if is_fail st then ([], st)
         else let (es, st) = read_entries st in ((fctName, f_id, flags) # es, st))"
  by pat_completeness auto
termination
  by (relation "measure (\<lambda>st. length (is_text st))") (auto intro: read_entry_shorter)

declare read_entries.simps [simp del]

definition identify :: "llvm_module \<Rightarrow> llvm_function \<Rightarrow> control_flow_integrity \<Rightarrow> control_flow_integrity" where
  "identify M F cfi =
     (if isIgnoredFunction cfi (fn_name F) then cfi
      else if is_intrinsic M (fn_name F) then cfi
      else let (f_id, cfi) = IdentifyFunction (fn_name F) cfi;
               bb_map = map (\<lambda>i. (i, of_nat i)) [0..<length (fn_blocks F)]
           in cfi\<lparr>FunctionMap := AList.update (fn_name F) \<lparr>cf_fun = fn_name F, cf_id = f_id, cf_bb_map = bb_map\<rparr>
                  (FunctionMap cfi)\<rparr>)"

definition IdentifyFunctions ::
    "bool \<Rightarrow> file_system \<Rightarrow> llvm_module \<Rightarrow> control_flow_integrity \<Rightarrow> control_flow_integrity result" where
  "IdentifyFunctions ndebug fs M cfi =
     and_then
       (case contents fs (fun_id_file cfi) of None \<Rightarrow> Inr cfi
        | Some txt \<Rightarrow>
          let (es, st) = read_entries (open_in txt) in
          and_then (fold_result (\<lambda>(fctName, iid, is_defined). AddIdentifiedFunction ndebug fctName iid) es cfi) (\<lambda>cfi.
          if \<not> peek_is_EOF st then Inl Fatal_error else Inr cfi)) (\<lambda>cfi.
     Inr (fold (identify M) (m_functions M) cfi))"

text \<open>What a build with assertions prints: blocks with their numbers; \<open>label F i\<close> is the name of a block.\<close>

definition IdentifyBB :: "(string \<Rightarrow> nat \<Rightarrow> string) \<Rightarrow> llvm_module \<Rightarrow> string" where
  "IdentifyBB label M = concat (map (\<lambda>F.
     if is_declaration F then fn_name F @ '' is a declaration'' @ [newline]
     else [newline, newline] @ ''Identifier BB of '' @ fn_name F @ [newline, newline] @
       concat (map (\<lambda>(Identifier, BB). label (fn_name F) Identifier @ '' with identifier '' @ decimal Identifier @
         '' has '' @ decimal (Suc (length (bb_instrs BB))) @ '' Instructions'' @ [newline])
         (enumerate 0 (fn_blocks F)))) (m_functions M)) @ [newline]"

section \<open>The table of function numbers\<close>

definition function_flags ::
    "bool \<Rightarrow> llvm_module \<Rightarrow> (string \<times> u32 \<times> string) list \<Rightarrow> control_flow_integrity \<Rightarrow> string \<Rightarrow> u32 \<Rightarrow>
     (u32 \<times> string) result" where
  "function_flags ndebug M oldMap cfi fct_name f_id =
     (if isIgnoredFunction cfi fct_name then Inr (f_id, ''Ignored'')
      else if isInitFunction cfi fct_name then Inr (f_id, ''Init'')
      else if isFiniFunction cfi fct_name then Inr (f_id, ''Fini'')
      else if fct_name = ''main'' then Inr (f_id, ''Main'')
      else if is_declaration (function_of_name M fct_name)
      then Inr (f_id, case map_of oldMap fct_name of
          Some (_, flags) \<Rightarrow> if flags \<noteq> ''External'' then flags else ''External''
        | None \<Rightarrow> ''External'')
      else if HasAlreadyBeenIdentified_id cfi fct_name
      then Inr (fst (IdentifyFunction fct_name cfi), fun_id_file cfi)
      else and_then (c_assert ndebug False) (\<lambda>_. Inr (f_id, [])))"

text \<open>The names \<open>alreadyAdded\<close> holds: those of every branch but the last.\<close>

definition already_added :: "llvm_module \<Rightarrow> control_flow_integrity \<Rightarrow> string \<Rightarrow> bool" where
  "already_added M cfi fct_name \<longleftrightarrow>
     isIgnoredFunction cfi fct_name \<or> isInitFunction cfi fct_name \<or> isFiniFunction cfi fct_name \<or> fct_name = ''main'' \<or>
     is_declaration (function_of_name M fct_name) \<or> HasAlreadyBeenIdentified_id cfi fct_name"

definition entry_line :: "string \<times> u32 \<times> string \<Rightarrow> string" where
  "entry_line = (\<lambda>(name, f_id, flags). name @ '' '' @ decimal (unat f_id) @ '' '' @ flags @ [newline])"

text \<open>One turn of the loop over \<open>_FunctionMap\<close>: the entry to write.\<close>

definition function_entry ::
    "bool \<Rightarrow> llvm_module \<Rightarrow> (string \<times> u32 \<times> string) list \<Rightarrow> control_flow_integrity \<Rightarrow> string \<times> CFIFct \<Rightarrow>
     (string \<times> u32 \<times> string) result" where
  "function_entry ndebug M oldMap cfi = (\<lambda>(fct_name, cfi_f).
     and_then
       (case map_of oldMap fct_name of Some (f_id, _) \<Rightarrow> c_assert ndebug (f_id = cf_id cfi_f) | None \<Rightarrow> Inr ()) (\<lambda>_.
     and_then (function_flags ndebug M oldMap cfi fct_name (cf_id cfi_f)) (\<lambda>(f_id, flags).
     Inr (fct_name, f_id, flags))))"

definition writeFunctionIDs ::
    "bool \<Rightarrow> hash_order \<Rightarrow> llvm_module \<Rightarrow> control_flow_integrity \<Rightarrow> file_system \<Rightarrow> file_system result" where
  "writeFunctionIDs ndebug order M cfi fs =
     (let es = (case contents fs (fun_id_file cfi) of None \<Rightarrow> [] | Some txt \<Rightarrow> fst (read_entries (open_in txt)));
          oldMap = fold (\<lambda>(fctName, e). AList.update fctName e) es []
      in and_then (map_result (function_entry ndebug M oldMap cfi) (iterate order (FunctionMap cfi))) (\<lambda>new.
         let kept = filter (\<lambda>e. \<not> (fst e \<in> fst ` set (FunctionMap cfi) \<and> already_added M cfi (fst e))) (iterate order oldMap)
         in write_file ndebug (fun_id_file cfi) (concat (map entry_line (new @ kept))) fs))"

section \<open>The call graph\<close>

definition callees_of_instr ::
    "llvm_module \<Rightarrow> control_flow_integrity \<Rightarrow> instr \<Rightarrow> u32 list result" where
  "callees_of_instr M cfi I =
     (case I of
        CallInst _ callee _ \<Rightarrow>
          (case callee of
             Inline_asm \<Rightarrow> Inr []
           | Indirect \<Rightarrow> Inl Fatal_error
           | Function CF \<Rightarrow>
               if isIgnoredFunction cfi CF then Inr []
               else if is_intrinsic M CF then Inr []
               else (case IdentifiedFunctions cfi CF of Some id_cf \<Rightarrow> Inr [id_cf] | None \<Rightarrow> Inr []))
      | _ \<Rightarrow> Inr [])"

definition callees_of_block :: "llvm_module \<Rightarrow> control_flow_integrity \<Rightarrow> basic_block \<Rightarrow> u32 list result" where
  "callees_of_block M cfi BB =
     and_then (map_result (callees_of_instr M cfi) (bb_instrs BB)) (\<lambda>css.
     if is_invoke (bb_term BB) then Inl Fatal_error else Inr (concat css))"

definition callees_of_function ::
    "llvm_module \<Rightarrow> control_flow_integrity \<Rightarrow> string \<times> CFIFct \<Rightarrow> (u32 \<times> u32) list result" where
  "callees_of_function M cfi = (\<lambda>(_, cfi_f).
     and_then (map_result (callees_of_block M cfi) (fn_blocks (function_of_name M (cf_fun cfi_f)))) (\<lambda>css.
     Inr (map (Pair (cf_id cfi_f)) (concat css))))"

text \<open>A \<open>std::map\<close> of \<open>std::set\<close>s of \<open>int\<close>: ordered, without duplicates.\<close>

definition map_of_sets :: "(int \<times> int) list \<Rightarrow> (int \<times> int list) list" where
  "map_of_sets edges =
     map (\<lambda>k. (k, sort (remdups (map snd (filter (\<lambda>e. fst e = k) edges))))) (sort (remdups (map fst edges)))"

definition callgraph_line :: "int \<times> int list \<Rightarrow> string" where
  "callgraph_line = (\<lambda>(k, cs). ''('' @ decimal_int k @ '') '' @ concat (map (\<lambda>c. decimal_int c @ '' '') cs) @ [newline])"

definition writeCallgraph :: "hash_order \<Rightarrow> llvm_module \<Rightarrow> control_flow_integrity \<Rightarrow> string result" where
  "writeCallgraph order M cfi =
     and_then (map_result (callees_of_function M cfi) (iterate order (FunctionMap cfi))) (\<lambda>ess.
     Inr (concat (map callgraph_line (map_of_sets (map (\<lambda>(i, j). (sint i, sint j)) (concat ess))))))"

section \<open>The control-flow graphs\<close>

text \<open>\<open>bb_map[BB]\<close>, which is 0 for a block without a number.\<close>

definition bb_number :: "(nat \<times> u32) list \<Rightarrow> nat \<Rightarrow> u32" where
  "bb_number bb_map i = (case map_of bb_map i of Some n \<Rightarrow> n | None \<Rightarrow> 0)"

definition bb_line :: "(nat \<times> u32) list \<Rightarrow> nat \<times> basic_block \<Rightarrow> string" where
  "bb_line bb_map = (\<lambda>(i, BB).
     (if successors (bb_term BB) = [] then []
      else ''('' @ decimal (unat (bb_number bb_map i)) @ '') '' @
        concat (map (\<lambda>s. decimal (unat (bb_number bb_map s)) @ '' '') (successors (bb_term BB))) @ [newline]))"

definition function_blocks_text :: "llvm_module \<Rightarrow> control_flow_integrity \<Rightarrow> string \<times> CFIFct \<Rightarrow> string" where
  "function_blocks_text M cfi = (\<lambda>(_, cfi_f).
     let F = function_of_name M (cf_fun cfi_f); numBB = length (fn_blocks F) in
     if isIgnoredFunction cfi (fn_name F) then []
     else if isIgnoredBlocksFunction cfi (fn_name F) then []
     else if is_declaration F then []
     else '';{'' @ decimal (unat (cf_id cfi_f)) @ ''} '' @ decimal numBB @ [newline] @
       (if numBB = 1 then []
        else concat (map (bb_line (cf_bb_map cfi_f)) (enumerate 0 (fn_blocks F))) @ [newline]))"

definition writeAllowedBBTrans :: "hash_order \<Rightarrow> llvm_module \<Rightarrow> control_flow_integrity \<Rightarrow> string" where
  "writeAllowedBBTrans order M cfi = concat (map (function_blocks_text M cfi) (iterate order (FunctionMap cfi)))"

definition BASICBLOCK :: int where
  "BASICBLOCK = 1"

definition writeTransToFile ::
    "bool \<Rightarrow> hash_order \<Rightarrow> int \<Rightarrow> llvm_module \<Rightarrow> control_flow_integrity \<Rightarrow> file_system \<Rightarrow> file_system result" where
  "writeTransToFile ndebug order level M cfi fs =
     and_then (c_assert ndebug (writable fs (transTableFile cfi))) (\<lambda>_.
     and_then (writeCallgraph order M cfi) (\<lambda>txt.
     and_then (append_file ndebug (transTableFile cfi) txt fs) (\<lambda>fs.
     if level = BASICBLOCK then append_file ndebug (transTableBBFile cfi) (writeAllowedBBTrans order M cfi) fs
     else Inr fs)))"

section \<open>Post-dominators\<close>

text \<open>
  \<open>PDT F b c\<close> is the nearest common post-dominator of two blocks of \<open>F\<close> in LLVM's tree, \<open>None\<close> when
  there is none.
\<close>

type_synonym post_dominators = "string \<Rightarrow> nat \<Rightarrow> nat \<Rightarrow> nat option"

fun common_post_dominator :: "(nat \<Rightarrow> nat \<Rightarrow> nat option) \<Rightarrow> nat \<Rightarrow> nat list \<Rightarrow> nat option" where
  "common_post_dominator ncd posdom [] = Some posdom"
| "common_post_dominator ncd posdom (su2 # ss) =
     (case ncd posdom su2 of None \<Rightarrow> None | Some posdom \<Rightarrow> common_post_dominator ncd posdom ss)"

definition ipdom_line ::
    "bool \<Rightarrow> post_dominators \<Rightarrow> control_flow_integrity \<Rightarrow> llvm_function \<Rightarrow> (nat \<times> u32) list \<Rightarrow> nat \<times> basic_block \<Rightarrow>
     string result" where
  "ipdom_line ndebug PDT cfi F bb_map = (\<lambda>(i, bb).
     if is_invoke (bb_term bb) then Inl Fatal_error
     else let posdom = (case successors (bb_term bb) of [] \<Rightarrow> None
                        | s # ss \<Rightarrow> common_post_dominator (PDT (fn_name F)) s ss)
     in and_then (getIdentifier ndebug cfi (fn_name F)) (\<lambda>f_id.
       Inr (decimal_int (sint f_id) @ '' '' @ decimal (unat (bb_number bb_map i)) @ '' '' @
         (case posdom of Some p \<Rightarrow> decimal (unat (bb_number bb_map p)) @ '' '' | None \<Rightarrow> ''0 '') @
         decimal (unat (bb_number bb_map (length (fn_blocks F) - 1))) @ [newline])))"

definition function_ipdom_text ::
    "bool \<Rightarrow> post_dominators \<Rightarrow> llvm_module \<Rightarrow> control_flow_integrity \<Rightarrow> string \<times> CFIFct \<Rightarrow> string result" where
  "function_ipdom_text ndebug PDT M cfi = (\<lambda>(_, cfi_f).
     let F = function_of_name M (cf_fun cfi_f) in
     if is_declaration F then Inr []
     else if isIgnoredFunction cfi (fn_name F) then Inr []
     else if isIgnoredBlocksFunction cfi (fn_name F) then Inr []
     else and_then (map_result (ipdom_line ndebug PDT cfi F (cf_bb_map cfi_f)) (enumerate 0 (fn_blocks F))) (\<lambda>ls.
       Inr (concat ls)))"

definition writeIPDOMToFile ::
    "bool \<Rightarrow> hash_order \<Rightarrow> post_dominators \<Rightarrow> llvm_module \<Rightarrow> control_flow_integrity \<Rightarrow> file_system \<Rightarrow> file_system result" where
  "writeIPDOMToFile ndebug order PDT M cfi fs =
     and_then (c_assert ndebug (writable fs (ipdom_file cfi))) (\<lambda>_.
     and_then (map_result (function_ipdom_text ndebug PDT M cfi) (iterate order (FunctionMap cfi))) (\<lambda>txts.
     append_file ndebug (ipdom_file cfi) (concat txts) fs))"

section \<open>Annotations, constructors and destructors\<close>

definition ANNOTATION_IGNORE_BLOCK :: string where
  "ANNOTATION_IGNORE_BLOCK = ''cfi_ignore_blocks''"

fun operands :: "llvm_constant \<Rightarrow> llvm_constant list" where
  "operands (Const_expr _ ops) = ops"
| "operands (Const_struct ops) = ops"
| "operands (Const_array ops) = ops"
| "operands (Const_global init) = (case init of None \<Rightarrow> [] | Some c \<Rightarrow> [c])"
| "operands _ = []"

definition get_operand :: "llvm_constant \<Rightarrow> nat \<Rightarrow> llvm_constant result" where
  "get_operand c i = (if i < length (operands c) then Inr (operands c ! i) else Inl Undefined_behaviour)"

text \<open>The function an entry names, its casts stripped off.\<close>

fun stripped_function :: "llvm_constant \<Rightarrow> string result" where
  "stripped_function (Const_function F) = Inr F"
| "stripped_function (Const_expr is_cast ops) =
     and_then (if is_cast then get_operand (Const_expr is_cast ops) 0 else Inr (Const_expr is_cast ops)) (\<lambda>FP.
     case FP of Const_function F \<Rightarrow> Inr F | _ \<Rightarrow> Inl Fatal_error)"
| "stripped_function _ = Inl Fatal_error"

fun struct_operand :: "nat \<Rightarrow> llvm_constant \<Rightarrow> llvm_constant result" where
  "struct_operand i (Const_struct ops) = get_operand (Const_struct ops) i"
| "struct_operand i _ = Inl Fatal_error"

text \<open>The text of an annotation, behind the casts and the address computation.\<close>

definition annotation_text :: "llvm_constant \<Rightarrow> string result" where
  "annotation_text SP =
     (case SP of
        Const_expr is_cast _ \<Rightarrow>
          and_then (if is_cast then get_operand SP 0 else Inr SP) (\<lambda>SP.
          and_then (get_operand SP 0) (\<lambda>V.
          case V of
            Const_global init \<Rightarrow> (case init of Some (Const_data s) \<Rightarrow> Inr s | _ \<Rightarrow> Inl Undefined_behaviour)
          | _ \<Rightarrow> Inl Fatal_error))
      | _ \<Rightarrow> Inl Fatal_error)"

text \<open>The entries of an initialiser; the first null entry ends the list.\<close>

fun parse_annotations :: "llvm_constant list \<Rightarrow> string set \<Rightarrow> string set result" where
  "parse_annotations [] ignored = Inr ignored"
| "parse_annotations (Op # Ops) ignored =
     and_then (struct_operand 0 Op) (\<lambda>FP.
     if FP = Const_null then Inr ignored
     else and_then (stripped_function FP) (\<lambda>F.
     and_then (struct_operand 1 Op) (\<lambda>SP.
     if SP = Const_null then Inr ignored
     else and_then (annotation_text SP) (\<lambda>s.
     parse_annotations Ops (if s = ANNOTATION_IGNORE_BLOCK then insert F ignored else ignored)))))"

fun array_entries :: "llvm_constant \<Rightarrow> llvm_constant list result" where
  "array_entries (Const_array ops) = Inr ops"
| "array_entries _ = Inl Fatal_error"

definition ParseAnnotations :: "llvm_module \<Rightarrow> control_flow_integrity \<Rightarrow> control_flow_integrity result" where
  "ParseAnnotations M cfi =
     (case m_globals M ''llvm.global.annotations'' of None \<Rightarrow> Inr cfi
      | Some gv \<Rightarrow>
        (case gv_initializer gv of None \<Rightarrow> Inr cfi
         | Some c \<Rightarrow>
           and_then (array_entries c) (\<lambda>CA.
           and_then (parse_annotations CA (IgnoredBlocksFunctions cfi)) (\<lambda>ignored.
           if 0 < gv_uses gv then Inl Fatal_error else Inr (cfi\<lparr>IgnoredBlocksFunctions := ignored\<rparr>)))))"

text \<open>
  The functions of a list of constructors or destructors are taken off the list, exported to the
  other units and hidden from other modules: the wrappers of the prelink script call them.
\<close>

definition patch_function :: "llvm_function \<Rightarrow> llvm_function" where
  "patch_function F = (if fn_local F then F\<lparr>fn_local := False\<rparr> else F)\<lparr>fn_hidden := True\<rparr>"

fun patch_functions :: "llvm_constant list \<Rightarrow> string set \<times> llvm_module \<Rightarrow> (string set \<times> llvm_module) result" where
  "patch_functions [] s = Inr s"
| "patch_functions (Op # Ops) s =
     and_then (struct_operand 1 Op) (\<lambda>FP.
     if FP = Const_null then Inr s
     else and_then (stripped_function FP) (\<lambda>F.
     patch_functions Ops (insert F (fst s), update_function patch_function F (snd s))))"

definition patch_global :: "string \<Rightarrow> string set \<Rightarrow> llvm_module \<Rightarrow> (string set \<times> llvm_module) result" where
  "patch_global name known M =
     (case m_globals M name of None \<Rightarrow> Inr (known, M)
      | Some gv \<Rightarrow>
        (case gv_initializer gv of None \<Rightarrow> Inr (known, M)
         | Some c \<Rightarrow>
           and_then (array_entries c) (\<lambda>CA.
           and_then (patch_functions CA (known, M)) (\<lambda>(known, M).
           if 0 < gv_uses gv then Inl Fatal_error
           else Inr (known, M\<lparr>m_globals := (m_globals M)(name := None)\<rparr>)))))"

definition PatchCtorFunctions ::
    "control_flow_integrity \<times> llvm_module \<Rightarrow> (control_flow_integrity \<times> llvm_module) result" where
  "PatchCtorFunctions = (\<lambda>(cfi, M).
     and_then (patch_global ''llvm.global_ctors'' (InitFunctions cfi) M) (\<lambda>(inits, M).
     Inr (cfi\<lparr>InitFunctions := inits\<rparr>, M)))"

definition PatchDtorFunctions ::
    "control_flow_integrity \<times> llvm_module \<Rightarrow> (control_flow_integrity \<times> llvm_module) result" where
  "PatchDtorFunctions = (\<lambda>(cfi, M).
     and_then (patch_global ''llvm.global_dtors'' (FiniFunctions cfi) M) (\<lambda>(finis, M).
     Inr (cfi\<lparr>FiniFunctions := finis\<rparr>, M)))"

section \<open>Entries of the table of numbers\<close>

definition entry_ok :: "string \<times> u32 \<times> string \<Rightarrow> bool" where
  "entry_ok = (\<lambda>(name, _, flags). is_word name \<and> is_word flags)"

text \<open>The loop only ends on a stream that has failed.\<close>

lemma read_entries_fails: "is_fail (snd (read_entries st))"
proof (induction st rule: read_entries.induct)
  case (1 st)
  then show ?case by (subst read_entries.simps) (auto simp: Let_def split: prod.splits)
qed

lemma read_entries_space: "is_space c \<Longrightarrow> read_entries (open_in (c # t)) = read_entries (open_in t)"
  by (subst (1 2) read_entries.simps) simp

lemma read_entries_end: "fst (read_entries (open_in [])) = []"
proof -
  have "is_fail (snd (get_word (open_in [])))"
    by (simp add: get_word_def sentry_def good_def)
  then have "is_fail (snd (get_word (snd (get_u32 (snd (get_word (open_in [])))))))" using failed_stream by blast
  then show ?thesis by (subst read_entries.simps) (simp add: Let_def case_prod_unfold)
qed

lemma read_entries_line:
  assumes "entry_ok e"
  shows "read_entries (open_in (entry_line e @ t)) = (let (es, st) = read_entries (open_in t) in (e # es, st))"
proof -
  obtain name i flags where e: "e = (name, i, flags)" by (metis surj_pair)
  have w: "is_word name" "is_word flags" using assms by (simp_all add: entry_ok_def e)
  let ?u = "CHR '' '' # flags @ newline # t"
  let ?t = "CHR '' '' # decimal (unat i) @ ?u"
  have s: "entry_line e @ t = name @ ?t" by (simp add: entry_line_def e)
  have "get_word (open_in (name @ ?t)) = (name, open_in ?t)" using w(1) by (rule get_word_word) simp
  moreover have "get_u32 (open_in ?t) = (i, open_in ?u)"
    using get_u32_decimal [of "unat i" "CHR '' ''"] unat_u32_less [of i] by simp
  moreover have "get_word (open_in ?u) = (flags, open_in (newline # t))"
    using get_word_word [OF w(2), of newline t] by simp
  moreover have "\<not> is_fail (open_in (newline # t))" by (simp add: open_in_def)
  ultimately show ?thesis unfolding s by (subst read_entries.simps) (simp add: e read_entries_space)
qed

lemma read_entries_lines_junk:
  assumes "list_all entry_ok es"
  shows "fst (read_entries (open_in (concat (map entry_line es) @ junk))) = es @ fst (read_entries (open_in junk))"
  using assms
proof (induction es)
  case (Cons e es)
  then show ?case using read_entries_line [of e] by (simp add: case_prod_unfold Let_def)
qed simp

lemma read_entries_lines:
  assumes "list_all entry_ok es"
  shows "fst (read_entries (open_in (concat (map entry_line es)))) = es"
  using read_entries_lines_junk [OF assms, of "[]"] by (simp add: read_entries_end)

lemma entry_line_not_Nil [simp]: "entry_line e \<noteq> []"
  by (simp add: entry_line_def split_beta)

section \<open>Patched units\<close>

text \<open>Two units with the same code: the same functions but for their visibility.\<close>

definition same_code :: "llvm_module \<Rightarrow> llvm_module \<Rightarrow> bool" where
  "same_code M M' \<longleftrightarrow> is_intrinsic M' = is_intrinsic M \<and> is_dbg M' = is_dbg M \<and>
     list_all2 (\<lambda>F F'. fn_name F' = fn_name F \<and> fn_blocks F' = fn_blocks F) (m_functions M) (m_functions M')"

lemma same_code_refl [simp]: "same_code M M"
  by (simp add: same_code_def list_all2_refl)

lemma same_code_trans: "same_code M1 M2 \<Longrightarrow> same_code M2 M3 \<Longrightarrow> same_code M1 M3"
  unfolding same_code_def by (auto elim: list_all2_trans [rotated])

lemma same_code_patch: "same_code M (update_function patch_function F M)"
  by (auto simp: same_code_def update_function_def patch_function_def list_all2_map2 intro!: list_all2_refl)

lemma patch_functions_code: "patch_functions Ops s = Inr s' \<Longrightarrow> same_code (snd s) (snd s')"
proof (induction Ops s rule: patch_functions.induct)
  case (2 Op Ops s)
  obtain FP where FP: "struct_operand 1 Op = Inr FP" using "2.prems" by (auto simp: results)
  show ?case
  proof (cases "FP = Const_null")
    case True
    then show ?thesis using "2.prems" FP by simp
  next
    case False
    then obtain F where "stripped_function FP = Inr F" using "2.prems" FP by (auto simp: results)
    then show ?thesis
      using "2.IH" [OF False] "2.prems" FP False same_code_trans [OF same_code_patch] by fastforce
  qed
qed simp

lemma patch_global_code: "patch_global name known M = Inr (known', M') \<Longrightarrow> same_code M M'"
  by (auto simp: patch_global_def results same_code_def list_all2_refl dest!: patch_functions_code
      split: option.splits prod.splits if_splits)

text \<open>What the two patches leave of the state of the pass.\<close>

lemma patched_unit:
  assumes "PatchCtorFunctions (cfi, M) = Inr s" "PatchDtorFunctions s = Inr (cfi', M')"
  shows "\<exists>inits finis. cfi' = cfi\<lparr>InitFunctions := inits, FiniFunctions := finis\<rparr> \<and> same_code M M'"
proof -
  obtain inits M1 finis where p: "patch_global ''llvm.global_ctors'' (InitFunctions cfi) M = Inr (inits, M1)"
      "patch_global ''llvm.global_dtors'' (FiniFunctions cfi) M1 = Inr (finis, M')"
      "cfi' = cfi\<lparr>InitFunctions := inits, FiniFunctions := finis\<rparr>"
    using assms by (auto simp: PatchCtorFunctions_def PatchDtorFunctions_def results)
  show ?thesis
    using same_code_trans [OF patch_global_code [OF p(1)] patch_global_code [OF p(2)]] p(3) by blast
qed

end
