(* ===== verification/Cfi_Injector.thy ===== *)
theory Cfi_Injector
  imports Cfi_Pass
begin

text \<open>
  The class \<open>injectorCFI\<close> (\<open>llvm_pass/CFI/CFIInjector.cpp\<close>), which puts the calls of the hooks into the
  functions of a unit, and the pass itself (\<open>CFIModulePass.cpp\<close>).
\<close>

section \<open>Prototypes\<close>

text \<open>The declarations of the hooks, in the order they are created.\<close>

definition prototypes :: "string list" where
  "prototypes =
     [''__FORK_WRAPPER'', ''__CFI_INTERNAL_BB_AFTER_BR'', ''__CFI_INTERNAL_BB_BEFORE_BR'', ''__CFI_INTERNAL_ENTER'',
      ''__CFI_INTERNAL_EXIT'', ''__CFI_INTERNAL_CALL'', ''__CFI_INTERNAL_RETURNED'', ''__CFI_INTERNAL_FORK_SON'']"

definition injectPrototype :: "llvm_module \<Rightarrow> llvm_module" where
  "injectPrototype M = fold create_function prototypes M"

definition hook_call :: "string \<Rightarrow> operand list \<Rightarrow> instr" where
  "hook_call name args = CallInst [] (Function name) args"

definition needs :: "bool \<Rightarrow> llvm_module \<Rightarrow> string \<Rightarrow> unit result" where
  "needs ndebug M name = c_assert ndebug (get_function M name \<noteq> None)"

section \<open>Entries and exits\<close>

definition returnaddress_call :: "string \<Rightarrow> instr" where
  "returnaddress_call result = CallInst result (Function ''llvm.returnaddress'') [Const_int 0]"

text \<open>Where instructions may be put in: after the leading phi nodes of a block.\<close>

definition insert_first :: "instr list \<Rightarrow> basic_block \<Rightarrow> basic_block" where
  "insert_first xs BB =
     BB\<lparr>bb_instrs := takeWhile (\<lambda>I. I = PHINode) (bb_instrs BB) @ xs @ dropWhile (\<lambda>I. I = PHINode) (bb_instrs BB)\<rparr>"

definition insert_last :: "instr list \<Rightarrow> basic_block \<Rightarrow> basic_block" where
  "insert_last xs BB = BB\<lparr>bb_instrs := bb_instrs BB @ xs\<rparr>"

definition with_blocks_of :: "(basic_block list \<Rightarrow> basic_block list) \<Rightarrow> llvm_function \<Rightarrow> llvm_function" where
  "with_blocks_of f F = F\<lparr>fn_blocks := f (fn_blocks F)\<rparr>"

definition injectMentry :: "bool \<Rightarrow> string \<Rightarrow> u32 \<Rightarrow> llvm_module \<Rightarrow> llvm_module result" where
  "injectMentry ndebug F FctID M =
     and_then (needs ndebug M ''__CFI_INTERNAL_ENTER'') (\<lambda>_.
     Inr (update_function (with_blocks_of (\<lambda>bs. bs[0 := insert_first
         [returnaddress_call ''saved_retaddr_prolog'',
          hook_call ''__CFI_INTERNAL_ENTER'' [Const_int FctID, Value ''saved_retaddr_prolog'']] (bs ! 0)])) F
       (create_function ''llvm.returnaddress'' M)))"

definition injectMexit :: "bool \<Rightarrow> string \<Rightarrow> u32 \<Rightarrow> llvm_module \<Rightarrow> llvm_module result" where
  "injectMexit ndebug F FctID M =
     and_then (needs ndebug M ''__CFI_INTERNAL_EXIT'') (\<lambda>_.
     Inr (update_function (with_blocks_of (\<lambda>bs. bs[length bs - 1 := insert_last
         [returnaddress_call ''saved_retaddr_epilog'',
          hook_call ''__CFI_INTERNAL_EXIT'' [Const_int FctID, Value ''saved_retaddr_epilog'']] (bs ! (length bs - 1))])) F
       (create_function ''llvm.returnaddress'' M)))"

section \<open>Forks\<close>

text \<open>The first call of \<open>fork\<close> is replaced; an indirect call before it is followed through a null pointer.\<close>

fun replace_fork :: "instr list \<Rightarrow> (bool \<times> instr list) result" where
  "replace_fork [] = Inr (False, [])"
| "replace_fork (CallInst r Indirect args # Is) = Inl Undefined_behaviour"
| "replace_fork (CallInst r Inline_asm args # Is) = Inl Undefined_behaviour"
| "replace_fork (CallInst r (Function f) args # Is) =
     (if f = ''fork'' then Inr (True, CallInst r (Function ''__FORK_WRAPPER'') [Const_int 42] # Is)
      else and_then (replace_fork Is) (\<lambda>(found, Js). Inr (found, CallInst r (Function f) args # Js)))"
| "replace_fork (I # Is) = and_then (replace_fork Is) (\<lambda>(found, Js). Inr (found, I # Js))"

fun replace_fork_blocks :: "basic_block list \<Rightarrow> basic_block list result" where
  "replace_fork_blocks [] = Inr []"
| "replace_fork_blocks (BB # BBs) =
     and_then (replace_fork (bb_instrs BB)) (\<lambda>(found, Js).
     if found then Inr (BB\<lparr>bb_instrs := Js\<rparr> # BBs)
     else and_then (replace_fork_blocks BBs) (\<lambda>BBs. Inr (BB # BBs)))"

definition injectForkSon :: "string \<Rightarrow> llvm_module \<Rightarrow> llvm_module result" where
  "injectForkSon F M =
     and_then (replace_fork_blocks (fn_blocks (function_of_name M F))) (\<lambda>BBs.
     Inr (update_function (with_blocks_of (\<lambda>_. BBs)) F M))"

section \<open>Calls\<close>

text \<open>
  The instructions of a block from the first on. A call that is announced leaves its callee
  pending; the announcement of its return goes before the next instruction, whatever it is.
\<close>

definition returned_hook :: "bool \<Rightarrow> control_flow_integrity \<Rightarrow> string option \<Rightarrow> instr list result" where
  "returned_hook ndebug cfi pending =
     (case pending of None \<Rightarrow> Inr []
      | Some NF \<Rightarrow> and_then (getIdentifier ndebug cfi NF) (\<lambda>f_id. Inr [hook_call ''__CFI_INTERNAL_RETURNED'' [Const_int f_id]]))"

text \<open>What one instruction becomes, and the callee it leaves pending.\<close>

definition mcall_instr ::
    "bool \<Rightarrow> llvm_module \<Rightarrow> control_flow_integrity \<Rightarrow> instr \<Rightarrow> (instr list \<times> string option) result" where
  "mcall_instr ndebug M cfi I =
     (case I of
        CallInst r callee args \<Rightarrow>
          (case callee of
             Inline_asm \<Rightarrow> Inr ([I], None)
           | Indirect \<Rightarrow> Inl Fatal_error
           | Function NF \<Rightarrow>
               if is_intrinsic M NF then Inr ([I], None)
               else if isIgnoredFunction cfi NF then Inr ([I], None)
               else and_then (getIdentifier ndebug cfi NF) (\<lambda>f_id.
                 Inr ([hook_call ''__CFI_INTERNAL_CALL'' [Const_int f_id], I], Some NF)))
      | _ \<Rightarrow> Inr ([I], None))"

fun mcall_instrs ::
    "bool \<Rightarrow> llvm_module \<Rightarrow> control_flow_integrity \<Rightarrow> string option \<Rightarrow> instr list \<Rightarrow> instr list result" where
  "mcall_instrs ndebug M cfi pending [] = returned_hook ndebug cfi pending"
| "mcall_instrs ndebug M cfi pending (I # Is) =
     and_then (returned_hook ndebug cfi pending) (\<lambda>ret.
     and_then (mcall_instr ndebug M cfi I) (\<lambda>(Js, pending).
     and_then (mcall_instrs ndebug M cfi pending Is) (\<lambda>Ks. Inr (ret @ Js @ Ks))))"

definition mcall_block ::
    "bool \<Rightarrow> llvm_module \<Rightarrow> control_flow_integrity \<Rightarrow> basic_block \<Rightarrow> basic_block result" where
  "mcall_block ndebug M cfi BB =
     and_then (mcall_instrs ndebug M cfi None (bb_instrs BB)) (\<lambda>Is.
     and_then (c_assert ndebug (\<not> is_invoke (bb_term BB))) (\<lambda>_. Inr (BB\<lparr>bb_instrs := Is\<rparr>)))"

definition injectMcall ::
    "bool \<Rightarrow> control_flow_integrity \<Rightarrow> string \<Rightarrow> llvm_module \<Rightarrow> llvm_module result" where
  "injectMcall ndebug cfi F M =
     and_then (needs ndebug M ''__CFI_INTERNAL_CALL'') (\<lambda>_.
     and_then (needs ndebug M ''__CFI_INTERNAL_RETURNED'') (\<lambda>_.
     if isIgnoredFunction cfi F then Inr M
     else and_then (map_result (mcall_block ndebug M cfi) (fn_blocks (function_of_name M F))) (\<lambda>BBs.
       Inr (update_function (with_blocks_of (\<lambda>_. BBs)) F M))))"

section \<open>Blocks\<close>

definition is_phi_or_dbg :: "llvm_module \<Rightarrow> instr \<Rightarrow> bool" where
  "is_phi_or_dbg M I =
     (case I of PHINode \<Rightarrow> True | CallInst _ (Function f) _ \<Rightarrow> is_dbg M f | _ \<Rightarrow> False)"

definition insert_nonphi :: "llvm_module \<Rightarrow> instr list \<Rightarrow> basic_block \<Rightarrow> basic_block" where
  "insert_nonphi M xs BB =
     BB\<lparr>bb_instrs := takeWhile (is_phi_or_dbg M) (bb_instrs BB) @ xs @ dropWhile (is_phi_or_dbg M) (bb_instrs BB)\<rparr>"

text \<open>Every block but the first announces that it was entered.\<close>

definition injectBBEnter ::
    "bool \<Rightarrow> control_flow_integrity \<Rightarrow> string \<Rightarrow> llvm_module \<Rightarrow> llvm_module result" where
  "injectBBEnter ndebug cfi F M =
     and_then (needs ndebug M ''__CFI_INTERNAL_BB_AFTER_BR'') (\<lambda>_.
     and_then (map_result (\<lambda>(idBB, BB).
         if idBB = 0 then Inr BB
         else and_then (getIdentifier ndebug cfi F) (\<lambda>f_id.
           Inr (insert_nonphi M [hook_call ''__CFI_INTERNAL_BB_AFTER_BR'' [Const_int f_id, Const_int (of_nat idBB)]] BB)))
       (enumerate 0 (fn_blocks (function_of_name M F)))) (\<lambda>BBs.
     Inr (update_function (with_blocks_of (\<lambda>_. BBs)) F M)))"

text \<open>Every block but the last announces that it is left.\<close>

definition injectBBLeave ::
    "bool \<Rightarrow> control_flow_integrity \<Rightarrow> string \<Rightarrow> llvm_module \<Rightarrow> llvm_module result" where
  "injectBBLeave ndebug cfi F M =
     and_then (needs ndebug M ''__CFI_INTERNAL_BB_BEFORE_BR'') (\<lambda>_.
     and_then (map_result (\<lambda>(idBB, BB).
         if idBB = length (fn_blocks (function_of_name M F)) - 1 then Inr BB
         else and_then (getIdentifier ndebug cfi F) (\<lambda>f_id.
           Inr (insert_last [hook_call ''__CFI_INTERNAL_BB_BEFORE_BR'' [Const_int f_id, Const_int (of_nat idBB)]] BB)))
       (enumerate 0 (fn_blocks (function_of_name M F)))) (\<lambda>BBs.
     Inr (update_function (with_blocks_of (\<lambda>_. BBs)) F M)))"

section \<open>The injection\<close>

definition inject_function ::
    "bool \<Rightarrow> control_flow_integrity \<Rightarrow> int \<Rightarrow> string \<times> CFIFct \<Rightarrow> llvm_module \<Rightarrow> llvm_module result" where
  "inject_function ndebug cfi level = (\<lambda>(_, cfi_f) M.
     let F = cf_fun cfi_f in
     and_then (injectMcall ndebug cfi F M) (\<lambda>M.
     if is_declaration (function_of_name M F) then Inr M
     else and_then
       (if level = BASICBLOCK \<and> \<not> isIgnoredBlocksFunction cfi F
        then and_then (injectBBEnter ndebug cfi F M) (injectBBLeave ndebug cfi F) else Inr M) (\<lambda>M.
     and_then (injectMentry ndebug F (cf_id cfi_f) M) (injectMexit ndebug F (cf_id cfi_f)))))"

definition InjectCode ::
    "bool \<Rightarrow> hash_order \<Rightarrow> control_flow_integrity \<Rightarrow> int \<Rightarrow> llvm_module \<Rightarrow> llvm_module result" where
  "InjectCode ndebug order cfi level M =
     fold_result (inject_function ndebug cfi level) (iterate order (FunctionMap cfi)) (injectPrototype M)"

section \<open>The pass\<close>

text \<open>
  The options of the command line. The lock file is opened and locked with the results \<open>lock_fd\<close> and
  \<open>lock_rc\<close>; the assertions that report a failure hold exactly when there is one.
\<close>

record pass_options =
  cfi_level :: int
  cfi_prefix :: string
  cfi_ignore :: string
  lock_fd :: int
  lock_rc :: int

definition runOnModule ::
    "bool \<Rightarrow> hash_order \<Rightarrow> post_dominators \<Rightarrow> pass_options \<Rightarrow> llvm_module \<Rightarrow> file_system \<Rightarrow>
     (llvm_module \<times> file_system) result" where
  "runOnModule ndebug order PDT opts M fs =
     and_then (if lock_fd opts < 0 then c_assert ndebug (lock_fd opts < 0) else Inr ()) (\<lambda>_.
     and_then (if lock_rc opts < 0 then c_assert ndebug (lock_rc opts < 0) else Inr ()) (\<lambda>_.
     and_then (ControlFlowIntegrity ndebug fs (cfi_prefix opts @ ''.fctid'') (cfi_prefix opts @ ''.ipdom'')
         (cfi_prefix opts @ ''.trans'') (cfi_prefix opts @ ''.bbtrans'') (cfi_ignore opts)) (\<lambda>RCFI.
     and_then (ParseAnnotations M RCFI) (\<lambda>RCFI.
     and_then (IdentifyFunctions ndebug fs M RCFI) (\<lambda>RCFI.
     and_then (PatchCtorFunctions (RCFI, M)) (\<lambda>s.
     and_then (PatchDtorFunctions s) (\<lambda>(RCFI, M).
     and_then (writeTransToFile ndebug order (cfi_level opts) M RCFI fs) (\<lambda>fs.
     and_then (writeFunctionIDs ndebug order M RCFI fs) (\<lambda>fs.
     and_then (writeIPDOMToFile ndebug order PDT M RCFI fs) (\<lambda>fs.
     and_then (InjectCode ndebug order RCFI (cfi_level opts) M) (\<lambda>M.
     Inr (M, fs))))))))))))"

end
