(* ===== verification/Instrumented_Run.thy ===== *)
theory Instrumented_Run
  imports Cfi_Injector Client Cfi_Grammar
begin

text \<open>
  What an instrumented program does: the paths it takes through the blocks of its functions and the
  hooks it calls on the way. A complete run of a function instrumented by the pass announces
  events that form an activation of that function, when the tables allow the calls and jumps
  of its code.
\<close>

section \<open>Runs\<close>

text \<open>The hook an injected call stands for.\<close>

definition hook_of :: "string \<Rightarrow> operand list \<Rightarrow> hook option" where
  "hook_of name args =
     (case args of
        [Const_int f] \<Rightarrow>
          if name = ''__CFI_INTERNAL_CALL'' then Some (Call f)
          else if name = ''__CFI_INTERNAL_RETURNED'' then Some (Returned f) else None
      | [Const_int f, Value _] \<Rightarrow>
          if name = ''__CFI_INTERNAL_ENTER'' then Some (Enter f)
          else if name = ''__CFI_INTERNAL_EXIT'' then Some (Leave f) else None
      | [Const_int f, Const_int b] \<Rightarrow>
          if name = ''__CFI_INTERNAL_BB_BEFORE_BR'' then Some (Before_br f b)
          else if name = ''__CFI_INTERNAL_BB_AFTER_BR'' then Some (After_br f b) else None
      | _ \<Rightarrow> None)"

text \<open>The functions that are defined in the program. Any other function does not report anything.\<close>

type_synonym program = "string \<Rightarrow> llvm_function option"

definition silent :: "program \<Rightarrow> instr \<Rightarrow> bool" where
  "silent P I \<longleftrightarrow>
     (case I of
        CallInst _ (Function g) args \<Rightarrow> P g = None \<and> hook_of g args = None
      | CallInst _ Indirect _ \<Rightarrow> False
      | _ \<Rightarrow> True)"

text \<open>\<open>R g us\<close>: a complete run of \<open>g\<close> reports \<open>us\<close>.\<close>

inductive exec :: "(string \<Rightarrow> hook list \<Rightarrow> bool) \<Rightarrow> program \<Rightarrow> instr list \<Rightarrow> hook list \<Rightarrow> bool" for R P where
  exec_Nil: "exec R P [] []"
| exec_silent: "silent P I \<Longrightarrow> exec R P Is hs \<Longrightarrow> exec R P (I # Is) hs"
| exec_hook: "P g = None \<Longrightarrow> hook_of g args = Some h \<Longrightarrow> exec R P Is hs \<Longrightarrow>
    exec R P (CallInst r (Function g) args # Is) (h # hs)"
| exec_call: "P g \<noteq> None \<Longrightarrow> R g us \<Longrightarrow> exec R P Is hs \<Longrightarrow>
    exec R P (CallInst r (Function g) args # Is) (us @ hs)"

inductive_simps exec_Nil_iff [simp]: "exec R P [] hs"
inductive_simps exec_Cons_iff: "exec R P (I # Is) hs"

inductive run_blocks ::
    "(string \<Rightarrow> hook list \<Rightarrow> bool) \<Rightarrow> program \<Rightarrow> basic_block list \<Rightarrow> nat \<Rightarrow> hook list \<Rightarrow> bool" for R P bs where
  run_ret: "i < length bs \<Longrightarrow> exec R P (bb_instrs (bs ! i)) hs \<Longrightarrow> bb_term (bs ! i) = Ret \<Longrightarrow> run_blocks R P bs i hs"
| run_branch: "i < length bs \<Longrightarrow> exec R P (bb_instrs (bs ! i)) us \<Longrightarrow> bb_term (bs ! i) = Branch ss \<Longrightarrow> s \<in> set ss \<Longrightarrow>
    run_blocks R P bs s vs \<Longrightarrow> run_blocks R P bs i (us @ vs)"

text \<open>Runs with at most \<open>n\<close> nested calls, and all runs.\<close>

primrec runs_upto :: "nat \<Rightarrow> program \<Rightarrow> string \<Rightarrow> hook list \<Rightarrow> bool" where
  "runs_upto 0 P f hs \<longleftrightarrow> False"
| "runs_upto (Suc n) P f hs \<longleftrightarrow> (\<exists>F. P f = Some F \<and> run_blocks (runs_upto n P) P (fn_blocks F) 0 hs)"

definition runs :: "program \<Rightarrow> string \<Rightarrow> hook list \<Rightarrow> bool" where
  "runs P f hs \<longleftrightarrow> (\<exists>n. runs_upto n P f hs)"

lemma exec_append: "exec R P (Is @ Js) hs \<longleftrightarrow> (\<exists>us vs. hs = us @ vs \<and> exec R P Is us \<and> exec R P Js vs)"
proof (induction Is arbitrary: hs)
  case (Cons I Is)
  show ?case by (auto simp: exec_Cons_iff Cons.IH) (metis append.assoc append_Cons)+
qed simp

lemma exec_all_silent:
  assumes "\<forall>I \<in> set Is. silent P I"
  shows "exec R P Is hs \<longleftrightarrow> hs = []"
  using assms by (induction Is arbitrary: hs) (auto simp: exec_Cons_iff silent_def)

lemma exec_hook_call:
  assumes "P g = None" "hook_of g args = Some h"
  shows "exec R P (hook_call g args # Is) hs \<longleftrightarrow> (\<exists>vs. hs = h # vs \<and> exec R P Is vs)"
  using assms by (auto simp: hook_call_def exec_Cons_iff silent_def)

section \<open>Announced calls\<close>

lemma hook_signal_events:
  "at_function CFI_ENTER m f (hook_signal m (Enter f))" "at_function CFI_EXIT m f (hook_signal m (Leave f))"
  "is_event CFI_CALL (hook_signal m (Call f))" "is_event CFI_RETURNED (hook_signal m (Returned f))"
  "at_function CFI_BEFORE_JUMP m f (hook_signal m (Before_br f b))"
  "at_function CFI_AFTER_JUMP m f (hook_signal m (After_br f b))"
  by (simp_all add: at_function_def is_event_def del: client_event_code.simps)

lemma body_append:
  assumes "body data m f b us c" "body data m f c vs d"
  shows "body data m f b (us @ vs) d"
  using assms
proof (induction m f b us c rule: body_activation.inducts(1) [where ?P2.0 = "\<lambda>_ _ _. True"])
  case (body_jump m f c1 b c2 cs b')
  then show ?case by (auto intro: body_activation.body_jump)
next
  case (body_call c1 m f m' f' us c2 b cs b')
  then have "body data m f b (c1 # us @ c2 # cs @ vs) d" by (intro body_activation.body_call) auto
  then show ?case by simp
qed simp_all

text \<open>
  What the code of a function asks of the tables: a call the pass looks at goes to a function of the
  program, whose number is a callee the tables allow and leads to itself; any other call leads
  out of the program.
\<close>

definition call_allowed ::
    "monitor_data \<Rightarrow> module_id \<Rightarrow> function_id \<Rightarrow> (string \<Rightarrow> function_id option) \<Rightarrow> program \<Rightarrow> (string \<Rightarrow> bool) \<Rightarrow> instr \<Rightarrow> bool" where
  "call_allowed data m f ids P watch I \<longleftrightarrow>
     (case I of
        CallInst _ (Function g) args \<Rightarrow>
          hook_of g args = None \<and>
          (if watch g
           then P g \<noteq> None \<and> (\<exists>i. ids g = Some i \<and> call_edge data m f i \<and> call_dest data m i = Some (m, i))
           else P g = None)
      | _ \<Rightarrow> True)"

definition watch :: "llvm_module \<Rightarrow> control_flow_integrity \<Rightarrow> string \<Rightarrow> bool" where
  "watch M cfi g \<longleftrightarrow> \<not> is_intrinsic M g \<and> \<not> isIgnoredFunction cfi g"

definition callees_activate ::
    "monitor_data \<Rightarrow> module_id \<Rightarrow> control_flow_integrity \<Rightarrow> (string \<Rightarrow> hook list \<Rightarrow> bool) \<Rightarrow> bool" where
  "callees_activate data m cfi R \<longleftrightarrow>
     (\<forall>g i us. R g us \<and> IdentifiedFunctions cfi g = Some i \<longrightarrow> activation data m i (map (hook_signal m) us))"

lemma announced_calls:
  assumes callee: "callees_activate data m cfi R"
    and hooks: "P ''__CFI_INTERNAL_CALL'' = None" "P ''__CFI_INTERNAL_RETURNED'' = None"
    and "list_all (call_allowed data m f (IdentifiedFunctions cfi) P (watch M cfi)) Is"
    and "mcall_instrs ndebug M cfi pending Is = Inr Js" "exec R P Js hs"
    and "\<And>NF. pending = Some NF \<Longrightarrow> IdentifiedFunctions cfi NF \<noteq> None"
  shows "\<exists>vs. hs = (case pending of None \<Rightarrow> [] | Some NF \<Rightarrow> [Returned (the (IdentifiedFunctions cfi NF))]) @ vs \<and>
    body data m f b (map (hook_signal m) vs) b"
  using assms(4-)
proof (induction Is arbitrary: pending Js hs)
  case Nil
  then show ?case
    using hooks by (cases pending)
      (auto simp: returned_hook_def getIdentifier_def exec_hook_call hook_of_def intro: body_activation.body_done split: option.splits)
next
  case (Cons I Is)
  obtain ret Js1 p Ks where parts: "returned_hook ndebug cfi pending = Inr ret" "mcall_instr ndebug M cfi I = Inr (Js1, p)"
      "mcall_instrs ndebug M cfi p Is = Inr Ks" "Js = ret @ Js1 @ Ks"
    using Cons.prems(2) by (auto simp: results)
  obtain hs1 hs2 where hs: "hs = hs1 @ hs2" "exec R P ret hs1" "exec R P (Js1 @ Ks) hs2"
    using Cons.prems(3) unfolding parts(4) exec_append by blast
  have ret: "hs1 = (case pending of None \<Rightarrow> [] | Some NF \<Rightarrow> [Returned (the (IdentifiedFunctions cfi NF))])"
    using hs(2) parts(1) hooks(2) Cons.prems(4)
    by (cases pending) (auto simp: returned_hook_def getIdentifier_def exec_hook_call hook_of_def split: option.splits)
  have I: "call_allowed data m f (IdentifiedFunctions cfi) P (watch M cfi) I" using Cons.prems(1) by simp
  have "body data m f b (map (hook_signal m) hs2) b"
  proof (cases "\<exists>r g args. I = CallInst r (Function g) args \<and> watch M cfi g")
    case True
    then obtain r g args where g: "I = CallInst r (Function g) args" "watch M cfi g" by blast
    then obtain i where i: "P g \<noteq> None" "hook_of g args = None" "IdentifiedFunctions cfi g = Some i" "call_edge data m f i"
        "call_dest data m i = Some (m, i)"
      using I by (auto simp: call_allowed_def)
    then have p: "Js1 = [hook_call ''__CFI_INTERNAL_CALL'' [Const_int i], I]" "p = Some g"
      using parts(2) g by (auto simp: mcall_instr_def watch_def getIdentifier_def)
    have "exec R P (hook_call ''__CFI_INTERNAL_CALL'' [Const_int i] # I # Ks) hs2" using hs(3) by (simp add: p)
    then obtain ks2 where ks2: "hs2 = Call i # ks2" "exec R P (I # Ks) ks2"
      using exec_hook_call [of P "''__CFI_INTERNAL_CALL''" "[Const_int i]" "Call i"] hooks(1) by (auto simp: hook_of_def)
    then obtain us ks where "hs2 = Call i # us @ ks" "R g us" "exec R P Ks ks"
      using i(1,2) by (auto simp: g(1) exec_Cons_iff silent_def)
    moreover from this obtain vs where "ks = Returned i # vs" "body data m f b (map (hook_signal m) vs) b"
      using Cons.IH [OF _ parts(3)] Cons.prems(1) i(3) by (auto simp: p)
    moreover have "activation data m i (map (hook_signal m) us)" using callee \<open>R g us\<close> i(3) by (simp add: callees_activate_def)
    ultimately show ?thesis
      using i(4,5) hook_signal_events(3,4) [of m i] body_activation.body_call [of "hook_signal m (Call i)" data m f m i] by simp
  next
    case False
    then have p: "Js1 = [I]" "p = None"
      using parts(2) by (auto simp: mcall_instr_def watch_def split: instr.splits callee.splits if_splits)
    have "silent P I"
      using False I parts(2) by (auto simp: call_allowed_def silent_def mcall_instr_def split: instr.splits callee.splits if_splits)
    then have "exec R P Ks hs2" using hs(3) by (auto simp: p exec_Cons_iff silent_def)
    then show ?thesis using Cons.IH [OF _ parts(3)] Cons.prems(1) by (auto simp: p)
  qed
  then show ?case using hs(1) ret by simp
qed

section \<open>Instrumented blocks\<close>

text \<open>The code of block \<open>i\<close> of \<open>n\<close>, when \<open>Js\<close> is what the announcement of calls left of it.\<close>

definition instrumented_block :: "llvm_module \<Rightarrow> bool \<Rightarrow> function_id \<Rightarrow> nat \<Rightarrow> nat \<Rightarrow> instr list \<Rightarrow> instr list" where
  "instrumented_block M bb f n i Js =
     (let Js = (if bb \<and> i \<noteq> 0
                then takeWhile (is_phi_or_dbg M) Js @ [hook_call ''__CFI_INTERNAL_BB_AFTER_BR'' [Const_int f, Const_int (of_nat i)]] @
                  dropWhile (is_phi_or_dbg M) Js else Js);
          Js = (if bb \<and> i \<noteq> n - 1 then Js @ [hook_call ''__CFI_INTERNAL_BB_BEFORE_BR'' [Const_int f, Const_int (of_nat i)]] else Js);
          Js = (if i = 0
                then takeWhile (\<lambda>I. I = PHINode) Js @ [returnaddress_call ''saved_retaddr_prolog'',
                    hook_call ''__CFI_INTERNAL_ENTER'' [Const_int f, Value ''saved_retaddr_prolog'']] @
                  dropWhile (\<lambda>I. I = PHINode) Js else Js)
      in if i = n - 1
         then Js @ [returnaddress_call ''saved_retaddr_epilog'', hook_call ''__CFI_INTERNAL_EXIT'' [Const_int f, Value ''saved_retaddr_epilog'']]
         else Js)"

definition outside :: "program \<Rightarrow> llvm_module \<Rightarrow> bool" where
  "outside P M \<longleftrightarrow> (\<forall>g \<in> set prototypes. P g = None) \<and> P ''llvm.returnaddress'' = None \<and>
     (\<forall>g. is_dbg M g \<longrightarrow> P g = None \<and> g \<notin> set prototypes)"

lemma hook_of_None: "g \<notin> set prototypes \<Longrightarrow> hook_of g args = None"
  by (auto simp: hook_of_def prototypes_def split: list.splits operand.splits)

text \<open>An insertion behind silent instructions comes first in the report.\<close>

lemma exec_insert:
  assumes "\<And>I. Q I \<Longrightarrow> silent P I"
  shows "exec R P (takeWhile Q Js @ Is @ dropWhile Q Js) hs \<longleftrightarrow> (\<exists>us vs. hs = us @ vs \<and> exec R P Is us \<and> exec R P Js vs)"
proof -
  have "\<forall>I \<in> set (takeWhile Q Js). silent P I" using assms by (auto dest: set_takeWhileD)
  then have lead: "exec R P (takeWhile Q Js @ Ks) vs \<longleftrightarrow> exec R P Ks vs" for Ks vs
    by (simp add: exec_append exec_all_silent)
  have "exec R P Js vs \<longleftrightarrow> exec R P (dropWhile Q Js) vs" for vs
    using lead [of "dropWhile Q Js"] by simp
  then show ?thesis by (subst lead) (simp add: exec_append)
qed

lemma exec_returnaddress:
  "P ''llvm.returnaddress'' = None \<Longrightarrow> exec R P (returnaddress_call r # Is) hs \<longleftrightarrow> exec R P Is hs"
  by (auto simp: returnaddress_call_def exec_Cons_iff silent_def hook_of_def)

lemma exec_hook_single:
  assumes "outside P M" "g \<in> set prototypes" "hook_of g args = Some h"
  shows "exec R P [hook_call g args] hs \<longleftrightarrow> hs = [h]"
  using assms exec_hook_call [of P g args h R "[]" hs] by (auto simp: outside_def)

lemma exec_instrumented_block:
  assumes "outside P M" "exec R P (instrumented_block M bb f n i Js) hs"
  shows "\<exists>mid. exec R P Js mid \<and>
    hs = (if i = 0 then [Enter f] else []) @ (if bb \<and> i \<noteq> 0 then [After_br f (of_nat i)] else []) @ mid @
      (if bb \<and> i \<noteq> n - 1 then [Before_br f (of_nat i)] else []) @ (if i = n - 1 then [Leave f] else [])"
proof -
  have phi: "silent P I" if "I = PHINode" for I using that by (simp add: silent_def)
  have dbg: "silent P I" if "is_phi_or_dbg M I" for I
    using that assms(1)
    by (auto simp: is_phi_or_dbg_def silent_def outside_def hook_of_None split: instr.splits callee.splits)
  have ret: "P ''llvm.returnaddress'' = None" using assms(1) by (simp add: outside_def)
  note single = exec_hook_single [OF assms(1), unfolded prototypes_def]
  have hooks: "exec R P [hook_call ''__CFI_INTERNAL_BB_AFTER_BR'' [Const_int f, Const_int b]] us \<longleftrightarrow> us = [After_br f b]"
    "exec R P [hook_call ''__CFI_INTERNAL_BB_BEFORE_BR'' [Const_int f, Const_int b]] us \<longleftrightarrow> us = [Before_br f b]"
    "exec R P [returnaddress_call r, hook_call ''__CFI_INTERNAL_ENTER'' [Const_int f, Value v]] us \<longleftrightarrow> us = [Enter f]"
    "exec R P [returnaddress_call r, hook_call ''__CFI_INTERNAL_EXIT'' [Const_int f, Value v]] us \<longleftrightarrow> us = [Leave f]" for b r v us
    unfolding exec_returnaddress [of P, OF ret] by (rule single; simp add: hook_of_def)+
  define J1 where "J1 = (if bb \<and> i \<noteq> 0
      then takeWhile (is_phi_or_dbg M) Js @ [hook_call ''__CFI_INTERNAL_BB_AFTER_BR'' [Const_int f, Const_int (of_nat i)]] @
        dropWhile (is_phi_or_dbg M) Js else Js)"
  define J2 where "J2 = (if bb \<and> i \<noteq> n - 1
      then J1 @ [hook_call ''__CFI_INTERNAL_BB_BEFORE_BR'' [Const_int f, Const_int (of_nat i)]] else J1)"
  define J3 where "J3 = (if i = 0
      then takeWhile (\<lambda>I. I = PHINode) J2 @ [returnaddress_call ''saved_retaddr_prolog'',
          hook_call ''__CFI_INTERNAL_ENTER'' [Const_int f, Value ''saved_retaddr_prolog'']] @
        dropWhile (\<lambda>I. I = PHINode) J2 else J2)"
  have all: "instrumented_block M bb f n i Js = (if i = n - 1
      then J3 @ [returnaddress_call ''saved_retaddr_epilog'', hook_call ''__CFI_INTERNAL_EXIT'' [Const_int f, Value ''saved_retaddr_epilog'']]
      else J3)"
    unfolding instrumented_block_def J1_def J2_def J3_def Let_def by (rule refl)
  obtain h3 where h3: "exec R P J3 h3" "hs = h3 @ (if i = n - 1 then [Leave f] else [])"
    using assms(2) unfolding all by (cases "i = n - 1") (auto simp: exec_append hooks)
  obtain h2 where h2: "exec R P J2 h2" "h3 = (if i = 0 then [Enter f] else []) @ h2"
    using h3(1) exec_insert [of "\<lambda>I. I = PHINode" P R J2, OF phi] by (cases "i = 0") (auto simp: J3_def hooks simp del: append.simps)
  obtain h1 where h1: "exec R P J1 h1" "h2 = h1 @ (if bb \<and> i \<noteq> n - 1 then [Before_br f (of_nat i)] else [])"
    using h2(1) unfolding J2_def by (cases "bb \<and> i \<noteq> n - 1") (auto simp: exec_append hooks)
  obtain mid where "exec R P Js mid" "h1 = (if bb \<and> i \<noteq> 0 then [After_br f (of_nat i)] else []) @ mid"
    using h1(1) exec_insert [of "is_phi_or_dbg M" P R Js, OF dbg] by (cases "bb \<and> i \<noteq> 0") (auto simp: J1_def hooks simp del: append.simps)
  then show ?thesis using h3(2) h2(2) h1(2) by (intro exI [of _ mid]) simp
qed

section \<open>Instrumented functions\<close>

text \<open>
  The shape of functions the injection relies on: the last block is the only one that returns and
  leads nowhere else, and no block leads to the first one.
\<close>

definition single_exit :: "basic_block list \<Rightarrow> bool" where
  "single_exit bs \<longleftrightarrow> bs \<noteq> [] \<and> successors (bb_term (last bs)) = [] \<and>
     list_all (\<lambda>BB. bb_term BB \<noteq> Ret) (butlast bs) \<and>
     list_all (\<lambda>BB. list_all (\<lambda>s. 0 < s \<and> s < length bs) (successors (bb_term BB))) bs"

text \<open>\<open>bs'\<close> are the blocks \<open>bs\<close> with their hooks.\<close>

definition instrumented ::
    "bool \<Rightarrow> llvm_module \<Rightarrow> control_flow_integrity \<Rightarrow> bool \<Rightarrow> function_id \<Rightarrow> basic_block list \<Rightarrow> basic_block list \<Rightarrow> bool" where
  "instrumented ndebug M cfi bb f bs bs' \<longleftrightarrow> length bs' = length bs \<and>
     (\<forall>i < length bs. bb_term (bs' ! i) = bb_term (bs ! i) \<and>
       (\<exists>Js. mcall_instrs ndebug M cfi None (bb_instrs (bs ! i)) = Inr Js \<and>
         bb_instrs (bs' ! i) = instrumented_block M bb f (length bs) i Js))"

lemma single_exit_nth:
  assumes "single_exit bs" "i < length bs"
  shows "bb_term (bs ! i) = Ret \<Longrightarrow> i = length bs - 1" "s \<in> set (successors (bb_term (bs ! i))) \<Longrightarrow> i \<noteq> length bs - 1 \<and> 0 < s \<and> s < length bs"
proof -
  show "i = length bs - 1" if "bb_term (bs ! i) = Ret"
  proof (rule ccontr)
    assume "i \<noteq> length bs - 1"
    then have "i < length (butlast bs)" using assms(2) by simp
    moreover from this have "butlast bs ! i = bs ! i" by (rule nth_butlast)
    ultimately show False using assms(1) that by (auto simp: single_exit_def list_all_length)
  qed
  show "i \<noteq> length bs - 1 \<and> 0 < s \<and> s < length bs" if "s \<in> set (successors (bb_term (bs ! i)))"
  proof -
    have "list_all (\<lambda>s. 0 < s \<and> s < length bs) (successors (bb_term (bs ! i)))"
      using assms by (simp add: single_exit_def list_all_length)
    then show ?thesis using assms that last_conv_nth [of bs] by (auto simp: single_exit_def list_all_iff)
  qed
qed

lemma block_of_instrumented:
  assumes callee: "callees_activate data m cfi R"
    and out: "outside P M" and inst: "instrumented ndebug M cfi bb f bs bs'" and i: "i < length bs"
    and calls: "list_all (call_allowed data m f (IdentifiedFunctions cfi) P (watch M cfi)) (bb_instrs (bs ! i))"
    and exec: "exec R P (bb_instrs (bs' ! i)) hs"
  shows "\<exists>mid. hs = (if i = 0 then [Enter f] else []) @ (if bb \<and> i \<noteq> 0 then [After_br f (of_nat i)] else []) @ mid @
      (if bb \<and> i \<noteq> length bs - 1 then [Before_br f (of_nat i)] else []) @ (if i = length bs - 1 then [Leave f] else []) \<and>
    body data m f b (map (hook_signal m) mid) b"
proof -
  obtain Js where Js: "mcall_instrs ndebug M cfi None (bb_instrs (bs ! i)) = Inr Js"
      "bb_instrs (bs' ! i) = instrumented_block M bb f (length bs) i Js"
    using inst i by (auto simp: instrumented_def)
  have hooks: "P ''__CFI_INTERNAL_CALL'' = None" "P ''__CFI_INTERNAL_RETURNED'' = None"
    using out by (simp_all add: outside_def prototypes_def)
  have "body data m f b (map (hook_signal m) mid) b" if "exec R P Js mid" for mid
    using announced_calls [where R = R and P = P, OF callee hooks calls Js(1) that] by simp
  then show ?thesis using exec_instrumented_block [OF out exec [unfolded Js(2)]] by blast
qed

lemma run_of_instrumented:
  assumes callee: "callees_activate data m cfi R"
    and out: "outside P M" and inst: "instrumented ndebug M cfi bb f bs bs'" and shape: "single_exit bs"
    and calls: "\<forall>BB \<in> set bs. list_all (call_allowed data m f (IdentifiedFunctions cfi) P (watch M cfi)) (bb_instrs BB)"
    and jumps: "bb \<Longrightarrow> \<forall>i < length bs. \<forall>s \<in> set (successors (bb_term (bs ! i))). cfg_edge data m f (of_nat i) (of_nat s)"
    and "run_blocks R P bs' i hs"
  shows "\<exists>mid c. hs = (if i = 0 then [Enter f] else []) @ (if bb \<and> i \<noteq> 0 then [After_br f (of_nat i)] else []) @ mid @ [Leave f] \<and>
    body data m f (if bb then of_nat i else 0) (map (hook_signal m) mid) c"
  using assms(7)
proof (induction rule: run_blocks.induct)
  case (run_ret i hs)
  then have i: "i < length bs" "bb_term (bs ! i) = Ret" using inst by (auto simp: instrumented_def)
  then have "i = length bs - 1" by (rule single_exit_nth(1) [OF shape])
  then show ?case
    using block_of_instrumented [OF callee out inst i(1) _ run_ret.hyps(2), of "if bb then of_nat i else 0"] calls i(1)
    by (cases bb) (auto simp: nth_mem)
next
  case (run_branch i us ss s vs)
  then have i: "i < length bs" "successors (bb_term (bs ! i)) = ss" using inst by (auto simp: instrumented_def)
  then have s: "i \<noteq> length bs - 1" "0 < s" "s < length bs" using single_exit_nth(2) [OF shape i(1)] run_branch.hyps(4) by auto
  let ?b = "if bb then of_nat i else 0 :: block_id"
  obtain mid where mid: "us = (if i = 0 then [Enter f] else []) @ (if bb \<and> i \<noteq> 0 then [After_br f (of_nat i)] else []) @ mid @
      (if bb then [Before_br f (of_nat i)] else [])" "body data m f ?b (map (hook_signal m) mid) ?b"
    using block_of_instrumented [OF callee out inst i(1) _ run_branch.hyps(2), of ?b] calls i(1) s(1) by (auto simp: nth_mem)
  obtain mid' c where mid': "vs = (if bb then [After_br f (of_nat s)] else []) @ mid' @ [Leave f]"
      "body data m f (if bb then of_nat s else 0) (map (hook_signal m) mid') c"
    using run_branch.IH s(2) by auto
  let ?jump = "if bb then [Before_br f (of_nat i), After_br f (of_nat s)] else []"
  have "body data m f ?b (map (hook_signal m) (?jump @ mid')) c"
  proof (cases bb)
    case True
    have "cfg_edge data m f (of_nat i) (of_nat s)" using jumps [OF True] i run_branch.hyps(4) by blast
    then have "body data m f (of_nat i) (hook_signal m (Before_br f (of_nat i)) # hook_signal m (After_br f (of_nat s)) #
        map (hook_signal m) mid') c"
      using mid'(2) True by (intro body_activation.body_jump hook_signal_events) simp_all
    then show ?thesis using True by simp
  qed (use mid'(2) in simp)
  then have "body data m f ?b (map (hook_signal m) (mid @ ?jump @ mid')) c"
    using body_append [OF mid(2)] by simp
  then show ?case using mid(1) mid'(1) by (intro exI [of _ "mid @ ?jump @ mid'"] exI [of _ c]) auto
qed

text \<open>A complete run of an instrumented function is an activation of it.\<close>

lemma instrumented_activation:
  assumes "callees_activate data m cfi R"
    "outside P M" "instrumented ndebug M cfi bb f bs bs'" "single_exit bs"
    "\<forall>BB \<in> set bs. list_all (call_allowed data m f (IdentifiedFunctions cfi) P (watch M cfi)) (bb_instrs BB)"
    "bb \<Longrightarrow> \<forall>i < length bs. \<forall>s \<in> set (successors (bb_term (bs ! i))). cfg_edge data m f (of_nat i) (of_nat s)"
    "run_blocks R P bs' 0 hs"
  shows "activation data m f (map (hook_signal m) hs)"
proof -
  obtain mid c where "hs = [Enter f] @ mid @ [Leave f]" "body data m f 0 (map (hook_signal m) mid) c"
    using run_of_instrumented [OF assms] by (cases bb) auto
  then show ?thesis using body_activation.activate [OF hook_signal_events(1) _ hook_signal_events(2)] by simp
qed

end
