(* ===== verification/Pass_Numbers.thy ===== *)
theory Pass_Numbers
  imports Cfi_Pass
begin

text \<open>
  The numbers the pass gives to functions. The names known so far are a list; the number of a name
  is its position. Each unit extends the list by the names it is the first to use, and the table
  of numbers it leaves holds each name of the list once.
\<close>

section \<open>Names and numbers\<close>

definition numbers :: "string list \<Rightarrow> string \<Rightarrow> u32 option" where
  "numbers ns = map_of (zip ns (map of_nat [0..<length ns]))"

lemma numbers_Nil [simp]: "numbers [] = Map.empty"
  by (simp add: numbers_def)

lemma numbers_None: "numbers ns name = None \<longleftrightarrow> name \<notin> set ns"
  by (simp add: numbers_def map_of_zip_is_None)

lemma dom_numbers [simp]: "dom (numbers ns) = set ns"
  by (auto simp: dom_def numbers_None)

lemma numbers_snoc:
  assumes "name \<notin> set ns"
  shows "numbers (ns @ [name]) = (numbers ns)(name \<mapsto> of_nat (length ns))"
proof -
  have "numbers (ns @ [name]) = [name \<mapsto> of_nat (length ns)] ++ numbers ns" by (simp add: numbers_def)
  also have "\<dots> = (numbers ns)(name \<mapsto> of_nat (length ns))"
    using assms numbers_None [of ns name] by (auto simp: map_add_def fun_eq_iff split: option.splits)
  finally show ?thesis .
qed

lemma numbers_nth:
  assumes "distinct ns" "k < length ns"
  shows "numbers ns (ns ! k) = Some (of_nat k)"
  using assms by (simp add: numbers_def map_of_zip_nth)

lemma numbers_SomeD:
  assumes "distinct ns" "numbers ns name = Some i"
  shows "\<exists>k < length ns. ns ! k = name \<and> i = of_nat k"
proof -
  have "name \<in> set ns" using assms(2) by (metis numbers_None option.distinct(1))
  then show ?thesis using assms numbers_nth by (metis in_set_conv_nth option.inject)
qed

lemma unat_of_nat_u32: "k < 2 ^ 32 \<Longrightarrow> unat (of_nat k :: u32) = k"
  by (simp add: unat_of_nat take_bit_nat_eq_self)

lemma of_nat_u32_inject: "j < 2 ^ 32 \<Longrightarrow> k < 2 ^ 32 \<Longrightarrow> (of_nat j :: u32) = of_nat k \<longleftrightarrow> j = k"
  by (metis unat_of_nat_u32)

lemma numbers_inject:
  assumes "distinct ns" "length ns < 2 ^ 32" "numbers ns a = Some i" "numbers ns b = Some i"
  shows "a = b"
proof -
  obtain j k where "j < length ns" "k < length ns" "ns ! j = a" "ns ! k = b" "(of_nat j :: u32) = of_nat k"
    using numbers_SomeD [OF assms(1,3)] numbers_SomeD [OF assms(1,4)] by metis
  then show ?thesis using of_nat_u32_inject [of j k] assms(2) by simp
qed

text \<open>A longer list of names keeps the numbers.\<close>

lemma numbers_append:
  assumes "name \<in> set ns"
  shows "numbers (ns @ ms) name = numbers ns name"
proof -
  have upt: "map of_nat [0..<length (ns @ ms)] =
      map of_nat [0..<length ns] @ (map of_nat [length ns..<length (ns @ ms)] :: u32 list)"
    by (simp add: upt_add_eq_append [of 0 "length ns" "length ms", simplified])
  have "numbers (ns @ ms) = map_of (zip ms (map of_nat [length ns..<length (ns @ ms)])) ++ numbers ns"
    unfolding numbers_def upt by simp
  moreover have "numbers ns name \<noteq> None" using assms by (simp add: numbers_None)
  ultimately show ?thesis by (auto simp: map_add_def)
qed

section \<open>Reading the table\<close>

text \<open>A table of entries that holds each of the names \<open>ns\<close> with its number, once.\<close>

definition entry_numbers :: "(string \<times> u32 \<times> string) list \<Rightarrow> string \<Rightarrow> u32 option" where
  "entry_numbers es name = map_option fst (map_of es name)"

definition table_of :: "string list \<Rightarrow> (string \<times> u32 \<times> string) list \<Rightarrow> bool" where
  "table_of ns es \<longleftrightarrow> distinct ns \<and> length ns < 2 ^ 32 \<and> distinct (map fst es) \<and>
     entry_numbers es = numbers ns"

lemma table_of_names:
  assumes "table_of ns es"
  shows "set (map fst es) = set ns" "length es = length ns"
proof -
  have "map_of es name = None \<longleftrightarrow> name \<notin> set ns" for name
    using assms by (metis entry_numbers_def map_option_is_None numbers_None table_of_def)
  then show names: "set (map fst es) = set ns" by (auto simp: map_of_eq_None_iff)
  then show "length es = length ns" using assms by (metis distinct_card length_map table_of_def)
qed

lemma table_of_entry:
  assumes "table_of ns es" "(name, i, flags) \<in> set es"
  shows "numbers ns name = Some i"
proof -
  have "map_of es name = Some (i, flags)" using assms by (simp add: map_of_eq_Some_iff table_of_def)
  moreover have "map_option fst (map_of es name) = numbers ns name" using assms(1) by (simp add: table_of_def flip: entry_numbers_def)
  ultimately show ?thesis by simp
qed

lemma table_of_kept:
  assumes "table_of ns es" "table_of (ns @ ms) es'" "(name, i, flags) \<in> set es"
  shows "\<exists>flags'. (name, i, flags') \<in> set es'"
proof -
  have n: "numbers ns name = Some i" by (rule table_of_entry [OF assms(1,3)])
  then have "name \<in> set ns" by (metis numbers_None option.distinct(1))
  then have "entry_numbers es' name = Some i" using n assms(2) by (simp add: numbers_append table_of_def)
  then show ?thesis by (auto simp: entry_numbers_def dest: map_of_SomeD)
qed

lemma table_of_numbers:
  assumes "table_of ns es"
  shows "(unat \<circ> fst \<circ> snd) ` set es = {0..<length es}"
proof -
  have small: "k < length ns \<Longrightarrow> k < 2 ^ 32" for k using assms by (simp add: table_of_def)
  have "unat i < length ns" if "(name, i, flags) \<in> set es" for name i flags
    using numbers_SomeD [OF _ table_of_entry [OF assms that]] assms small by (metis table_of_def unat_of_nat_u32)
  moreover have "k \<in> (unat \<circ> fst \<circ> snd) ` set es" if "k < length ns" for k
  proof -
    have "numbers ns (ns ! k) = Some (of_nat k)" using that assms by (intro numbers_nth) (simp_all add: table_of_def)
    then have "map_option fst (map_of es (ns ! k)) = Some (of_nat k)" using assms by (simp add: table_of_def flip: entry_numbers_def)
    then obtain flags where "map_of es (ns ! k) = Some (of_nat k, flags)" by auto
    then have "(ns ! k, of_nat k, flags) \<in> set es" by (rule map_of_SomeD)
    then show ?thesis using unat_of_nat_u32 [OF small [OF that]] by force
  qed
  ultimately show ?thesis using table_of_names(2) [OF assms] by fastforce
qed

lemma table_of_Nil [simp]: "table_of [] []"
  by (simp add: table_of_def entry_numbers_def fun_eq_iff)

text \<open>The counter ends above every number it has seen.\<close>

definition bump :: "u32 \<Rightarrow> u32 \<Rightarrow> u32" where
  "bump i c = (if c \<le> i then i + 1 else c)"

lemma unat_bump: "Suc (unat i) < 2 ^ 32 \<Longrightarrow> unat (bump i c) = max (unat c) (Suc (unat i))"
  by (auto simp: bump_def word_le_nat_alt unat_word_ariths(1) max_def not_le)

lemma unat_fold_bump:
  assumes "\<forall>i \<in> set is. Suc (unat i) < 2 ^ 32"
  shows "unat (fold bump is c) = Max (insert (unat c) (Suc ` unat ` set is))"
  using assms
proof (induction "is" arbitrary: c)
  case (Cons i "is")
  have "unat (fold bump is (bump i c)) = Max (insert (unat (bump i c)) (Suc ` unat ` set is))"
    using Cons by simp
  also have "unat (bump i c) = max (unat c) (Suc (unat i))" using Cons.prems by (simp add: unat_bump)
  also have "Max (insert (max (unat c) (Suc (unat i))) (Suc ` unat ` set is)) =
      Max (insert (unat c) (Suc ` unat ` set (i # is)))"
    by (cases "set is = {}") (simp_all add: max.assoc)
  finally show ?case by simp
qed simp

lemma add_identified_all:
  assumes "distinct (map fst es)" "fst ` set es \<inter> dom (IdentifiedFunctions cfi) = {}"
  shows "fold_result (\<lambda>(fctName, iid, is_defined). AddIdentifiedFunction ndebug fctName iid) es cfi =
    Inr (cfi\<lparr>IdentifiedFunctions := IdentifiedFunctions cfi ++ entry_numbers es,
             fun_id_ctr := fold bump (map (fst \<circ> snd) es) (fun_id_ctr cfi)\<rparr>)"
  using assms
proof (induction es arbitrary: cfi)
  case Nil
  then show ?case by (simp add: map_add_def entry_numbers_def)
next
  case (Cons e es)
  obtain name i flags where e: "e = (name, i, flags)" by (metis surj_pair)
  let ?cfi = "cfi\<lparr>IdentifiedFunctions := (IdentifiedFunctions cfi)(name \<mapsto> i), fun_id_ctr := bump i (fun_id_ctr cfi)\<rparr>"
  have "AddIdentifiedFunction ndebug name i cfi = Inr ?cfi"
    using Cons.prems(2) by (auto simp: e AddIdentifiedFunction_def bump_def domIff)
  then have "fold_result (\<lambda>(fctName, iid, is_defined). AddIdentifiedFunction ndebug fctName iid) (e # es) cfi =
      fold_result (\<lambda>(fctName, iid, is_defined). AddIdentifiedFunction ndebug fctName iid) es ?cfi"
    by (simp add: e)
  also have "\<dots> = Inr (?cfi\<lparr>IdentifiedFunctions := IdentifiedFunctions ?cfi ++ entry_numbers es,
             fun_id_ctr := fold bump (map (fst \<circ> snd) es) (fun_id_ctr ?cfi)\<rparr>)"
  proof (intro Cons.IH)
    have "dom (IdentifiedFunctions ?cfi) = insert name (dom (IdentifiedFunctions cfi))" by simp
    then show "fst ` set es \<inter> dom (IdentifiedFunctions ?cfi) = {}" using Cons.prems by (simp add: e)
  qed (use Cons.prems(1) in simp)
  also have "IdentifiedFunctions ?cfi ++ entry_numbers es =
      IdentifiedFunctions cfi ++ entry_numbers (e # es)"
  proof -
    have "map_of es name = None" using Cons.prems(1) by (simp add: e map_of_eq_None_iff)
    then show ?thesis by (auto simp: e map_add_def fun_eq_iff entry_numbers_def split: option.splits)
  qed
  finally show ?case by (simp add: e)
qed

text \<open>No text is a bad table.\<close>

lemma IdentifyFunctions_not_fatal: "IdentifyFunctions ndebug fs M cfi \<noteq> Inl Fatal_error"
proof -
  have add: "AddIdentifiedFunction ndebug name i c \<noteq> Inl Fatal_error" for name i c
    by (simp add: AddIdentifiedFunction_def c_assert_def)
  have "fold_result (\<lambda>(fctName, iid, is_defined). AddIdentifiedFunction ndebug fctName iid) es c \<noteq> Inl Fatal_error" for es c
  proof (induction es arbitrary: c)
    case (Cons e es)
    then show ?case using add [of "fst e" "fst (snd e)" c]
      by (cases "AddIdentifiedFunction ndebug (fst e) (fst (snd e)) c") (simp_all add: split_beta)
  qed simp
  then show ?thesis
    using read_entries_fails
    by (auto simp: IdentifyFunctions_def and_then_def case_prod_unfold Let_def peek_failed split: option.splits sum.splits)
qed

text \<open>What the pass knows of the numbers.\<close>

definition knows :: "string list \<Rightarrow> control_flow_integrity \<Rightarrow> bool" where
  "knows ns cfi \<longleftrightarrow> IdentifiedFunctions cfi = numbers ns \<and> fun_id_ctr cfi = of_nat (length ns)"

lemma read_table:
  assumes "table_of ns es" "knows [] cfi"
  shows "fold_result (\<lambda>(fctName, iid, is_defined). AddIdentifiedFunction ndebug fctName iid) es cfi =
    Inr (cfi\<lparr>IdentifiedFunctions := numbers ns, fun_id_ctr := of_nat (length ns)\<rparr>)"
proof -
  have "fold bump (map (fst \<circ> snd) es) 0 = of_nat (length ns)"
  proof -
    have img: "unat ` set (map (fst \<circ> snd) es) = {0..<length es}"
      using table_of_numbers [OF assms(1)] by (simp add: image_comp comp_def)
    have "Suc (unat i) < 2 ^ 32" if "i \<in> set (map (fst \<circ> snd) es)" for i
    proof -
      have "unat i \<in> {0..<length es}" using img that by blast
      then show ?thesis using assms(1) table_of_names(2) [OF assms(1)] by (simp add: table_of_def)
    qed
    then have "unat (fold bump (map (fst \<circ> snd) es) 0) = Max (insert 0 (Suc ` {0..<length es}))"
      using unat_fold_bump [of "map (fst \<circ> snd) es" 0] img by simp
    also have "insert 0 (Suc ` {0..<length es}) = {0..length es}"
      by (auto simp: image_Suc_atLeastLessThan)
    also have "Max {0..length es} = length ns" using table_of_names(2) [OF assms(1)] by (intro Max_eqI) simp_all
    finally show ?thesis by (metis of_nat_unat ucast_id)
  qed
  then show ?thesis
    using assms add_identified_all [of es cfi ndebug] by (simp add: table_of_def knows_def)
qed

section \<open>Numbering a unit\<close>

text \<open>The functions the pass looks at: neither ignored nor intrinsics of LLVM.\<close>

definition watched :: "llvm_module \<Rightarrow> string set \<Rightarrow> string \<Rightarrow> bool" where
  "watched M ignored name \<longleftrightarrow> name \<notin> ignored \<and> \<not> is_intrinsic M name"

definition extend :: "(string \<Rightarrow> bool) \<Rightarrow> string list \<Rightarrow> string list \<Rightarrow> string list" where
  "extend P names ns = fold (\<lambda>name ns. if P name \<and> name \<notin> set ns then ns @ [name] else ns) names ns"

lemma extend_snoc [simp]:
  "extend P (names @ [name]) ns =
    (let ns' = extend P names ns in if P name \<and> name \<notin> set ns' then ns' @ [name] else ns')"
  by (simp add: extend_def Let_def)

lemma extend_Nil [simp]: "extend P [] ns = ns"
  by (simp add: extend_def)

lemma extend_appends: "\<exists>ms. extend P names ns = ns @ ms"
  by (induction names rule: rev_induct) (auto simp: Let_def)

lemma set_extend: "set (extend P names ns) = set ns \<union> {name \<in> set names. P name}"
  by (induction names rule: rev_induct) (auto simp: Let_def)

lemma distinct_extend: "distinct ns \<Longrightarrow> distinct (extend P names ns)"
  by (induction names rule: rev_induct) (auto simp: Let_def)

lemma length_extend: "length (extend P names ns) \<le> length ns + length names"
  by (induction names rule: rev_induct) (auto simp: Let_def)

definition fct_of :: "string list \<Rightarrow> llvm_function \<Rightarrow> string \<times> CFIFct" where
  "fct_of ns F = (fn_name F, \<lparr>cf_fun = fn_name F, cf_id = the (numbers ns (fn_name F)),
     cf_bb_map = map (\<lambda>i. (i, of_nat i)) [0..<length (fn_blocks F)]\<rparr>)"

definition watched_functions :: "llvm_module \<Rightarrow> string set \<Rightarrow> llvm_function list" where
  "watched_functions M ignored = filter (\<lambda>F. watched M ignored (fn_name F)) (m_functions M)"

lemma fct_of_append: "fn_name F \<in> set ns \<Longrightarrow> fct_of (ns @ ms) F = fct_of ns F"
  by (simp add: fct_of_def numbers_append)

lemma identify_functions:
  assumes "knows ns cfi" "FunctionMap cfi = []" "distinct (map fn_name Fs)"
  shows "fold (identify M) Fs cfi =
    (let ns' = extend (watched M (IgnoredFunctions cfi)) (map fn_name Fs) ns in
     cfi\<lparr>IdentifiedFunctions := numbers ns', fun_id_ctr := of_nat (length ns'),
         FunctionMap := map (fct_of ns') (filter (\<lambda>F. watched M (IgnoredFunctions cfi) (fn_name F)) Fs)\<rparr>)"
  using assms(3)
proof (induction Fs rule: rev_induct)
  case Nil
  then show ?case using assms(1,2) by (simp add: knows_def)
next
  case (snoc F Fs)
  let ?P = "watched M (IgnoredFunctions cfi)"
  define ms where "ms = extend ?P (map fn_name Fs) ns"
  define fm where "fm = map (fct_of ms) (filter (\<lambda>F. ?P (fn_name F)) Fs)"
  let ?cfi = "cfi\<lparr>IdentifiedFunctions := numbers ms, fun_id_ctr := of_nat (length ms), FunctionMap := fm\<rparr>"
  have ih: "fold (identify M) Fs cfi = ?cfi" using snoc by (simp add: ms_def fm_def Let_def)
  have names: "fn_name G \<in> set ms" if "G \<in> set Fs" "?P (fn_name G)" for G
    using that by (auto simp: ms_def set_extend)
  have new: "fn_name F \<notin> fst ` set fm" using snoc.prems by (auto simp: fm_def fct_of_def)
  have upd: "AList.update (fn_name F) v fm = fm @ [(fn_name F, v)]" for v
    using new by (induction fm) auto
  have fold: "fold (identify M) (Fs @ [F]) cfi = identify M F ?cfi" using ih by simp
  consider (skip) "\<not> ?P (fn_name F)" | (old) "?P (fn_name F)" "fn_name F \<in> set ms" | (fresh) "?P (fn_name F)" "fn_name F \<notin> set ms"
    by blast
  then show ?case
  proof cases
    case skip
    then have "identify M F ?cfi = ?cfi" by (auto simp: identify_def isIgnoredFunction_def watched_def)
    then show ?thesis using skip unfolding fold by (simp add: Let_def ms_def [symmetric] fm_def)
  next
    case old
    then obtain i where i: "numbers ms (fn_name F) = Some i" by (metis not_None_eq numbers_None)
    then have "identify M F ?cfi = ?cfi\<lparr>FunctionMap := fm @ [fct_of ms F]\<rparr>"
      using old(1) upd by (simp add: identify_def isIgnoredFunction_def watched_def IdentifyFunction_def fct_of_def Let_def)
    then show ?thesis using old unfolding fold by (simp add: Let_def ms_def [symmetric] fm_def)
  next
    case fresh
    have i: "numbers ms (fn_name F) = None" using fresh(2) by (simp add: numbers_None)
    have "map (fct_of (ms @ [fn_name F])) (filter (\<lambda>F. ?P (fn_name F)) Fs) = fm"
      unfolding fm_def using names by (auto intro!: fct_of_append)
    moreover have "identify M F ?cfi = ?cfi\<lparr>IdentifiedFunctions := numbers (ms @ [fn_name F]),
        fun_id_ctr := of_nat (length (ms @ [fn_name F])), FunctionMap := fm @ [fct_of (ms @ [fn_name F]) F]\<rparr>"
      using fresh i upd
      by (simp add: identify_def isIgnoredFunction_def watched_def IdentifyFunction_def fct_of_def Let_def numbers_snoc add.commute)
    ultimately show ?thesis using fresh unfolding fold by (simp add: Let_def ms_def [symmetric])
  qed
qed

text \<open>What a numbered unit looks like to the rest of the pass.\<close>

definition numbered_unit :: "llvm_module \<Rightarrow> string list \<Rightarrow> control_flow_integrity \<Rightarrow> bool" where
  "numbered_unit M ns cfi \<longleftrightarrow> distinct ns \<and> length ns < 2 ^ 32 \<and> knows ns cfi \<and>
     FunctionMap cfi = map (fct_of ns) (watched_functions M (IgnoredFunctions cfi)) \<and>
     fn_name ` set (watched_functions M (IgnoredFunctions cfi)) \<subseteq> set ns"

lemma identified_text:
  assumes "wf_unit M" "table_of ns es" "knows [] cfi" "FunctionMap cfi = []"
    "fst (read_entries (open_in (text_of fs (fun_id_file cfi)))) = es" "length ns + length (m_functions M) < 2 ^ 32"
  shows "\<exists>ms cfi'. IdentifyFunctions ndebug fs M cfi = Inr cfi' \<and> numbered_unit M (ns @ ms) cfi' \<and>
    set ms \<subseteq> fn_name ` set (watched_functions M (IgnoredFunctions cfi)) \<and>
    cfi' = cfi\<lparr>IdentifiedFunctions := numbers (ns @ ms), fun_id_ctr := of_nat (length (ns @ ms)),
      FunctionMap := map (fct_of (ns @ ms)) (watched_functions M (IgnoredFunctions cfi))\<rparr>"
proof -
  let ?P = "watched M (IgnoredFunctions cfi)" and ?names = "map fn_name (m_functions M)"
  let ?cfi = "cfi\<lparr>IdentifiedFunctions := numbers ns, fun_id_ctr := of_nat (length ns)\<rparr>"
  have "IdentifyFunctions ndebug fs M cfi = Inr (fold (identify M) (m_functions M) ?cfi)"
  proof (cases "contents fs (fun_id_file cfi)")
    case None
    then have "ns = []"
      using assms(5) table_of_names(2) [OF assms(2)] read_entries_end by (simp add: text_of_def)
    then have "?cfi = cfi" using assms(3) by (cases cfi) (simp add: knows_def)
    then show ?thesis using None by (simp add: IdentifyFunctions_def)
  next
    case (Some s)
    then have es: "fst (read_entries (open_in s)) = es" using assms(5) by (simp add: text_of_def)
    show ?thesis
      using Some read_table [OF assms(2,3), of ndebug] peek_failed [OF read_entries_fails [of "open_in s"]]
      by (simp add: IdentifyFunctions_def case_prod_unfold Let_def es)
  qed
  moreover obtain ms where ms: "extend ?P ?names ns = ns @ ms" using extend_appends by blast
  moreover have "fold (identify M) (m_functions M) ?cfi = cfi\<lparr>IdentifiedFunctions := numbers (ns @ ms),
      fun_id_ctr := of_nat (length (ns @ ms)), FunctionMap := map (fct_of (ns @ ms)) (watched_functions M (IgnoredFunctions cfi))\<rparr>"
    using identify_functions [of ns ?cfi "m_functions M" M] assms(1,4) ms
    by (simp add: knows_def wf_unit_def watched_functions_def Let_def)
  moreover have set: "set (ns @ ms) = set ns \<union> {n \<in> set ?names. ?P n}" unfolding ms [symmetric] by (rule set_extend)
  have dist: "distinct (ns @ ms)" unfolding ms [symmetric] using assms(2) by (intro distinct_extend) (simp add: table_of_def)
  moreover have "length (ns @ ms) < 2 ^ 32"
    using length_extend [of ?P ?names ns] assms(6) unfolding ms by simp
  moreover have "set ms \<subseteq> fn_name ` set (watched_functions M (IgnoredFunctions cfi))"
    using set dist by (auto simp: watched_functions_def)
  moreover have "fn_name ` set (watched_functions M (IgnoredFunctions cfi)) \<subseteq> set (ns @ ms)"
    unfolding set by (auto simp: watched_functions_def)
  ultimately show ?thesis by (auto simp: numbered_unit_def knows_def)
qed

lemma identified_unit:
  assumes "wf_unit M" "table_of ns es" "knows [] cfi" "FunctionMap cfi = []"
    "text_of fs (fun_id_file cfi) = concat (map entry_line es)" "list_all entry_ok es" "length ns + length (m_functions M) < 2 ^ 32"
  shows "\<exists>ms cfi'. IdentifyFunctions ndebug fs M cfi = Inr cfi' \<and> numbered_unit M (ns @ ms) cfi' \<and>
    set ms \<subseteq> fn_name ` set (watched_functions M (IgnoredFunctions cfi)) \<and>
    cfi' = cfi\<lparr>IdentifiedFunctions := numbers (ns @ ms), fun_id_ctr := of_nat (length (ns @ ms)),
      FunctionMap := map (fct_of (ns @ ms)) (watched_functions M (IgnoredFunctions cfi))\<rparr>"
  using assms read_entries_lines [OF assms(6)] by (intro identified_text) simp_all

lemma table_of_numbered:
  assumes "table_of ns es" "(name, i, flags) \<in> set es"
  shows "numbers (ns @ ms) name = Some i"
proof -
  have n: "numbers ns name = Some i" by (rule table_of_entry [OF assms])
  then have "name \<in> set ns" by (metis numbers_None option.distinct(1))
  then show ?thesis using n by (simp add: numbers_append)
qed

text \<open>Two files with the same entries, whatever is behind them.\<close>

lemma IdentifyFunctions_text:
  assumes "contents fs (fun_id_file cfi) = Some s" "contents fs' (fun_id_file cfi) = Some s'"
    "fst (read_entries (open_in s)) = fst (read_entries (open_in s'))"
  shows "IdentifyFunctions ndebug fs M cfi = IdentifyFunctions ndebug fs' M cfi"
  using assms(1,2) peek_failed [OF read_entries_fails]
  by (simp add: IdentifyFunctions_def case_prod_unfold Let_def assms(3))

section \<open>Writing the table\<close>

text \<open>The flags of a numbered function.\<close>

definition unit_flags :: "llvm_module \<Rightarrow> (string \<times> u32 \<times> string) list \<Rightarrow> control_flow_integrity \<Rightarrow> string \<Rightarrow> string" where
  "unit_flags M es cfi name =
     (if name \<in> InitFunctions cfi then ''Init'' else if name \<in> FiniFunctions cfi then ''Fini''
      else if name = ''main'' then ''Main''
      else if is_declaration (function_of_name M name)
      then (case map_of es name of Some (_, flags) \<Rightarrow> flags | None \<Rightarrow> ''External'')
      else fun_id_file cfi)"

definition unit_entry ::
    "llvm_module \<Rightarrow> (string \<times> u32 \<times> string) list \<Rightarrow> string list \<Rightarrow> control_flow_integrity \<Rightarrow> string \<Rightarrow> string \<times> u32 \<times> string" where
  "unit_entry M es ns cfi name = (name, the (numbers ns name), unit_flags M es cfi name)"

lemma fold_update_distinct:
  assumes "distinct (map fst (m @ es))"
  shows "fold (\<lambda>(k, v). AList.update k v) es m = m @ es"
  using assms
proof (induction es arbitrary: m)
  case (Cons e es)
  have "AList.update (fst e) (snd e) m = m @ [e]"
    using Cons.prems by (induction m) auto
  then show ?case using Cons.IH [of "m @ [e]"] Cons.prems by (simp add: split_beta)
qed simp

lemma function_entry_numbered:
  assumes "numbered_unit M (ns @ ms) cfi" "table_of ns es" "F \<in> set (watched_functions M (IgnoredFunctions cfi))"
  shows "function_entry ndebug M es cfi (fct_of (ns @ ms) F) = Inr (unit_entry M es (ns @ ms) cfi (fn_name F))"
proof -
  have name: "fn_name F \<in> set (ns @ ms)" "fn_name F \<notin> IgnoredFunctions cfi"
    using assms(1,3) by (auto simp: numbered_unit_def watched_functions_def watched_def)
  then obtain i where i: "numbers (ns @ ms) (fn_name F) = Some i" by (metis not_None_eq numbers_None)
  then have known: "IdentifiedFunctions cfi (fn_name F) = Some i" using assms(1) by (simp add: numbered_unit_def knows_def)
  have "j = i" if "map_of es (fn_name F) = Some (j, fl)" for j fl
  proof -
    have n: "numbers ns (fn_name F) = Some j" using table_of_entry [OF assms(2) map_of_SomeD [OF that]] .
    then have "fn_name F \<in> set ns" by (metis numbers_None option.distinct(1))
    then show ?thesis using n i numbers_append by simp
  qed
  then show ?thesis
    using name(2) i known
    by (auto simp: function_entry_def fct_of_def function_flags_def unit_entry_def unit_flags_def isIgnoredFunction_def
        isInitFunction_def isFiniFunction_def HasAlreadyBeenIdentified_id_def IdentifyFunction_def split: option.splits)
qed

text \<open>The table the unit leaves: its own functions first, then the others as they were.\<close>

definition unit_table ::
    "hash_order \<Rightarrow> llvm_module \<Rightarrow> (string \<times> u32 \<times> string) list \<Rightarrow> string list \<Rightarrow> control_flow_integrity \<Rightarrow>
     (string \<times> u32 \<times> string) list" where
  "unit_table order M es ns cfi =
     map (unit_entry M es ns cfi) (map fst (iterate order (FunctionMap cfi))) @
     filter (\<lambda>e. fst e \<notin> fn_name ` set (watched_functions M (IgnoredFunctions cfi))) (iterate order es)"

lemma function_map_names:
  assumes "numbered_unit M ns cfi"
  shows "map fst (FunctionMap cfi) = map fn_name (watched_functions M (IgnoredFunctions cfi))"
  using assms by (simp add: numbered_unit_def fct_of_def comp_def)

lemma distinct_watched: "wf_unit M \<Longrightarrow> distinct (map fn_name (watched_functions M ignored))"
  unfolding wf_unit_def watched_functions_def by (blast intro: distinct_map_filter)

lemma map_result_all:
  assumes "\<And>x. x \<in> set xs \<Longrightarrow> f x = Inr (g x)"
  shows "map_result f xs = Inr (map g xs)"
  using assms by (induction xs) simp_all

lemma written_table:
  assumes "numbered_unit M (ns @ ms) cfi" "table_of ns es" "wf_unit M" "some_order order"
    "text_of fs (fun_id_file cfi) = concat (map entry_line es)" "list_all entry_ok es"
  shows "writeFunctionIDs ndebug order M cfi fs =
    write_file ndebug (fun_id_file cfi) (concat (map entry_line (unit_table order M es (ns @ ms) cfi))) fs"
proof -
  let ?W = "watched_functions M (IgnoredFunctions cfi)"
  have es: "(case contents fs (fun_id_file cfi) of None \<Rightarrow> [] | Some txt \<Rightarrow> fst (read_entries (open_in txt))) = es"
    using assms(5) read_entries_lines [OF assms(6)] by (cases "contents fs (fun_id_file cfi)"; cases es) (auto simp: text_of_def)
  have old: "fold (\<lambda>(k, v). AList.update k v) es [] = es"
    using fold_update_distinct [of "[]" es] assms(2) by (simp add: table_of_def)
  have fm: "distinct (map fst (FunctionMap cfi))"
    using function_map_names [OF assms(1)] distinct_watched [OF assms(3)] by simp
  have vis: "set (iterate order (FunctionMap cfi)) = set (FunctionMap cfi)"
    by (rule iterate_visits(1) [OF assms(4) fm])
  have "function_entry ndebug M es cfi x = Inr (unit_entry M es (ns @ ms) cfi (fst x))"
    if x: "x \<in> set (iterate order (FunctionMap cfi))" for x
  proof -
    obtain F where F: "F \<in> set ?W" "x = fct_of (ns @ ms) F"
      using x assms(1) unfolding vis numbered_unit_def by auto
    then show ?thesis using function_entry_numbered [OF assms(1,2) F(1)] by (simp add: fct_of_def)
  qed
  then have new: "map_result (function_entry ndebug M es cfi) (iterate order (FunctionMap cfi)) =
      Inr (map (unit_entry M es (ns @ ms) cfi) (map fst (iterate order (FunctionMap cfi))))"
    using map_result_all [of "iterate order (FunctionMap cfi)" "function_entry ndebug M es cfi"
        "\<lambda>x. unit_entry M es (ns @ ms) cfi (fst x)"] by (simp add: comp_def)
  have added: "fst e \<in> fst ` set (FunctionMap cfi) \<and> already_added M cfi (fst e) \<longleftrightarrow> fst e \<in> fn_name ` set ?W" for e
  proof -
    have "fst ` set (FunctionMap cfi) = fn_name ` set ?W"
      using function_map_names [OF assms(1)] by (metis list.set_map)
    moreover have "already_added M cfi (fst e)" if "fst e \<in> fn_name ` set ?W"
    proof -
      have "fst e \<in> set (ns @ ms)" using that assms(1) by (auto simp: numbered_unit_def)
      then show ?thesis
        using assms(1) numbers_None [of "ns @ ms" "fst e"]
        by (auto simp: numbered_unit_def knows_def already_added_def HasAlreadyBeenIdentified_id_def)
    qed
    ultimately show ?thesis by blast
  qed
  show ?thesis
    unfolding writeFunctionIDs_def es Let_def old new unit_table_def by (simp add: added)
qed

text \<open>The table keeps its shape: each known name once, with its number.\<close>

lemma unit_table_ok:
  assumes "numbered_unit M (ns @ ms) cfi" "table_of ns es" "wf_unit M" "some_order order"
    "set ms \<subseteq> fn_name ` set (watched_functions M (IgnoredFunctions cfi))"
  shows "table_of (ns @ ms) (unit_table order M es (ns @ ms) cfi)"
    "list_all entry_ok es \<Longrightarrow> is_word (fun_id_file cfi) \<Longrightarrow> list_all entry_ok (unit_table order M es (ns @ ms) cfi)"
    "map_of (unit_table order M es (ns @ ms) cfi) name =
      (if name \<in> fn_name ` set (watched_functions M (IgnoredFunctions cfi))
       then Some (the (numbers (ns @ ms) name), unit_flags M es cfi name) else map_of es name)"
proof -
  let ?W = "watched_functions M (IgnoredFunctions cfi)"
  let ?new = "map fst (iterate order (FunctionMap cfi))"
  let ?kept = "filter (\<lambda>e. fst e \<notin> fn_name ` set ?W) (iterate order es)"
  have es: "distinct (map fst es)" using assms(2) by (simp add: table_of_def)
  have fm: "distinct (map fst (FunctionMap cfi))"
    using function_map_names [OF assms(1)] distinct_watched [OF assms(3)] by simp
  have new: "set ?new = fn_name ` set ?W" "distinct ?new"
    using iterate_visits(1,2) [OF assms(4) fm] function_map_names [OF assms(1)] by (metis list.set_map, simp)
  have kept: "distinct (map fst ?kept)" "set (map fst ?kept) \<inter> set ?new = {}"
    using iterate_visits(2) [OF assms(4) es] new(1) by (auto simp: distinct_map_filter)
  have fst_new: "map fst (map (unit_entry M es (ns @ ms) cfi) ?new) = ?new" by (simp add: unit_entry_def comp_def)
  have lookup: "map_of (unit_table order M es (ns @ ms) cfi) name =
      (if name \<in> fn_name ` set ?W then Some (the (numbers (ns @ ms) name), unit_flags M es cfi name) else map_of es name)" for name
  proof (cases "name \<in> fn_name ` set ?W")
    case True
    have "map_of (map (unit_entry M es (ns @ ms) cfi) xs) name = Some (snd (unit_entry M es (ns @ ms) cfi name))"
      if "name \<in> set xs" for xs
      using that by (induction xs) (auto simp: unit_entry_def)
    then have "map_of (map (unit_entry M es (ns @ ms) cfi) ?new) name = Some (snd (unit_entry M es (ns @ ms) cfi name))"
      using True new(1) by blast
    then show ?thesis using True by (simp add: unit_table_def unit_entry_def del: map_map)
  next
    case False
    have "map_of (map (unit_entry M es (ns @ ms) cfi) ?new) name = None"
      using False new(1) fst_new by (metis map_of_eq_None_iff list.set_map)
    moreover have "map_of (filter (\<lambda>e. fst e \<notin> fn_name ` set ?W) xs) name = map_of xs name" for xs :: "(string \<times> u32 \<times> string) list"
      using False by (induction xs) auto
    ultimately show ?thesis
      using False iterate_visits(4) [OF assms(4) es] by (simp add: unit_table_def map_add_def del: map_map)
  qed
  then show "map_of (unit_table order M es (ns @ ms) cfi) name =
      (if name \<in> fn_name ` set ?W then Some (the (numbers (ns @ ms) name), unit_flags M es cfi name) else map_of es name)" .
  have "distinct (map fst (unit_table order M es (ns @ ms) cfi))"
    using new(2) kept fst_new by (simp add: unit_table_def unit_entry_def comp_def Int_commute)
  moreover have "entry_numbers (unit_table order M es (ns @ ms) cfi) name = numbers (ns @ ms) name" for name
  proof (cases "name \<in> fn_name ` set ?W")
    case True
    then have "name \<in> set (ns @ ms)" using assms(1) by (auto simp: numbered_unit_def)
    then show ?thesis using True lookup [of name] numbers_None [of "ns @ ms" name] by (auto simp: entry_numbers_def)
  next
    case False
    then have "numbers (ns @ ms) name = numbers ns name"
      using assms(5) numbers_append [of name ns ms] numbers_None [of ns name] numbers_None [of "ns @ ms" name] by auto
    then show ?thesis using False lookup [of name] assms(2) by (auto simp: entry_numbers_def table_of_def fun_eq_iff)
  qed
  ultimately show "table_of (ns @ ms) (unit_table order M es (ns @ ms) cfi)"
    using assms(1) by (auto simp: table_of_def numbered_unit_def fun_eq_iff)
  assume ok: "list_all entry_ok es" and word: "is_word (fun_id_file cfi)"
  have old: "is_word flags" if "map_of es n = Some (i, flags)" for n i flags
    using ok map_of_SomeD [OF that] by (auto simp: list_all_iff entry_ok_def)
  have "is_word (unit_flags M es cfi n)" for n
    using word old [of n] by (auto simp: unit_flags_def is_word_def is_space_def split: option.splits)
  moreover have "is_word n" if "n \<in> set ?new" for n
    using that new(1) assms(3) by (auto simp: wf_unit_def watched_functions_def list_all_iff)
  ultimately show "list_all entry_ok (unit_table order M es (ns @ ms) cfi)"
    using ok iterate_visits(1) [OF assms(4) es] by (auto simp: unit_table_def list_all_iff entry_ok_def unit_entry_def)
qed

end
