(* ===== verification/Injection.thy ===== *)
theory Injection
  imports Instrumented_Run Pass_Numbers
begin

text \<open>
  What \<open>InjectCode\<close> makes of a unit: every function the pass looks at gets the hooks of
  \<open>Instrumented_Run\<close>, the other functions stay as they are.
\<close>

section \<open>Frames\<close>

text \<open>All functions outside \<open>S\<close> stay, and only declarations are added.\<close>

definition keeps :: "string set \<Rightarrow> llvm_module \<Rightarrow> llvm_module \<Rightarrow> bool" where
  "keeps S M M' \<longleftrightarrow> is_intrinsic M' = is_intrinsic M \<and> is_dbg M' = is_dbg M \<and>
     (\<forall>g. g \<notin> S \<longrightarrow> get_function M' g = get_function M g \<or>
        get_function M g = None \<and> get_function M' g = Some (new_declaration g))"

lemma keeps_refl [simp]: "keeps S M M"
  by (simp add: keeps_def)

lemma keeps_trans: "keeps S M1 M2 \<Longrightarrow> keeps T M2 M3 \<Longrightarrow> keeps (S \<union> T) M1 M3"
  unfolding keeps_def by (metis Un_iff option.distinct(1))

lemma keeps_mono: "keeps S M M' \<Longrightarrow> S \<subseteq> T \<Longrightarrow> keeps T M M'"
  by (auto simp: keeps_def)

lemma with_blocks_of_name [simp]: "fn_name (with_blocks_of f F) = fn_name F"
  by (simp add: with_blocks_of_def)

lemma update_function_intrinsics [simp]:
  "is_intrinsic (update_function f name M) = is_intrinsic M" "is_dbg (update_function f name M) = is_dbg M"
  "is_intrinsic (create_function name M) = is_intrinsic M" "is_dbg (create_function name M) = is_dbg M"
  by (simp_all add: update_function_def create_function_def)

lemma keeps_update: "keeps {name} M (update_function (with_blocks_of f) name M)"
  by (simp add: keeps_def get_update_function)

lemma keeps_create: "keeps {} M (create_function name M)"
  by (auto simp: keeps_def get_create_function split: option.splits)

lemma keeps_fold_create: "keeps {} M (fold create_function names M)"
proof (induction names arbitrary: M)
  case (Cons name names)
  show ?case using keeps_trans [OF keeps_create [of M name] Cons.IH] by simp
qed simp

lemma keeps_SomeD: "keeps S M M' \<Longrightarrow> g \<notin> S \<Longrightarrow> get_function M g = Some G \<Longrightarrow> get_function M' g = Some G"
  by (auto simp: keeps_def)

lemma mcall_intrinsics:
  assumes "is_intrinsic M' = is_intrinsic M"
  shows "mcall_instrs ndebug M' cfi p Is = mcall_instrs ndebug M cfi p Is"
proof -
  have "mcall_instr ndebug M' cfi = mcall_instr ndebug M cfi"
    by (auto simp: fun_eq_iff mcall_instr_def assms split: instr.splits callee.splits)
  then show ?thesis by (induction Is arbitrary: p) simp_all
qed

lemma phi_or_dbg_keeps: "keeps S M M' \<Longrightarrow> is_phi_or_dbg M' = is_phi_or_dbg M"
  by (intro ext) (simp add: is_phi_or_dbg_def keeps_def split: instr.split callee.split)

lemma instrumented_keeps:
  assumes "keeps S M M'"
  shows "instrumented ndebug M' cfi bb f bs bs' \<longleftrightarrow> instrumented ndebug M cfi bb f bs bs'"
proof -
  have "is_intrinsic M' = is_intrinsic M" using assms by (simp add: keeps_def)
  then show ?thesis
    using mcall_intrinsics [of M' M] phi_or_dbg_keeps [OF assms] by (simp add: instrumented_def instrumented_block_def)
qed

section \<open>One function\<close>

text \<open>What is to be instrumented block by block: at the level of basic blocks, unless annotated.\<close>

definition has_blocks :: "control_flow_integrity \<Rightarrow> int \<Rightarrow> string \<Rightarrow> bool" where
  "has_blocks cfi level F \<longleftrightarrow> level = BASICBLOCK \<and> \<not> isIgnoredBlocksFunction cfi F"

definition hooked ::
    "bool \<Rightarrow> llvm_module \<Rightarrow> control_flow_integrity \<Rightarrow> bool \<Rightarrow> function_id \<Rightarrow> basic_block list \<Rightarrow> basic_block list \<Rightarrow> bool" where
  "hooked ndebug M cfi bb f bs bs' \<longleftrightarrow> (if bs = [] then bs' = [] else instrumented ndebug M cfi bb f bs bs')"

lemma hooked_keeps: "keeps S M M' \<Longrightarrow> hooked ndebug M' cfi bb f bs bs' \<longleftrightarrow> hooked ndebug M cfi bb f bs bs'"
  by (simp add: hooked_def instrumented_keeps)

lemma get_with_blocks:
  "get_function M f = Some F \<Longrightarrow>
   get_function (update_function (with_blocks_of h) f M) f = Some (F\<lparr>fn_blocks := h (fn_blocks F)\<rparr>)"
  by (simp add: get_update_function with_blocks_of_def)

lemma injectMcall_function:
  assumes "injectMcall ndebug cfi f M = Inr M'" "get_function M f = Some F" "\<not> isIgnoredFunction cfi f"
  shows "\<exists>bs. get_function M' f = Some (F\<lparr>fn_blocks := bs\<rparr>) \<and> keeps {f} M M' \<and>
    list_all2 (\<lambda>BB BB'. \<exists>Js. mcall_instrs ndebug M cfi None (bb_instrs BB) = Inr Js \<and> BB' = BB\<lparr>bb_instrs := Js\<rparr>) (fn_blocks F) bs"
proof -
  obtain bs where bs: "map_result (mcall_block ndebug M cfi) (fn_blocks F) = Inr bs" "M' = update_function (with_blocks_of (\<lambda>_. bs)) f M"
    using assms by (auto simp: injectMcall_def results function_of_name_def)
  have "list_all2 (\<lambda>BB BB'. mcall_block ndebug M cfi BB = Inr BB') (fn_blocks F) bs" using bs(1) by (simp add: map_result_Inr)
  then have "list_all2 (\<lambda>BB BB'. \<exists>Js. mcall_instrs ndebug M cfi None (bb_instrs BB) = Inr Js \<and> BB' = BB\<lparr>bb_instrs := Js\<rparr>) (fn_blocks F) bs"
    by (rule list_all2_mono) (auto simp: mcall_block_def results)
  then show ?thesis
    using get_with_blocks [OF assms(2), of "\<lambda>_. bs"] keeps_update [of f M "\<lambda>_. bs"] by (intro exI [of _ bs]) (simp add: bs(2))
qed

lemma injectBBEnter_function:
  assumes "injectBBEnter ndebug cfi f M = Inr M'" "get_function M f = Some F" "IdentifiedFunctions cfi f = Some i"
  shows "get_function M' f = Some (F\<lparr>fn_blocks := map (\<lambda>(k, BB). if k = 0 then BB
      else insert_nonphi M [hook_call ''__CFI_INTERNAL_BB_AFTER_BR'' [Const_int i, Const_int (of_nat k)]] BB) (enumerate 0 (fn_blocks F))\<rparr>) \<and>
    keeps {f} M M'"
proof -
  have "map_result (\<lambda>(k, BB). if k = 0 then Inr BB else and_then (getIdentifier ndebug cfi f) (\<lambda>f_id.
      Inr (insert_nonphi M [hook_call ''__CFI_INTERNAL_BB_AFTER_BR'' [Const_int f_id, Const_int (of_nat k)]] BB))) (enumerate 0 (fn_blocks F)) =
    Inr (map (\<lambda>(k, BB). if k = 0 then BB
      else insert_nonphi M [hook_call ''__CFI_INTERNAL_BB_AFTER_BR'' [Const_int i, Const_int (of_nat k)]] BB) (enumerate 0 (fn_blocks F)))"
    using assms(3) by (intro map_result_all) (auto simp: getIdentifier_def)
  then show ?thesis
    using assms(1,2) get_with_blocks [OF assms(2)] keeps_update
    by (auto simp: injectBBEnter_def results function_of_name_def)
qed

lemma injectBBLeave_function:
  assumes "injectBBLeave ndebug cfi f M = Inr M'" "get_function M f = Some F" "IdentifiedFunctions cfi f = Some i"
  shows "get_function M' f = Some (F\<lparr>fn_blocks := map (\<lambda>(k, BB). if k = length (fn_blocks F) - 1 then BB
      else insert_last [hook_call ''__CFI_INTERNAL_BB_BEFORE_BR'' [Const_int i, Const_int (of_nat k)]] BB) (enumerate 0 (fn_blocks F))\<rparr>) \<and>
    keeps {f} M M'"
proof -
  have "map_result (\<lambda>(k, BB). if k = length (fn_blocks F) - 1 then Inr BB else and_then (getIdentifier ndebug cfi f) (\<lambda>f_id.
      Inr (insert_last [hook_call ''__CFI_INTERNAL_BB_BEFORE_BR'' [Const_int f_id, Const_int (of_nat k)]] BB))) (enumerate 0 (fn_blocks F)) =
    Inr (map (\<lambda>(k, BB). if k = length (fn_blocks F) - 1 then BB
      else insert_last [hook_call ''__CFI_INTERNAL_BB_BEFORE_BR'' [Const_int i, Const_int (of_nat k)]] BB) (enumerate 0 (fn_blocks F)))"
    using assms(3) by (intro map_result_all) (auto simp: getIdentifier_def)
  then show ?thesis
    using assms(1,2) get_with_blocks [OF assms(2)] keeps_update
    by (auto simp: injectBBLeave_def results function_of_name_def)
qed

lemma injectMentry_function:
  assumes "injectMentry ndebug f i M = Inr M'" "get_function M f = Some F"
  shows "get_function M' f = Some (F\<lparr>fn_blocks := (fn_blocks F)[0 := insert_first [returnaddress_call ''saved_retaddr_prolog'',
      hook_call ''__CFI_INTERNAL_ENTER'' [Const_int i, Value ''saved_retaddr_prolog'']] (fn_blocks F ! 0)]\<rparr>) \<and> keeps {f} M M'"
proof -
  have "get_function (create_function g M) f = Some F" for g using assms(2) by (simp add: get_create_function)
  then show ?thesis
    using assms(1) keeps_trans [OF keeps_create keeps_update]
    by (auto simp: injectMentry_def results get_with_blocks)
qed

lemma injectMexit_function:
  assumes "injectMexit ndebug f i M = Inr M'" "get_function M f = Some F"
  shows "get_function M' f = Some (F\<lparr>fn_blocks := (fn_blocks F)[length (fn_blocks F) - 1 :=
      insert_last [returnaddress_call ''saved_retaddr_epilog'', hook_call ''__CFI_INTERNAL_EXIT'' [Const_int i, Value ''saved_retaddr_epilog'']]
        (fn_blocks F ! (length (fn_blocks F) - 1))]\<rparr>) \<and> keeps {f} M M'"
proof -
  have "get_function (create_function g M) f = Some F" for g using assms(2) by (simp add: get_create_function)
  then show ?thesis
    using assms(1) keeps_trans [OF keeps_create keeps_update]
    by (auto simp: injectMexit_def results get_with_blocks)
qed

lemma inject_function_ok:
  assumes "inject_function ndebug cfi level (name, c) M = Inr M'" "cf_fun c = f" "get_function M f = Some F"
    "\<not> isIgnoredFunction cfi f" "IdentifiedFunctions cfi f = Some (cf_id c)"
  shows "\<exists>bs. get_function M' f = Some (F\<lparr>fn_blocks := bs\<rparr>) \<and> keeps {f} M M' \<and>
    hooked ndebug M cfi (has_blocks cfi level f) (cf_id c) (fn_blocks F) bs"
proof -
  let ?bs = "fn_blocks F" and ?bb = "has_blocks cfi level f"
  obtain M1 where M1: "injectMcall ndebug cfi f M = Inr M1" using assms(1,2) by (auto simp: inject_function_def results Let_def)
  obtain bs1 where f1: "get_function M1 f = Some (F\<lparr>fn_blocks := bs1\<rparr>)" "keeps {f} M M1"
      "list_all2 (\<lambda>BB BB'. \<exists>Js. mcall_instrs ndebug M cfi None (bb_instrs BB) = Inr Js \<and> BB' = BB\<lparr>bb_instrs := Js\<rparr>) ?bs bs1"
    using injectMcall_function [OF M1 assms(3,4)] by blast
  have len1: "length bs1 = length ?bs" using f1(3) by (simp add: list_all2_lengthD)
  show ?thesis
  proof (cases "?bs = []")
    case True
    then have "M' = M1" using assms(1,2) M1 f1(1) len1 by (auto simp: inject_function_def results function_of_name_def is_declaration_def)
    then show ?thesis using f1 True len1 by (auto simp: hooked_def)
  next
    case False
    have ne: "bs1 \<noteq> []" using len1 False by auto
    define J where "J i = (SOME Js. mcall_instrs ndebug M cfi None (bb_instrs (?bs ! i)) = Inr Js \<and> bs1 ! i = (?bs ! i)\<lparr>bb_instrs := Js\<rparr>)" for i
    have J: "mcall_instrs ndebug M cfi None (bb_instrs (?bs ! i)) = Inr (J i)" "bs1 ! i = (?bs ! i)\<lparr>bb_instrs := J i\<rparr>" if "i < length ?bs" for i
      using someI_ex [OF list_all2_nthD [OF f1(3) that]] unfolding J_def [symmetric] by auto
    obtain M3 M4 where rest: "(if ?bb then and_then (injectBBEnter ndebug cfi f M1) (injectBBLeave ndebug cfi f) else Inr M1) = Inr M3"
        "injectMentry ndebug f (cf_id c) M3 = Inr M4" "injectMexit ndebug f (cf_id c) M4 = Inr M'"
      using assms(1,2) M1 f1(1) ne
      by (auto simp: inject_function_def results function_of_name_def is_declaration_def has_blocks_def Let_def)
    define bs3 where "bs3 = (if ?bb then map (\<lambda>(k, BB). if k = length ?bs - 1 then BB
        else insert_last [hook_call ''__CFI_INTERNAL_BB_BEFORE_BR'' [Const_int (cf_id c), Const_int (of_nat k)]] BB)
      (enumerate 0 (map (\<lambda>(k, BB). if k = 0 then BB
        else insert_nonphi M [hook_call ''__CFI_INTERNAL_BB_AFTER_BR'' [Const_int (cf_id c), Const_int (of_nat k)]] BB) (enumerate 0 bs1))) else bs1)"
    have f3: "get_function M3 f = Some (F\<lparr>fn_blocks := bs3\<rparr>) \<and> keeps {f} M1 M3"
    proof (cases ?bb)
      case True
      then obtain M2 where M2: "injectBBEnter ndebug cfi f M1 = Inr M2" "injectBBLeave ndebug cfi f M2 = Inr M3"
        using rest(1) by (auto simp: results)
      have nonphi: "insert_nonphi M1 = insert_nonphi M"
        using phi_or_dbg_keeps [OF f1(2)] by (intro ext) (simp add: insert_nonphi_def)
      show ?thesis
        using injectBBEnter_function [OF M2(1) f1(1) assms(5), unfolded nonphi] injectBBLeave_function [OF M2(2) _ assms(5)] True len1
          keeps_trans [of "{f}" M1 M2 "{f}" M3] by (auto simp: bs3_def)
    qed (use rest(1) f1(1) in \<open>simp add: bs3_def\<close>)
    have len3: "length bs3 = length ?bs" using len1 by (simp add: bs3_def)
    note f4 = injectMentry_function [OF rest(2) conjunct1 [OF f3]]
    note f5 = injectMexit_function [OF rest(3) conjunct1 [OF f4]]
    let ?n = "length ?bs"
    define bs4 where "bs4 = bs3[0 := insert_first [returnaddress_call ''saved_retaddr_prolog'',
      hook_call ''__CFI_INTERNAL_ENTER'' [Const_int (cf_id c), Value ''saved_retaddr_prolog'']] (bs3 ! 0)]"
    define bs5 where "bs5 = bs4[?n - 1 := insert_last [returnaddress_call ''saved_retaddr_epilog'',
      hook_call ''__CFI_INTERNAL_EXIT'' [Const_int (cf_id c), Value ''saved_retaddr_epilog'']] (bs4 ! (?n - 1))]"
    have "get_function M' f = Some (F\<lparr>fn_blocks := bs5\<rparr>)" using f5 len3 by (simp add: bs5_def bs4_def)
    moreover have "keeps {f} M M'"
      using keeps_trans [OF keeps_trans [OF keeps_trans [OF f1(2) conjunct2 [OF f3]] conjunct2 [OF f4]] conjunct2 [OF f5]] by simp
    moreover have "instrumented ndebug M cfi ?bb (cf_id c) ?bs bs5"
      unfolding instrumented_def
    proof (intro conjI allI impI)
      fix i
      assume i: "i < ?n"
      have b3: "bb_term (bs3 ! i) = bb_term (?bs ! i)" "bb_instrs (bs3 ! i) =
          (let Js = (if ?bb \<and> i \<noteq> 0 then takeWhile (is_phi_or_dbg M) (J i) @
              [hook_call ''__CFI_INTERNAL_BB_AFTER_BR'' [Const_int (cf_id c), Const_int (of_nat i)]] @ dropWhile (is_phi_or_dbg M) (J i) else J i)
           in if ?bb \<and> i \<noteq> ?n - 1 then Js @ [hook_call ''__CFI_INTERNAL_BB_BEFORE_BR'' [Const_int (cf_id c), Const_int (of_nat i)]] else Js)"
        using i len1 J(2) [OF i] by (auto simp: bs3_def nth_enumerate_eq insert_nonphi_def insert_last_def)
      have b5: "bs5 ! i = (if i = ?n - 1 then insert_last [returnaddress_call ''saved_retaddr_epilog'',
          hook_call ''__CFI_INTERNAL_EXIT'' [Const_int (cf_id c), Value ''saved_retaddr_epilog'']] else (\<lambda>BB. BB))
        ((if i = 0 then insert_first [returnaddress_call ''saved_retaddr_prolog'',
          hook_call ''__CFI_INTERNAL_ENTER'' [Const_int (cf_id c), Value ''saved_retaddr_prolog'']] else (\<lambda>BB. BB)) (bs3 ! i))"
        using i len3 by (cases "i = 0"; cases "i = ?n - 1") (simp_all add: bs5_def bs4_def)
      show "bb_term (bs5 ! i) = bb_term (?bs ! i)"
        using b3(1) unfolding b5 by (auto simp: insert_first_def insert_last_def)
      show "\<exists>Js. mcall_instrs ndebug M cfi None (bb_instrs (?bs ! i)) = Inr Js \<and>
          bb_instrs (bs5 ! i) = instrumented_block M ?bb (cf_id c) ?n i Js"
      proof (intro exI conjI)
        have b5i: "bb_instrs (bs5 ! i) =
            (let Js = (if i = 0
                then takeWhile (\<lambda>I. I = PHINode) (bb_instrs (bs3 ! i)) @ [returnaddress_call ''saved_retaddr_prolog'',
                    hook_call ''__CFI_INTERNAL_ENTER'' [Const_int (cf_id c), Value ''saved_retaddr_prolog'']] @
                  dropWhile (\<lambda>I. I = PHINode) (bb_instrs (bs3 ! i)) else bb_instrs (bs3 ! i))
             in if i = ?n - 1 then Js @ [returnaddress_call ''saved_retaddr_epilog'',
                hook_call ''__CFI_INTERNAL_EXIT'' [Const_int (cf_id c), Value ''saved_retaddr_epilog'']] else Js)"
          unfolding b5 by (auto simp: insert_first_def insert_last_def)
        show "mcall_instrs ndebug M cfi None (bb_instrs (?bs ! i)) = Inr (J i)" by (rule J(1) [OF i])
        show "bb_instrs (bs5 ! i) = instrumented_block M ?bb (cf_id c) ?n i (J i)"
          unfolding instrumented_block_def b5i b3(2) Let_def by (rule refl)
      qed
    qed (use len3 in \<open>simp add: bs5_def bs4_def\<close>)
    ultimately show ?thesis using False by (auto simp: hooked_def)
  qed
qed

section \<open>A unit\<close>

lemma inject_functions:
  assumes "fold_result (inject_function ndebug cfi level) xs M = Inr M'" "distinct (map fst xs)"
    "\<forall>(name, c) \<in> set xs. cf_fun c = name \<and> \<not> isIgnoredFunction cfi name \<and> IdentifiedFunctions cfi name = Some (cf_id c) \<and>
       get_function M name \<noteq> None"
  shows "keeps (fst ` set xs) M M' \<and>
    (\<forall>(name, c) \<in> set xs. \<exists>F bs. get_function M name = Some F \<and> get_function M' name = Some (F\<lparr>fn_blocks := bs\<rparr>) \<and>
      hooked ndebug M cfi (has_blocks cfi level name) (cf_id c) (fn_blocks F) bs)"
  using assms
proof (induction xs arbitrary: M)
  case (Cons x xs)
  obtain name c where x: "x = (name, c)" by (cases x)
  obtain M1 where M1: "inject_function ndebug cfi level (name, c) M = Inr M1"
      "fold_result (inject_function ndebug cfi level) xs M1 = Inr M'"
    using Cons.prems(1) by (auto simp: x results)
  obtain F where F: "get_function M name = Some F" using Cons.prems(3) by (auto simp: x)
  obtain bs where bs: "get_function M1 name = Some (F\<lparr>fn_blocks := bs\<rparr>)" "keeps {name} M M1"
      "hooked ndebug M cfi (has_blocks cfi level name) (cf_id c) (fn_blocks F) bs"
    using inject_function_ok [OF M1(1) _ F] Cons.prems(3) by (auto simp: x)
  have others: "get_function M1 g = get_function M g" if "(g, d) \<in> set xs" for g d
  proof -
    have "g \<noteq> name" "get_function M g \<noteq> None" using that Cons.prems(2,3) by (force simp: x)+
    then show ?thesis using bs(2) by (auto simp: keeps_def)
  qed
  have pre: "\<forall>(g, d) \<in> set xs. cf_fun d = g \<and> \<not> isIgnoredFunction cfi g \<and> IdentifiedFunctions cfi g = Some (cf_id d) \<and>
      get_function M1 g \<noteq> None"
  proof clarify
    fix g d
    assume gd: "(g, d) \<in> set xs"
    then show "cf_fun d = g \<and> \<not> isIgnoredFunction cfi g \<and> IdentifiedFunctions cfi g = Some (cf_id d) \<and> get_function M1 g \<noteq> None"
      using Cons.prems(3) others [OF gd] by auto
  qed
  have ih: "keeps (fst ` set xs) M1 M'"
    "\<forall>(g, d) \<in> set xs. \<exists>F bs. get_function M1 g = Some F \<and> get_function M' g = Some (F\<lparr>fn_blocks := bs\<rparr>) \<and>
      hooked ndebug M1 cfi (has_blocks cfi level g) (cf_id d) (fn_blocks F) bs"
    using Cons.IH [OF M1(2) _ pre] Cons.prems(2) by (simp_all add: x)
  have "name \<notin> fst ` set xs" using Cons.prems(2) by (simp add: x)
  then have "get_function M' name = Some (F\<lparr>fn_blocks := bs\<rparr>)" using keeps_SomeD [OF ih(1)] bs(1) by blast
  moreover have "keeps (fst ` set (x # xs)) M M'" using keeps_trans [OF bs(2) ih(1)] by (simp add: x)
  moreover have "\<forall>(g, d) \<in> set xs. \<exists>F bs. get_function M g = Some F \<and> get_function M' g = Some (F\<lparr>fn_blocks := bs\<rparr>) \<and>
      hooked ndebug M cfi (has_blocks cfi level g) (cf_id d) (fn_blocks F) bs"
    using ih(2) others unfolding hooked_keeps [OF bs(2)] by fastforce
  ultimately show ?case using F bs(3) by (auto simp: x)
qed simp

lemma injected_unit:
  assumes "InjectCode ndebug order cfi level M = Inr M'" "numbered_unit M ns cfi" "wf_unit M" "some_order order"
  shows "keeps (fn_name ` set (watched_functions M (IgnoredFunctions cfi))) M M'"
    "F \<in> set (watched_functions M (IgnoredFunctions cfi)) \<Longrightarrow>
      \<exists>bs. get_function M' (fn_name F) = Some (F\<lparr>fn_blocks := bs\<rparr>) \<and>
        hooked ndebug M cfi (has_blocks cfi level (fn_name F)) (the (numbers ns (fn_name F))) (fn_blocks F) bs"
proof -
  let ?W = "watched_functions M (IgnoredFunctions cfi)" and ?M = "injectPrototype M"
  have k: "keeps {} M ?M" unfolding injectPrototype_def by (rule keeps_fold_create)
  have W: "get_function ?M (fn_name G) = Some G" if "G \<in> set ?W" for G
    using keeps_SomeD [OF k _ get_function_unique [OF assms(3)]] that by (simp add: watched_functions_def)
  have fm: "distinct (map fst (FunctionMap cfi))"
    using function_map_names [OF assms(2)] distinct_watched [OF assms(3)] by simp
  have map: "FunctionMap cfi = map (fct_of ns) ?W" using assms(2) by (simp add: numbered_unit_def)
  have "cf_fun c = name \<and> \<not> isIgnoredFunction cfi name \<and> IdentifiedFunctions cfi name = Some (cf_id c) \<and> get_function ?M name \<noteq> None"
    if nc: "(name, c) \<in> set (FunctionMap cfi)" for name c
  proof -
    obtain G where G: "G \<in> set ?W" "name = fn_name G" "c = snd (fct_of ns G)" using nc unfolding map by (auto simp: fct_of_def)
    have "fn_name G \<in> set ns" using assms(2) G(1) by (auto simp: numbered_unit_def)
    then obtain i where "numbers ns (fn_name G) = Some i" by (metis not_None_eq numbers_None)
    then show ?thesis
      using G W [OF G(1)] assms(2)
      by (auto simp: fct_of_def numbered_unit_def knows_def isIgnoredFunction_def watched_functions_def watched_def)
  qed
  then have pre: "\<forall>(name, c) \<in> set (iterate order (FunctionMap cfi)). cf_fun c = name \<and> \<not> isIgnoredFunction cfi name \<and>
      IdentifiedFunctions cfi name = Some (cf_id c) \<and> get_function ?M name \<noteq> None"
    unfolding iterate_visits(1) [OF assms(4) fm] by blast
  have fold: "fold_result (inject_function ndebug cfi level) (iterate order (FunctionMap cfi)) ?M = Inr M'"
    using assms(1) by (simp add: InjectCode_def)
  note inj = inject_functions [OF fold iterate_visits(2) [OF assms(4) fm] pre]
  have "fst ` set (iterate order (FunctionMap cfi)) = fn_name ` set ?W"
    unfolding iterate_visits(1) [OF assms(4) fm] unfolding map by (force simp: fct_of_def)
  then show "keeps (fn_name ` set ?W) M M'" using keeps_trans [OF k conjunct1 [OF inj]] by simp
  assume F: "F \<in> set ?W"
  have "\<forall>(name, c) \<in> set (iterate order (FunctionMap cfi)). \<exists>F bs. get_function ?M name = Some F \<and>
      get_function M' name = Some (F\<lparr>fn_blocks := bs\<rparr>) \<and> hooked ndebug ?M cfi (has_blocks cfi level name) (cf_id c) (fn_blocks F) bs"
    using inj by blast
  moreover have "fct_of ns F \<in> set (iterate order (FunctionMap cfi))"
  proof -
    have "fct_of ns F \<in> set (FunctionMap cfi)" using F unfolding map by simp
    then show ?thesis unfolding iterate_visits(1) [OF assms(4) fm] .
  qed
  ultimately have "case fct_of ns F of (name, c) \<Rightarrow> \<exists>F bs. get_function ?M name = Some F \<and>
      get_function M' name = Some (F\<lparr>fn_blocks := bs\<rparr>) \<and> hooked ndebug ?M cfi (has_blocks cfi level name) (cf_id c) (fn_blocks F) bs"
    by (rule bspec)
  then show "\<exists>bs. get_function M' (fn_name F) = Some (F\<lparr>fn_blocks := bs\<rparr>) \<and>
      hooked ndebug M cfi (has_blocks cfi level (fn_name F)) (the (numbers ns (fn_name F))) (fn_blocks F) bs"
    using W [OF F] unfolding hooked_keeps [OF k] by (auto simp: fct_of_def)
qed

end
