(* ===== verification/Prelink_Parse.thy ===== *)
theory Prelink_Parse
  imports Module_Init Cfi_Pass
begin

text \<open>
  How \<open>prelink/picon-prelink\<close> reads the tables of the compiler pass: line by line, word by word, into
  dictionaries. \<open>None\<close> is an exception or an exit of the script. The order in which it iterates
  over a dictionary with numbers as keys is the parameter \<open>order\<close>.
\<close>

section \<open>Reading\<close>

definition py_int :: "string \<Rightarrow> int option" where
  "py_int s =
     (let neg = (s \<noteq> [] \<and> hd s = CHR ''-'');
          t = (if s \<noteq> [] \<and> hd s \<in> {CHR ''-'', CHR ''+''} then tl s else s)
      in if t = [] \<or> \<not> list_all is_digit t then None
         else Some (if neg then - int (digits_value t) else int (digits_value t)))"

fun py_ints :: "string list \<Rightarrow> int list option" where
  "py_ints [] = Some []"
| "py_ints (w # ws) = do { i \<leftarrow> py_int w; is \<leftarrow> py_ints ws; Some (i # is) }"

text \<open>The slices \<open>[1:-1]\<close> and \<open>[2:-1]\<close>.\<close>

definition slice :: "nat \<Rightarrow> string \<Rightarrow> string" where
  "slice n s = butlast (drop n s)"

fun parse_fctid_lines :: "string list \<Rightarrow> (string \<times> int \<times> string) list \<Rightarrow> (string \<times> int \<times> string) list option" where
  "parse_fctid_lines [] fcts = Some fcts"
| "parse_fctid_lines (line # ls) fcts =
     (case split_words line of
        [name, s_id, flags] \<Rightarrow> do {
          i_id \<leftarrow> py_int s_id;
          parse_fctid_lines ls (AList.update name (i_id, flags) fcts)
        }
      | _ \<Rightarrow> None)"

definition parse_fctids :: "string \<Rightarrow> (string \<times> int \<times> string) list option" where
  "parse_fctids txt = parse_fctid_lines (map rstrip (lines txt)) []"

text \<open>A row \<open>(ID) x y z\<close> of a graph.\<close>

definition parse_row :: "string \<Rightarrow> (int \<times> int list) option" where
  "parse_row line =
     (case split_words line of [] \<Rightarrow> None
      | w # ws \<Rightarrow> do { ID \<leftarrow> py_int (slice 1 w); xs \<leftarrow> py_ints ws; Some (ID, xs) })"

fun parse_callgraph_lines :: "string list \<Rightarrow> (int \<times> int list) list \<Rightarrow> (int \<times> int list) list option" where
  "parse_callgraph_lines [] callgraph = Some callgraph"
| "parse_callgraph_lines (line # ls) callgraph = do {
     (ID, callees) \<leftarrow> parse_row line;
     parse_callgraph_lines ls (AList.update ID callees callgraph)
   }"

definition parse_callgraph :: "string \<Rightarrow> (int \<times> int list) list option" where
  "parse_callgraph txt = parse_callgraph_lines (map rstrip (lines txt)) []"

text \<open>
  The current function, and for each function its number of blocks and its rows. The two
  dictionaries of the script have the same keys.
\<close>

type_synonym bb_tables = "(int \<times> int \<times> (int \<times> int list) list) list"

definition parse_bb_line :: "string \<Rightarrow> int option \<times> bb_tables \<Rightarrow> (int option \<times> bb_tables) option" where
  "parse_bb_line line = (\<lambda>(current_fct, bb).
     if take 2 line = '';{''
     then (case split_words line of
         w0 # w1 # _ \<Rightarrow> do {
           f \<leftarrow> py_int (slice 2 w0);
           num_blocks \<leftarrow> py_int w1;
           if map_of bb f \<noteq> None then None
           else Some (Some f, AList.update f (num_blocks, []) bb)
         }
       | _ \<Rightarrow> None)
     else if line = [] then Some (current_fct, bb)
     else do {
       (ID, next_bbs) \<leftarrow> parse_row line;
       f \<leftarrow> current_fct;
       (num_blocks, d) \<leftarrow> map_of bb f;
       Some (current_fct, AList.update f (num_blocks, AList.update ID next_bbs d) bb)
     })"

fun parse_bb_lines :: "string list \<Rightarrow> int option \<times> bb_tables \<Rightarrow> bb_tables option" where
  "parse_bb_lines [] s = Some (snd s)"
| "parse_bb_lines (line # ls) s = do { s \<leftarrow> parse_bb_line line s; parse_bb_lines ls s }"

definition parse_bb :: "string \<Rightarrow> bb_tables option" where
  "parse_bb txt = parse_bb_lines (map rstrip (lines txt)) (None, [])"

fun parse_bb_ipd_lines :: "string list \<Rightarrow> int list list option" where
  "parse_bb_ipd_lines [] = Some []"
| "parse_bb_ipd_lines (line # ls) = do {
     l_ipd \<leftarrow> py_ints (split_words line);
     bb_ipd \<leftarrow> parse_bb_ipd_lines ls;
     Some (l_ipd # bb_ipd)
   }"

definition parse_bb_ipd :: "string \<Rightarrow> int list list option" where
  "parse_bb_ipd txt = parse_bb_ipd_lines (map rstrip (lines txt))"

section \<open>From the files to the tables of a module\<close>

text \<open>\<open>struct.pack\<close> raises an exception on a number that is not one of 32 bits.\<close>

definition pack_int :: "int \<Rightarrow> u32 option" where
  "pack_int i = (if 0 \<le> i \<and> i < 2 ^ 32 then Some (word_of_int i) else None)"

fun pack_all :: "('a \<Rightarrow> 'b option) \<Rightarrow> 'a list \<Rightarrow> 'b list option" where
  "pack_all f [] = Some []"
| "pack_all f (x # xs) = do { y \<leftarrow> f x; ys \<leftarrow> pack_all f xs; Some (y # ys) }"

definition pack_graph_row :: "int \<times> int list \<Rightarrow> (u32 \<times> u32 list) option" where
  "pack_graph_row = (\<lambda>(i, xs). do { k \<leftarrow> pack_int i; ys \<leftarrow> pack_all pack_int xs; Some (k, ys) })"

definition bytes_of :: "string \<Rightarrow> byte list" where
  "bytes_of s = map (\<lambda>c. of_nat (of_char c)) s"

definition pack_function :: "string \<times> int \<times> string \<Rightarrow> (byte list \<times> function_id \<times> string) option" where
  "pack_function = (\<lambda>(name, i, flags). do { k \<leftarrow> pack_int i; Some (bytes_of name, k, flags) })"

definition pack_ipd_def :: "int list \<Rightarrow> (function_id \<times> block_id \<times> block_id \<times> block_id) option" where
  "pack_ipd_def l =
     (case l of
        [a, b, c, d] \<Rightarrow> do { a \<leftarrow> pack_int a; b \<leftarrow> pack_int b; c \<leftarrow> pack_int c; d \<leftarrow> pack_int d; Some (a, b, c, d) }
      | _ \<Rightarrow> None)"

definition pack_blocks ::
    "(int list \<Rightarrow> int list) \<Rightarrow> int \<times> int \<times> (int \<times> int list) list \<Rightarrow>
     (function_id \<times> u32 \<times> (block_id \<times> block_id list) list) option" where
  "pack_blocks order = (\<lambda>(f, n, d). do {
     f \<leftarrow> pack_int f;
     n \<leftarrow> pack_int n;
     rows \<leftarrow> pack_all pack_graph_row (iterate order d);
     Some (f, n, rows)
   })"

definition prelink :: "(int list \<Rightarrow> int list) \<Rightarrow> string \<Rightarrow> file_system \<Rightarrow> tables option" where
  "prelink order prefix fs = do {
     fcts \<leftarrow> contents fs (prefix @ ''.fctid'') \<bind> parse_fctids;
     callgraph \<leftarrow> contents fs (prefix @ ''.trans'') \<bind> parse_callgraph;
     fcts \<leftarrow> pack_all pack_function fcts;
     callgraph \<leftarrow> pack_all pack_graph_row (iterate order callgraph);
     (case contents fs (prefix @ ''.bbtrans'') of
        None \<Rightarrow> Some \<lparr>t_fcts = fcts, t_callgraph = callgraph, t_bb = None\<rparr>
      | Some txt \<Rightarrow> do {
          bb \<leftarrow> parse_bb txt;
          bb_ipd \<leftarrow> contents fs (prefix @ ''.ipdom'') \<bind> parse_bb_ipd;
          bb \<leftarrow> pack_all (pack_blocks order) (iterate order bb);
          bb_ipd \<leftarrow> pack_all pack_ipd_def bb_ipd;
          Some \<lparr>t_fcts = fcts, t_callgraph = callgraph, t_bb = Some (bb, bb_ipd)\<rparr>
        })
   }"

section \<open>What is written is what is read\<close>

lemma decimal_int_int [simp]: "decimal_int (int n) = decimal n"
  by (simp add: decimal_int_def)

lemma decimal_head: "\<exists>c s. decimal n = c # s \<and> is_digit c"
  using decimal_is_digit [of _ n] by (cases "decimal n") auto

lemma py_int_decimal_int [simp]: "py_int (decimal_int i) = Some i"
proof -
  obtain c t where d: "decimal (nat \<bar>i\<bar>) = c # t" "is_digit c" using decimal_head by blast
  then have "c \<noteq> CHR ''-''" "c \<noteq> CHR ''+''" by (auto simp: is_digit_def)
  moreover have "list_all is_digit (c # t)" "digits_value (c # t) = nat \<bar>i\<bar>"
    using decimal_digits [of "nat \<bar>i\<bar>"] by (simp_all only: d(1))
  ultimately show ?thesis using d(1) by (auto simp: py_int_def decimal_int_def Let_def)
qed

lemma py_int_decimal [simp]: "py_int (decimal n) = Some (int n)"
  using py_int_decimal_int [of "int n"] by simp

lemma is_word_decimal_int [simp]: "is_word (decimal_int i)"
proof -
  have "is_word ''-''" by (simp add: is_word_def is_space_def)
  then show ?thesis using is_word_append [of "''-''" "decimal (nat (- i))"] by (simp add: decimal_int_def)
qed

lemma py_ints_decimal [simp]: "py_ints (map decimal_int xs) = Some xs"
  by (induction xs) simp_all

lemma word_no_newline: "is_word w \<Longrightarrow> newline \<notin> set w"
  by (auto simp: is_word_def list_all_iff)

text \<open>A row without its line break.\<close>

definition row_text :: "int \<times> int list \<Rightarrow> string" where
  "row_text = (\<lambda>(k, xs). ''('' @ decimal_int k @ '') '' @ concat (map (\<lambda>c. decimal_int c @ '' '') xs))"

lemma callgraph_line_text: "callgraph_line r = row_text r @ [newline]"
  by (simp add: callgraph_line_def row_text_def split_beta)

lemma row_text_no_newline: "newline \<notin> set (row_text r)"
  using word_no_newline [OF is_word_decimal_int]
  by (auto simp: row_text_def split_beta newline_def)

lemma split_row_text: "split_words (row_text (k, xs)) = (''('' @ decimal_int k @ '')'') # map decimal_int xs"
proof -
  have "is_word (''('' @ decimal_int k @ '')'')"
    using is_word_decimal_int [of k] by (auto simp: is_word_def is_space_def)
  then have "split_words ((''('' @ decimal_int k @ '')'') @ '' '' @ concat (map (\<lambda>c. decimal_int c @ '' '') xs)) =
      (''('' @ decimal_int k @ '')'') # split_words ('' '' @ concat (map (\<lambda>c. decimal_int c @ '' '') xs))"
    by (rule split_words_word) simp
  moreover have "split_words (concat (map (\<lambda>c. decimal_int c @ '' '') xs)) = map decimal_int xs"
    using split_words_spaced [of "map decimal_int xs" "[]"] by (simp add: list_all_iff comp_def)
  ultimately show ?thesis by (simp add: row_text_def)
qed

lemma parse_row_text: "parse_row (rstrip (row_text (k, xs))) = Some (k, xs)"
  by (simp add: parse_row_def split_words_rstrip split_row_text slice_def butlast_append)

lemma rstrip_Cons: "\<not> is_space c \<Longrightarrow> rstrip (c # s) = c # rstrip s"
proof -
  assume c: "\<not> is_space c"
  have "dropWhile is_space (xs @ [c]) = dropWhile is_space xs @ [c]" for xs using c by (induction xs) simp_all
  then show ?thesis by (simp add: rstrip_def)
qed

lemma lines_rows: "lines (concat (map callgraph_line rows) @ t) = map row_text rows @ lines t"
proof -
  have "concat (map callgraph_line rows) = concat (map (\<lambda>l. l @ [newline]) (map row_text rows))"
    by (simp add: callgraph_line_text [abs_def] comp_def)
  then show ?thesis using lines_concat [of "map row_text rows" t] row_text_no_newline by simp
qed

lemma parse_callgraph_rows:
  "parse_callgraph (concat (map callgraph_line rows)) = Some (fold (\<lambda>(k, xs). AList.update k xs) rows [])"
proof -
  have "parse_callgraph_lines (map rstrip (map row_text rows)) cg = Some (fold (\<lambda>(k, xs). AList.update k xs) rows cg)" for cg
    by (induction rows arbitrary: cg) (auto simp: parse_row_text)
  then show ?thesis using lines_rows [of rows "[]"] by (simp add: parse_callgraph_def)
qed

subsection \<open>Blocks\<close>

definition header_text :: "int \<times> int \<Rightarrow> string" where
  "header_text = (\<lambda>(f, n). '';{'' @ decimal_int f @ ''} '' @ decimal_int n)"

definition blocks_text :: "int \<times> int \<times> (int \<times> int list) list \<Rightarrow> string" where
  "blocks_text = (\<lambda>(f, n, rows). header_text (f, n) @ [newline] @
     (if n = 1 then [] else concat (map callgraph_line rows) @ [newline]))"

lemma header_no_newline: "newline \<notin> set (header_text h)"
  using word_no_newline [OF is_word_decimal_int] by (auto simp: header_text_def split_beta newline_def)

lemma split_header: "split_words (header_text (f, n)) = ['';{'' @ decimal_int f @ ''}'', decimal_int n]"
proof -
  have w: "is_word ('';{'' @ decimal_int f @ ''}'')"
    using is_word_decimal_int [of f] by (auto simp: is_word_def is_space_def)
  have "split_words (('';{'' @ decimal_int f @ ''}'') @ '' '' @ decimal_int n) =
      ('';{'' @ decimal_int f @ ''}'') # split_words ('' '' @ decimal_int n)"
    using w by (rule split_words_word) simp
  moreover have "split_words (decimal_int n) = [decimal_int n]"
    using split_words_word [of "decimal_int n" "[]"] by simp
  ultimately show ?thesis by (simp add: header_text_def)
qed

lemma parse_header:
  assumes "f \<notin> fst ` set bb"
  shows "parse_bb_line (rstrip (header_text (f, n))) (cur, bb) = Some (Some f, bb @ [(f, n, [])])"
proof -
  have "take 2 (rstrip (header_text (f, n))) = '';{''"
    by (simp add: header_text_def rstrip_Cons is_space_def)
  moreover have "map_of bb f = None" using assms by (simp add: map_of_eq_None_iff)
  moreover have "AList.update f v bb = bb @ [(f, v)]" for v using assms by (induction bb) auto
  ultimately show ?thesis
    by (simp add: parse_bb_line_def split_words_rstrip split_header slice_def butlast_append)
qed

lemma parse_bb_row:
  assumes "f \<notin> fst ` set bb" "fst r \<notin> fst ` set d"
  shows "parse_bb_line (rstrip (row_text r)) (Some f, bb @ [(f, n, d)]) = Some (Some f, bb @ [(f, n, d @ [r])])"
proof -
  obtain k xs where r: "r = (k, xs)" by (cases r)
  have line: "rstrip (row_text r) = CHR ''('' # rstrip (decimal_int k @ '') '' @ concat (map (\<lambda>c. decimal_int c @ '' '') xs))"
    by (simp add: r row_text_def rstrip_Cons is_space_def)
  have "map_of bb f = None" using assms(1) by (simp add: map_of_eq_None_iff)
  then have "map_of (bb @ [(f, n, d)]) f = Some (n, d)" by (simp add: map_add_def)
  moreover have "AList.update f v (bb @ [(f, n, d)]) = bb @ [(f, v)]" for v using assms(1) by (induction bb) auto
  moreover have "AList.update k xs d = d @ [(k, xs)]" using assms(2) by (induction d) (auto simp: r)
  moreover have "parse_row (rstrip (row_text r)) = Some (k, xs)" by (simp add: r parse_row_text)
  ultimately show ?thesis unfolding parse_bb_line_def using line by (auto simp: r)
qed

lemma parse_bb_rows:
  assumes "f \<notin> fst ` set bb" "distinct (map fst (d @ rows))"
  shows "parse_bb_lines (map rstrip (map row_text rows) @ ls) (Some f, bb @ [(f, n, d)]) =
    parse_bb_lines ls (Some f, bb @ [(f, n, d @ rows)])"
  using assms(2)
proof (induction rows arbitrary: d)
  case (Cons r rows)
  then show ?case using parse_bb_row [OF assms(1), of r d n] Cons.IH [of "d @ [r]"] by simp
qed simp

lemma parse_blocks_text:
  assumes "f \<notin> fst ` set bb" "distinct (map fst rows)" "n = 1 \<Longrightarrow> rows = []"
  shows "parse_bb_lines (map rstrip (lines (blocks_text (f, n, rows) @ t))) (cur, bb) =
    parse_bb_lines (map rstrip (lines t)) (Some f, bb @ [(f, n, rows)])"
proof -
  have head: "lines (header_text (f, n) @ newline # t') = header_text (f, n) # lines t'" for t'
    by (rule lines_line [OF header_no_newline])
  show ?thesis
  proof (cases "n = 1")
    case True
    then show ?thesis using assms head [of t] parse_header [OF assms(1), of n cur] by (simp add: blocks_text_def)
  next
    case False
    have "lines (newline # t) = [] # lines t" using lines_line [of "[]" t] by simp
    moreover have "parse_bb_line [] (Some f, bb') = Some (Some f, bb')" for bb' by (simp add: parse_bb_line_def)
    moreover have "rstrip [] = []" by (simp add: rstrip_def)
    ultimately show ?thesis
      using False head parse_header [OF assms(1), of n cur] parse_bb_rows [OF assms(1), of "[]" rows _ n] assms(2)
        lines_rows [of rows "newline # t"]
      by (simp add: blocks_text_def)
  qed
qed

lemma parse_bb_text:
  assumes "distinct (map fst fs)" "\<forall>(f, n, rows) \<in> set fs. distinct (map fst rows) \<and> (n = 1 \<longrightarrow> rows = [])"
  shows "parse_bb (concat (map blocks_text fs)) = Some fs"
proof -
  have "parse_bb_lines (map rstrip (lines (concat (map blocks_text fs)))) (cur, bb) = Some (bb @ fs)"
    if "distinct (map fst (bb @ fs))" for cur bb
    using that assms(2)
  proof (induction fs arbitrary: cur bb)
    case (Cons x fs)
    obtain f n rows where x: "x = (f, n, rows)" by (metis surj_pair)
    have "f \<notin> fst ` set bb" "distinct (map fst rows)" "n = 1 \<Longrightarrow> rows = []" using Cons.prems by (auto simp: x)
    then show ?case
      using parse_blocks_text [of f bb rows n "concat (map blocks_text fs)" cur] Cons.IH [of "bb @ [x]" "Some f"] Cons.prems
      by (simp add: x)
  qed simp
  from this [of "[]" None] show ?thesis using assms(1) by (simp add: parse_bb_def)
qed

subsection \<open>Post-dominators\<close>

definition ipd_text :: "int \<times> int \<times> int \<times> int \<Rightarrow> string" where
  "ipd_text = (\<lambda>(f, b, p, l). decimal_int f @ '' '' @ decimal_int b @ '' '' @ decimal_int p @ '' '' @ decimal_int l)"

lemma split_ipd_text: "split_words (ipd_text (f, b, p, l)) = map decimal_int [f, b, p, l]"
  using split_words_spaced [of "map decimal_int [f, b, p]" "decimal_int l"] split_words_word [of "decimal_int l" "[]"]
  by (simp add: ipd_text_def)

lemma parse_bb_ipd_text:
  "parse_bb_ipd (concat (map (\<lambda>r. ipd_text r @ [newline]) rows)) = Some (map (\<lambda>(f, b, p, l). [f, b, p, l]) rows)"
proof -
  have nl: "newline \<notin> set (ipd_text r)" for r
    using word_no_newline [OF is_word_decimal_int] by (auto simp: ipd_text_def split_beta newline_def)
  have "concat (map (\<lambda>r. ipd_text r @ [newline]) rows) = concat (map (\<lambda>l. l @ [newline]) (map ipd_text rows))"
    by (simp add: comp_def)
  then have "lines (concat (map (\<lambda>r. ipd_text r @ [newline]) rows)) = map ipd_text rows"
    using lines_concat [of "map ipd_text rows" "[]"] nl by simp
  moreover have "parse_bb_ipd_lines (map rstrip (map ipd_text rows)) = Some (map (\<lambda>(f, b, p, l). [f, b, p, l]) rows)"
  proof (induction rows)
    case (Cons r rows)
    obtain f b p l where "r = (f, b, p, l)" by (metis surj_pair)
    then show ?case using Cons.IH split_ipd_text [of f b p l] py_ints_decimal [of "[f, b, p, l]"] by (simp add: split_words_rstrip)
  qed simp
  ultimately show ?thesis by (simp add: parse_bb_ipd_def)
qed

end
