(* ===== verification/Pass_Graphs.thy ===== *)
theory Pass_Graphs
  imports Pass_Numbers Prelink_Parse
begin

text \<open>
  What the tables of a unit say of its code: the call graph has the calls of its functions and
  nothing else, a section of blocks has the jumps of its function, and the prelink script reads
  back what the pass has written.
\<close>

section \<open>Calls\<close>

fun callee_name :: "instr \<Rightarrow> string option" where
  "callee_name (CallInst _ (Function g) _) = Some g"
| "callee_name _ = None"

definition called :: "basic_block list \<Rightarrow> string set" where
  "called bs = {g. \<exists>BB \<in> set bs. \<exists>I \<in> set (bb_instrs BB). callee_name I = Some g}"

text \<open>The code the pass can handle: no indirect calls and no \<open>invoke\<close>.\<close>

fun direct :: "instr \<Rightarrow> bool" where
  "direct (CallInst _ Indirect _) = False"
| "direct _ = True"

definition analysable :: "basic_block list \<Rightarrow> bool" where
  "analysable bs \<longleftrightarrow> list_all (\<lambda>BB. list_all direct (bb_instrs BB) \<and> \<not> is_invoke (bb_term BB)) bs"

text \<open>The numbers of the functions an instruction calls.\<close>

definition callee_ids :: "llvm_module \<Rightarrow> control_flow_integrity \<Rightarrow> instr \<Rightarrow> u32 list" where
  "callee_ids M cfi I =
     (case callee_name I of None \<Rightarrow> []
      | Some g \<Rightarrow>
        if watched M (IgnoredFunctions cfi) g then (case IdentifiedFunctions cfi g of Some i \<Rightarrow> [i] | None \<Rightarrow> []) else [])"

definition block_callees :: "llvm_module \<Rightarrow> control_flow_integrity \<Rightarrow> basic_block list \<Rightarrow> u32 list" where
  "block_callees M cfi bs = concat (map (\<lambda>BB. concat (map (callee_ids M cfi) (bb_instrs BB))) bs)"

lemma map_result_if:
  assumes "\<And>x. x \<in> set xs \<Longrightarrow> f x = (if P x then Inr (g x) else Inl e)"
  shows "map_result f xs = (if list_all P xs then Inr (map g xs) else Inl e)"
  using assms by (induction xs) auto

lemma callees_of_instr_if: "callees_of_instr M cfi I = (if direct I then Inr (callee_ids M cfi I) else Inl Fatal_error)"
  by (auto simp: callees_of_instr_def callee_ids_def watched_def isIgnoredFunction_def split: instr.splits callee.splits option.splits)

lemma callees_of_block_if:
  "callees_of_block M cfi BB = (if list_all direct (bb_instrs BB) \<and> \<not> is_invoke (bb_term BB)
     then Inr (concat (map (callee_ids M cfi) (bb_instrs BB))) else Inl Fatal_error)"
  using map_result_if [of "bb_instrs BB" "callees_of_instr M cfi", OF callees_of_instr_if] by (simp add: callees_of_block_def)

lemma callees_of_function_if:
  "callees_of_function M cfi (name, c) =
    (let bs = fn_blocks (function_of_name M (cf_fun c)) in
     if analysable bs then Inr (map (Pair (cf_id c)) (block_callees M cfi bs)) else Inl Fatal_error)"
  using map_result_if [of _ "callees_of_block M cfi", OF callees_of_block_if]
  by (simp add: callees_of_function_def analysable_def block_callees_def Let_def)

definition unit_edges :: "hash_order \<Rightarrow> llvm_module \<Rightarrow> control_flow_integrity \<Rightarrow> (int \<times> int) list" where
  "unit_edges order M cfi =
     map (\<lambda>(i, j). (sint i, sint j)) (concat (map (\<lambda>(name, c).
       map (Pair (cf_id c)) (block_callees M cfi (fn_blocks (function_of_name M (cf_fun c))))) (iterate order (FunctionMap cfi))))"

lemma block_callees_set:
  assumes "IdentifiedFunctions cfi = numbers ns"
  shows "set (block_callees M cfi bs) =
    {j. \<exists>g. g \<in> called bs \<and> watched M (IgnoredFunctions cfi) g \<and> numbers ns g = Some j}"
proof -
  have "j \<in> set (callee_ids M cfi I) \<longleftrightarrow> (\<exists>g. callee_name I = Some g \<and>
      watched M (IgnoredFunctions cfi) g \<and> numbers ns g = Some j)" for I j
  proof (cases "callee_name I")
    case None
    then have "callee_ids M cfi I = []" by (simp add: callee_ids_def)
    then show ?thesis using None by simp
  next
    case (Some g)
    then have "callee_ids M cfi I = (if watched M (IgnoredFunctions cfi) g \<and> numbers ns g \<noteq> None then [the (numbers ns g)] else [])"
      using assms by (auto simp: callee_ids_def split: option.splits)
    then show ?thesis using Some by auto
  qed
  then have "j \<in> set (block_callees M cfi bs) \<longleftrightarrow> (\<exists>g. g \<in> called bs \<and> watched M (IgnoredFunctions cfi) g \<and> numbers ns g = Some j)" for j
    unfolding called_def block_callees_def by simp blast
  then show ?thesis by blast
qed

lemma function_map_entry:
  assumes "numbered_unit M ns cfi" "wf_unit M" "some_order order"
  shows "set (iterate order (FunctionMap cfi)) = fct_of ns ` set (watched_functions M (IgnoredFunctions cfi))"
    "F \<in> set (watched_functions M (IgnoredFunctions cfi)) \<Longrightarrow> function_of_name M (fn_name F) = F"
    "F \<in> set (watched_functions M (IgnoredFunctions cfi)) \<Longrightarrow> numbers ns (fn_name F) = Some (the (numbers ns (fn_name F)))"
proof -
  have fm: "distinct (map fst (FunctionMap cfi))"
    using function_map_names [OF assms(1)] distinct_watched [OF assms(2)] by simp
  show "set (iterate order (FunctionMap cfi)) = fct_of ns ` set (watched_functions M (IgnoredFunctions cfi))"
    unfolding iterate_visits(1) [OF assms(3) fm] using assms(1) by (simp add: numbered_unit_def)
  assume F: "F \<in> set (watched_functions M (IgnoredFunctions cfi))"
  then show "function_of_name M (fn_name F) = F"
    using function_of_name_eq [OF get_function_unique [OF assms(2)]] by (simp add: watched_functions_def)
  have "fn_name F \<in> set ns" using F assms(1) by (auto simp: numbered_unit_def)
  then show "numbers ns (fn_name F) = Some (the (numbers ns (fn_name F)))" using numbers_None [of ns "fn_name F"] by auto
qed

lemma written_callgraph:
  assumes "numbered_unit M ns cfi" "wf_unit M" "some_order order"
  shows "writeCallgraph order M cfi =
    (if \<forall>F \<in> set (watched_functions M (IgnoredFunctions cfi)). analysable (fn_blocks F)
     then Inr (concat (map callgraph_line (map_of_sets (unit_edges order M cfi)))) else Inl Fatal_error)"
proof -
  note fm = function_map_entry [OF assms]
  have "map_result (callees_of_function M cfi) (iterate order (FunctionMap cfi)) =
      (if list_all (\<lambda>x. analysable (fn_blocks (function_of_name M (cf_fun (snd x))))) (iterate order (FunctionMap cfi))
       then Inr (map (\<lambda>(name, c). map (Pair (cf_id c)) (block_callees M cfi (fn_blocks (function_of_name M (cf_fun c)))))
         (iterate order (FunctionMap cfi))) else Inl Fatal_error)"
    by (rule map_result_if) (auto simp: callees_of_function_if Let_def)
  moreover have "list_all (\<lambda>x. analysable (fn_blocks (function_of_name M (cf_fun (snd x))))) (iterate order (FunctionMap cfi)) \<longleftrightarrow>
      (\<forall>F \<in> set (watched_functions M (IgnoredFunctions cfi)). analysable (fn_blocks F))"
    unfolding list_all_iff fm(1) using fm(2) by (simp add: fct_of_def)
  ultimately show ?thesis by (simp add: writeCallgraph_def unit_edges_def)
qed

text \<open>The edges are the calls of the code.\<close>

definition calls_of :: "llvm_module \<Rightarrow> string set \<Rightarrow> string list \<Rightarrow> (u32 \<times> u32) set" where
  "calls_of M ignored ns = {(i, j). \<exists>F g. F \<in> set (watched_functions M ignored) \<and> g \<in> called (fn_blocks F) \<and>
     watched M ignored g \<and> numbers ns (fn_name F) = Some i \<and> numbers ns g = Some j}"

lemma unit_edges_calls:
  assumes "numbered_unit M ns cfi" "wf_unit M" "some_order order"
  shows "set (unit_edges order M cfi) = (\<lambda>(i, j). (sint i, sint j)) ` calls_of M (IgnoredFunctions cfi) ns"
proof -
  note fm = function_map_entry [OF assms]
  have known: "IdentifiedFunctions cfi = numbers ns" using assms(1) by (simp add: numbered_unit_def knows_def)
  let ?W = "watched_functions M (IgnoredFunctions cfi)"
  have "set (concat (map (\<lambda>(name, c).
      map (Pair (cf_id c)) (block_callees M cfi (fn_blocks (function_of_name M (cf_fun c))))) (iterate order (FunctionMap cfi)))) =
    (\<Union>F \<in> set ?W. Pair (the (numbers ns (fn_name F))) ` set (block_callees M cfi (fn_blocks F)))"
    using fm(2) by (simp add: fm(1) fct_of_def)
  also have "\<dots> = calls_of M (IgnoredFunctions cfi) ns"
    unfolding block_callees_set [OF known] calls_of_def using fm(3) by fastforce
  finally show ?thesis by (simp add: unit_edges_def)
qed

lemma map_of_sets_lookup:
  "map_of (map_of_sets edges) k = (if k \<in> fst ` set edges then Some (sort (remdups (map snd (filter (\<lambda>e. fst e = k) edges)))) else None)"
proof -
  have "map_of (map (\<lambda>k. (k, f k)) ks) k = (if k \<in> set ks then Some (f k) else None)" for ks and f :: "int \<Rightarrow> int list"
    by (induction ks) auto
  then show ?thesis by (simp add: map_of_sets_def)
qed

lemma map_of_sets_keys: "distinct (map fst (map_of_sets edges))" "set (map fst (map_of_sets edges)) = fst ` set edges"
  by (simp_all add: map_of_sets_def comp_def)

lemma map_of_sets_edges:
  "(\<exists>xs. map_of (map_of_sets edges) k = Some xs \<and> j \<in> set xs) \<longleftrightarrow> (k, j) \<in> set edges"
  by (force simp: map_of_sets_lookup)

lemma map_of_fold_update: "map_of (fold (\<lambda>(k, v). AList.update k v) rows m) = fold (\<lambda>(k, v) m. m(k \<mapsto> v)) rows (map_of m)"
  by (induction rows arbitrary: m) (auto simp: update_conv')

lemma parse_callgraph_unit:
  "parse_callgraph (concat (map callgraph_line (map_of_sets edges))) = Some (map_of_sets edges)"
  using parse_callgraph_rows [of "map_of_sets edges"] fold_update_distinct [of "[]" "map_of_sets edges"] map_of_sets_keys(1)
  by simp

section \<open>Jumps\<close>

text \<open>Blocks have numbers of 32 bits and lead to blocks of their function.\<close>

definition closed_blocks :: "basic_block list \<Rightarrow> bool" where
  "closed_blocks bs \<longleftrightarrow> length bs < 2 ^ 32 \<and> list_all (\<lambda>BB. list_all (\<lambda>s. s < length bs) (successors (bb_term BB))) bs"

definition block_rows :: "basic_block list \<Rightarrow> (int \<times> int list) list" where
  "block_rows bs =
     (if length bs = 1 then []
      else map (\<lambda>(i, BB). (int i, map int (successors (bb_term BB))))
        (filter (\<lambda>(i, BB). successors (bb_term BB) \<noteq> []) (enumerate 0 bs)))"

definition blocks_section :: "string list \<Rightarrow> llvm_function \<Rightarrow> int \<times> int \<times> (int \<times> int list) list" where
  "blocks_section ns F = (int (unat (the (numbers ns (fn_name F)))), int (length (fn_blocks F)), block_rows (fn_blocks F))"

definition has_section :: "llvm_module \<Rightarrow> control_flow_integrity \<Rightarrow> string \<Rightarrow> bool" where
  "has_section M cfi name \<longleftrightarrow> \<not> isIgnoredBlocksFunction cfi name \<and> \<not> is_declaration (function_of_name M name)"

definition unit_sections ::
    "hash_order \<Rightarrow> llvm_module \<Rightarrow> string list \<Rightarrow> control_flow_integrity \<Rightarrow> (int \<times> int \<times> (int \<times> int list) list) list" where
  "unit_sections order M ns cfi =
     map (blocks_section ns \<circ> function_of_name M) (filter (has_section M cfi) (map fst (iterate order (FunctionMap cfi))))"

lemma bb_number_position:
  assumes "i < n" "n < 2 ^ 32"
  shows "unat (bb_number (map (\<lambda>i. (i, of_nat i)) [0..<n]) i) = i"
proof -
  have "map_of (map (\<lambda>i. (i, of_nat i :: u32)) [0..<n]) i = Some (of_nat i)"
    using assms(1) map_of_eq_Some_iff [of "map (\<lambda>i. (i, of_nat i :: u32)) [0..<n]"] by (simp add: comp_def)
  then show ?thesis using assms by (simp add: bb_number_def unat_of_nat_u32)
qed

lemma bb_lines_rows:
  assumes "closed_blocks bs" "length bs \<noteq> 1"
  shows "concat (map (bb_line (map (\<lambda>i. (i, of_nat i)) [0..<length bs])) (enumerate 0 bs)) =
    concat (map callgraph_line (block_rows bs))"
proof -
  let ?m = "map (\<lambda>i. (i, of_nat i)) [0..<length bs] :: (nat \<times> u32) list"
  have line: "bb_line ?m (i, BB) = (if successors (bb_term BB) = [] then []
      else callgraph_line (int i, map int (successors (bb_term BB))))" if "(i, BB) \<in> set (enumerate 0 bs)" for i BB
  proof -
    have i: "i < length bs" "bs ! i = BB" using that by (auto simp: in_set_enumerate_eq)
    have "unat (bb_number ?m s) = s" if s: "s = i \<or> s \<in> set (successors (bb_term BB))" for s
    proof (rule bb_number_position)
      show "s < length bs" using s i nth_mem [of i bs] assms(1) by (auto simp: closed_blocks_def list_all_iff)
    qed (use assms(1) in \<open>simp add: closed_blocks_def\<close>)
    then have "map (\<lambda>s. decimal (unat (bb_number ?m s)) @ '' '') (successors (bb_term BB)) =
        map (\<lambda>s. decimal s @ '' '') (successors (bb_term BB))" "unat (bb_number ?m i) = i"
      by simp_all
    then have "concat (map (\<lambda>s. decimal (unat (bb_number ?m s)) @ '' '') (successors (bb_term BB))) =
        concat (map (\<lambda>s. decimal s @ '' '') (successors (bb_term BB)))" "unat (bb_number ?m i) = i"
      by (simp_all only:)
    then show ?thesis unfolding bb_line_def callgraph_line_def prod.case by (simp add: comp_def)
  qed
  have "concat (map (bb_line ?m) xs) =
      concat (map callgraph_line (map (\<lambda>(i, BB). (int i, map int (successors (bb_term BB))))
        (filter (\<lambda>(i, BB). successors (bb_term BB) \<noteq> []) xs)))" if "set xs \<subseteq> set (enumerate 0 bs)" for xs
    using that
  proof (induction xs)
    case (Cons x xs)
    obtain i BB where x: "x = (i, BB)" by (cases x)
    have "bb_line ?m x = (if successors (bb_term BB) = [] then []
      else callgraph_line (int i, map int (successors (bb_term BB))))" using line [of i BB] Cons.prems by (simp add: x)
    moreover have ih: "concat (map (bb_line ?m) xs) =
      concat (map callgraph_line (map (\<lambda>(i, BB). (int i, map int (successors (bb_term BB))))
        (filter (\<lambda>(i, BB). successors (bb_term BB) \<noteq> []) xs)))" using Cons.IH Cons.prems by simp
    ultimately show ?case by (simp add: x del: map_map)
  qed simp
  then show ?thesis using assms(2) by (simp add: block_rows_def del: map_map)
qed

lemma decimal_int_word [simp]: "decimal_int (uint (i :: u32)) = decimal (unat i)"
  using decimal_int_int [of "unat i"] by simp

lemma written_blocks:
  assumes "numbered_unit M ns cfi" "wf_unit M" "some_order order"
    "\<forall>F \<in> set (watched_functions M (IgnoredFunctions cfi)). closed_blocks (fn_blocks F)"
  shows "writeAllowedBBTrans order M cfi = concat (map blocks_text (unit_sections order M ns cfi))"
proof -
  note fm = function_map_entry [OF assms(1-3)]
  let ?W = "watched_functions M (IgnoredFunctions cfi)"
  have fn: "function_blocks_text M cfi (fct_of ns F) =
      (if has_section M cfi (fn_name F) then blocks_text (blocks_section ns F) else [])" if F: "F \<in> set ?W" for F
  proof -
    have "fn_name F \<notin> IgnoredFunctions cfi" using F by (simp add: watched_functions_def watched_def)
    moreover have "closed_blocks (fn_blocks F)" using assms(4) F by blast
    ultimately show ?thesis
      using fm(2) [OF F] bb_lines_rows [of "fn_blocks F"]
      by (auto simp: function_blocks_text_def fct_of_def Let_def has_section_def isIgnoredFunction_def blocks_text_def
          blocks_section_def header_text_def)
  qed
  have "concat (map (function_blocks_text M cfi) xs) =
      concat (map blocks_text (map (blocks_section ns \<circ> function_of_name M) (filter (has_section M cfi) (map fst xs))))"
    if "set xs \<subseteq> fct_of ns ` set ?W" for xs
    using that
  proof (induction xs)
    case (Cons x xs)
    then obtain F where F: "F \<in> set ?W" "x = fct_of ns F" by auto
    moreover from this have "fst x = fn_name F" by (simp add: fct_of_def)
    ultimately show ?case using fn [OF F(1)] fm(2) [OF F(1)] Cons.IH Cons.prems by simp
  qed simp
  from this [of "iterate order (FunctionMap cfi)"] show ?thesis
    by (simp add: writeAllowedBBTrans_def unit_sections_def fm(1))
qed

lemma block_rows_keys: "distinct (map fst (block_rows bs))"
proof -
  have "distinct (map fst (enumerate 0 bs))" by simp
  then have "distinct (map fst (filter P (enumerate 0 bs)))" for P by (rule distinct_map_filter)
  then have "distinct (map int (map fst (filter P (enumerate 0 bs))))" for P by (simp only: distinct_map [of int] inj_on_of_nat simp_thms)
  then show ?thesis by (simp add: block_rows_def comp_def split_beta)
qed

lemma unit_sections_keys:
  assumes "numbered_unit M ns cfi" "wf_unit M" "some_order order"
  shows "distinct (map fst (unit_sections order M ns cfi))"
    "set (unit_sections order M ns cfi) =
      blocks_section ns ` {F \<in> set (watched_functions M (IgnoredFunctions cfi)). has_section M cfi (fn_name F)}"
proof -
  note fm = function_map_entry [OF assms(1-3)]
  let ?W = "watched_functions M (IgnoredFunctions cfi)"
  let ?names = "map fst (iterate order (FunctionMap cfi))"
  have names: "set ?names = fn_name ` set ?W" unfolding set_map fm(1) by (force simp: fct_of_def)
  show "set (unit_sections order M ns cfi) = blocks_section ns ` {F \<in> set ?W. has_section M cfi (fn_name F)}"
  proof -
    have "set (unit_sections order M ns cfi) = (blocks_section ns \<circ> function_of_name M) ` {n \<in> fn_name ` set ?W. has_section M cfi n}"
      unfolding unit_sections_def set_map set_filter names [simplified set_map] ..
    also have "\<dots> = blocks_section ns ` {F \<in> set ?W. has_section M cfi (fn_name F)}" using fm(2) by (force simp: image_iff)
    finally show ?thesis .
  qed
  have dist: "distinct ?names"
  proof -
    have "distinct (map fst (FunctionMap cfi))" using function_map_names [OF assms(1)] distinct_watched [OF assms(2)] by simp
    then show ?thesis by (rule iterate_visits(2) [OF assms(3)])
  qed
  have "inj_on (\<lambda>n. int (unat (the (numbers ns (fn_name (function_of_name M n)))))) (set ?names)"
  proof (rule inj_onI)
    fix a b
    assume ab: "a \<in> set ?names" "b \<in> set ?names"
      "int (unat (the (numbers ns (fn_name (function_of_name M a))))) = int (unat (the (numbers ns (fn_name (function_of_name M b)))))"
    obtain F G where FG: "F \<in> set ?W" "a = fn_name F" "G \<in> set ?W" "b = fn_name G" using ab(1,2) unfolding names by blast
    then have "unat (the (numbers ns a)) = unat (the (numbers ns b))" using ab(3) fm(2) by (simp only: of_nat_eq_iff)
    then have "the (numbers ns a) = the (numbers ns b)" by (simp add: word_unat_eq_iff)
    then show "a = b" using fm(3) [OF FG(1)] fm(3) [OF FG(3)] FG(2,4) assms(1) numbers_inject [of ns a _ b] by (simp add: numbered_unit_def)
  qed
  then have "inj_on (\<lambda>n. int (unat (the (numbers ns (fn_name (function_of_name M n)))))) (set (filter (has_section M cfi) ?names))"
    by (rule inj_on_subset) auto
  then show "distinct (map fst (unit_sections order M ns cfi))"
    using dist by (simp add: unit_sections_def distinct_map comp_def blocks_section_def del: set_map)
qed

section \<open>Numbers\<close>

lemma entry_line_words:
  assumes "entry_ok (name, i, flags)"
  shows "split_words (rstrip (name @ '' '' @ decimal (unat i) @ '' '' @ flags)) = [name, decimal (unat i), flags]"
    "newline \<notin> set (name @ '' '' @ decimal (unat i) @ '' '' @ flags)"
proof -
  have w: "is_word name" "is_word flags" using assms by (simp_all add: entry_ok_def)
  have "split_words (name @ '' '' @ decimal (unat i) @ '' '' @ flags) = name # split_words ('' '' @ decimal (unat i) @ '' '' @ flags)"
    using w(1) by (rule split_words_word) simp
  moreover have "split_words (decimal (unat i) @ '' '' @ flags) = decimal (unat i) # split_words ('' '' @ flags)"
    by (rule split_words_word) simp_all
  moreover have "split_words flags = [flags]" using split_words_word [OF w(2), of "[]"] by simp
  ultimately show "split_words (rstrip (name @ '' '' @ decimal (unat i) @ '' '' @ flags)) = [name, decimal (unat i), flags]"
    by (simp add: split_words_rstrip)
  show "newline \<notin> set (name @ '' '' @ decimal (unat i) @ '' '' @ flags)"
    using word_no_newline [OF w(1)] word_no_newline [OF w(2)] word_no_newline [OF is_word_decimal, of "unat i"] by (simp add: newline_def)
qed

lemma parse_fctids_lines:
  assumes "list_all entry_ok es" "distinct (map fst es)"
  shows "parse_fctids (concat (map entry_line es)) = Some (map (\<lambda>(name, i, flags). (name, int (unat i), flags)) es)"
proof -
  let ?l = "\<lambda>(name, i, flags). name @ '' '' @ decimal (unat (i :: u32)) @ '' '' @ flags"
  have "concat (map entry_line es) = concat (map (\<lambda>l. l @ [newline]) (map ?l es))"
  proof -
    have "entry_line = (\<lambda>e. ?l e @ [newline])" by (simp add: entry_line_def fun_eq_iff)
    then show ?thesis by (simp add: comp_def)
  qed
  moreover have "\<forall>l \<in> set (map ?l es). newline \<notin> set l"
  proof -
    have "newline \<notin> set (?l e)" if "e \<in> set es" for e
      using entry_line_words(2) [of "fst e" "fst (snd e)" "snd (snd e)"] that assms(1) by (simp add: list_all_iff split_beta)
    then show ?thesis by auto
  qed
  ultimately have ls: "lines (concat (map entry_line es)) = map ?l es" using lines_concat [of "map ?l es" "[]"] by simp
  have "parse_fctid_lines (map rstrip (map ?l es)) fcts = Some (fcts @ map (\<lambda>(name, i, flags). (name, int (unat i), flags)) es)"
    if "distinct (map fst (fcts @ map (\<lambda>(name, i, flags). (name, int (unat i), flags)) es))" for fcts
    using that assms(1)
  proof (induction es arbitrary: fcts)
    case (Cons e es)
    obtain name i flags where e: "e = (name, i, flags)" by (metis surj_pair)
    have "name \<notin> fst ` set fcts" using Cons.prems(1) by (auto simp: e)
    then have "AList.update name v fcts = fcts @ [(name, v)]" for v by (induction fcts) auto
    moreover have "split_words (rstrip (?l e)) = [name, decimal (unat i), flags]"
      using entry_line_words(1) [of name i flags] Cons.prems(2) by (simp add: e)
    moreover have "parse_fctid_lines (map rstrip (map ?l es)) (fcts @ [(name, int (unat i), flags)]) =
        Some ((fcts @ [(name, int (unat i), flags)]) @ map (\<lambda>(name, i, flags). (name, int (unat i), flags)) es)"
      using Cons.prems by (intro Cons.IH) (simp_all add: e)
    ultimately show ?case by (simp add: e)
  qed simp
  from this [of "[]"] show ?thesis using assms(2) ls by (simp add: parse_fctids_def comp_def split_beta)
qed

end
