(* ===== verification/Pass_Unit.thy ===== *)
theory Pass_Unit
  imports Injection Pass_Graphs
begin

text \<open>
  The pass over one unit, and over the units of a module one after the other: what each
  compilation leaves in the files of the project, and what the next one makes of it.
\<close>

section \<open>Units with the same code\<close>

lemma same_code_map:
  assumes "same_code M M'" "\<And>F F'. fn_name F' = fn_name F \<Longrightarrow> fn_blocks F' = fn_blocks F \<Longrightarrow> f F' = f F"
  shows "map f (m_functions M') = map f (m_functions M)"
proof -
  have "list_all2 (\<lambda>F F'. fn_name F' = fn_name F \<and> fn_blocks F' = fn_blocks F) (m_functions M) (m_functions M')"
    using assms(1) by (simp add: same_code_def)
  then show ?thesis by (induction rule: list_all2_induct) (auto intro: assms(2))
qed

lemma same_code_watched:
  assumes "same_code M M'" "\<And>F F'. fn_name F' = fn_name F \<Longrightarrow> fn_blocks F' = fn_blocks F \<Longrightarrow> f F' = f F"
  shows "map f (watched_functions M' ignored) = map f (watched_functions M ignored)"
proof -
  have "is_intrinsic M' = is_intrinsic M"
    "list_all2 (\<lambda>F F'. fn_name F' = fn_name F \<and> fn_blocks F' = fn_blocks F) (m_functions M) (m_functions M')"
    using assms(1) by (simp_all add: same_code_def)
  note code = this
  then have P: "watched M' ignored = watched M ignored" by (intro ext) (simp add: watched_def)
  from code(2) have "map f (filter (\<lambda>F. watched M ignored (fn_name F)) (m_functions M')) =
      map f (filter (\<lambda>F. watched M ignored (fn_name F)) (m_functions M))"
    by (induction rule: list_all2_induct) (auto intro: assms(2))
  then show ?thesis by (simp add: watched_functions_def P)
qed

lemma same_code_wf: "same_code M M' \<Longrightarrow> wf_unit M \<Longrightarrow> wf_unit M'"
  using same_code_map [of M M' fn_name] by (simp add: wf_unit_def flip: list.pred_map)

lemma same_code_numbered:
  assumes "same_code M M'" "numbered_unit M ns cfi"
  shows "numbered_unit M' ns (cfi\<lparr>InitFunctions := inits, FiniFunctions := finis\<rparr>)"
proof -
  have "map (fct_of ns) (watched_functions M' (IgnoredFunctions cfi)) = map (fct_of ns) (watched_functions M (IgnoredFunctions cfi))"
    using assms(1) by (rule same_code_watched) (simp add: fct_of_def)
  moreover have "map fn_name (watched_functions M' (IgnoredFunctions cfi)) = map fn_name (watched_functions M (IgnoredFunctions cfi))"
    using assms(1) by (rule same_code_watched) simp
  then have "fn_name ` set (watched_functions M' (IgnoredFunctions cfi)) = fn_name ` set (watched_functions M (IgnoredFunctions cfi))"
    by (metis list.set_map)
  ultimately show ?thesis using assms(2) by (simp add: numbered_unit_def knows_def)
qed

lemma same_code_get:
  assumes "same_code M M'"
  shows "map_option fn_blocks (get_function M' g) = map_option fn_blocks (get_function M g)"
proof -
  have "list_all2 (\<lambda>F F'. fn_name F' = fn_name F \<and> fn_blocks F' = fn_blocks F) (m_functions M) (m_functions M')"
    using assms by (simp add: same_code_def)
  then show ?thesis unfolding get_function_def by (induction rule: list_all2_induct) auto
qed

lemma same_code_sym: "same_code M M' \<Longrightarrow> same_code M' M"
  by (auto simp: same_code_def list_all2_conv_all_nth)

lemma same_code_functions:
  assumes "same_code M M'" "\<forall>F \<in> set (m_functions M). P (fn_name F) (fn_blocks F)"
  shows "\<forall>F \<in> set (m_functions M'). P (fn_name F) (fn_blocks F)"
proof -
  have "set (map (\<lambda>F. (fn_name F, fn_blocks F)) (m_functions M')) = set (map (\<lambda>F. (fn_name F, fn_blocks F)) (m_functions M))"
    using same_code_map [OF assms(1), of "\<lambda>F. (fn_name F, fn_blocks F)"] by simp
  moreover have "\<forall>(n, bs) \<in> set (map (\<lambda>F. (fn_name F, fn_blocks F)) (m_functions M)). P n bs" using assms(2) by auto
  ultimately have "\<forall>(n, bs) \<in> set (map (\<lambda>F. (fn_name F, fn_blocks F)) (m_functions M')). P n bs" by (simp only:)
  then show ?thesis by auto
qed

section \<open>Files\<close>

lemma write_file_ok: "writable fs name \<Longrightarrow> write_file ndebug name s fs = Inr (fs\<lparr>contents := (contents fs)(name \<mapsto> s)\<rparr>)"
  by (simp add: write_file_def)

lemma append_file_ok:
  "writable fs name \<Longrightarrow> append_file ndebug name s fs = Inr (fs\<lparr>contents := (contents fs)(name \<mapsto> text_of fs name @ s)\<rparr>)"
  by (simp add: append_file_def write_file_ok)

definition table_files :: "string \<Rightarrow> string set" where
  "table_files prefix = (\<lambda>s. prefix @ s) ` {''.fctid'', ''.trans'', ''.bbtrans'', ''.ipdom''}"

definition ignored_names :: "pass_options \<Rightarrow> file_system \<Rightarrow> string set" where
  "ignored_names opts fs = (if cfi_ignore opts = [] then {} else set (lines (text_of fs (cfi_ignore opts))))"

lemma ControlFlowIntegrity_state:
  assumes "ControlFlowIntegrity ndebug fs a b c d (cfi_ignore opts) = Inr cfi"
  shows "cfi = \<lparr>FunctionMap = [], IdentifiedFunctions = Map.empty, IgnoredFunctions = ignored_names opts fs, InitFunctions = {},
       FiniFunctions = {}, IgnoredBlocksFunctions = {}, fun_id_file = a, transTableFile = c,
       transTableBBFile = d, ipdom_file = b, fun_id_ctr = 0\<rparr>"
  using assms by (auto simp: ControlFlowIntegrity_def ignored_names_def text_of_def results split: if_splits option.splits)

lemma ParseAnnotations_state:
  assumes "ParseAnnotations M cfi = Inr cfi'"
  shows "\<exists>ignored. cfi' = cfi\<lparr>IgnoredBlocksFunctions := ignored\<rparr>"
  using assms
  by (auto simp: ParseAnnotations_def results split: option.splits if_splits intro: exI [of _ "IgnoredBlocksFunctions cfi"])

section \<open>One unit\<close>

text \<open>
  The state of the tables before a compilation: \<open>ns\<close> are the functions known so far and \<open>es\<close> the
  entries of the table of numbers.
\<close>

definition project :: "string \<Rightarrow> string list \<Rightarrow> (string \<times> u32 \<times> string) list \<Rightarrow> file_system \<Rightarrow> bool" where
  "project prefix ns es fs \<longleftrightarrow> is_word prefix \<and> table_of ns es \<and> list_all entry_ok es \<and>
     text_of fs (prefix @ ''.fctid'') = concat (map entry_line es) \<and> (\<forall>x \<in> table_files prefix. writable fs x)"

text \<open>
  What a compilation does: \<open>M1\<close> is the unit once its constructors are taken off, \<open>cfi\<close> the state of the
  pass when it writes the tables, \<open>ms\<close> are the functions the unit is the first to use.
\<close>

definition compiled_unit ::
    "bool \<Rightarrow> hash_order \<Rightarrow> pass_options \<Rightarrow> llvm_module \<Rightarrow> string list \<Rightarrow> (string \<times> u32 \<times> string) list \<Rightarrow> file_system \<Rightarrow>
     string list \<Rightarrow> llvm_module \<Rightarrow> control_flow_integrity \<Rightarrow> llvm_module \<Rightarrow> file_system \<Rightarrow> bool" where
  "compiled_unit ndebug order opts M ns es fs ms M1 cfi M' fs' \<longleftrightarrow>
     same_code M M1 \<and> wf_unit M1 \<and> numbered_unit M1 (ns @ ms) cfi \<and> IgnoredFunctions cfi = ignored_names opts fs \<and>
     fun_id_file cfi = cfi_prefix opts @ ''.fctid'' \<and>
     set ms \<subseteq> fn_name ` set (watched_functions M1 (IgnoredFunctions cfi)) \<and>
     (\<forall>F \<in> set (watched_functions M1 (IgnoredFunctions cfi)). analysable (fn_blocks F)) \<and>
     text_of fs' (cfi_prefix opts @ ''.fctid'') = concat (map entry_line (unit_table order M1 es (ns @ ms) cfi)) \<and>
     text_of fs' (cfi_prefix opts @ ''.trans'') =
       text_of fs (cfi_prefix opts @ ''.trans'') @ concat (map callgraph_line (map_of_sets (unit_edges order M1 cfi))) \<and>
     text_of fs' (cfi_prefix opts @ ''.bbtrans'') = text_of fs (cfi_prefix opts @ ''.bbtrans'') @
       (if cfi_level opts = BASICBLOCK then writeAllowedBBTrans order M1 cfi else []) \<and>
     writable fs' = writable fs \<and> (\<forall>x. x \<notin> table_files (cfi_prefix opts) \<longrightarrow> contents fs' x = contents fs x) \<and>
     InjectCode ndebug order cfi (cfi_level opts) M1 = Inr M'"

lemma run_unit:
  assumes run: "runOnModule ndebug order PDT opts M fs = Inr (M', fs')"
    and wf: "wf_unit M" "some_order order" and proj: "project (cfi_prefix opts) ns es fs"
    and small: "length ns + length (m_functions M) < 2 ^ 32"
  shows "\<exists>ms M1 cfi. compiled_unit ndebug order opts M ns es fs ms M1 cfi M' fs'"
proof -
  let ?p = "cfi_prefix opts"
  obtain c0 c1 c2 s cfi M1 fs1 fs2 where steps:
      "ControlFlowIntegrity ndebug fs (?p @ ''.fctid'') (?p @ ''.ipdom'') (?p @ ''.trans'') (?p @ ''.bbtrans'') (cfi_ignore opts) = Inr c0"
      "ParseAnnotations M c0 = Inr c1" "IdentifyFunctions ndebug fs M c1 = Inr c2"
      "PatchCtorFunctions (c2, M) = Inr s" "PatchDtorFunctions s = Inr (cfi, M1)"
      "writeTransToFile ndebug order (cfi_level opts) M1 cfi fs = Inr fs1" "writeFunctionIDs ndebug order M1 cfi fs1 = Inr fs2"
      "writeIPDOMToFile ndebug order PDT M1 cfi fs2 = Inr fs'" "InjectCode ndebug order cfi (cfi_level opts) M1 = Inr M'"
    using run by (auto simp: runOnModule_def results)
  note c0 = ControlFlowIntegrity_state [OF steps(1)]
  obtain ib where c1: "c1 = c0\<lparr>IgnoredBlocksFunctions := ib\<rparr>" using ParseAnnotations_state [OF steps(2)] by blast
  have t: "table_of ns es" "list_all entry_ok es" "text_of fs (?p @ ''.fctid'') = concat (map entry_line es)"
      "writable fs (?p @ ''.fctid'')" "writable fs (?p @ ''.trans'')" "writable fs (?p @ ''.bbtrans'')" "writable fs (?p @ ''.ipdom'')"
    using proj by (simp_all add: project_def table_files_def)
  have c1': "knows [] c1" "FunctionMap c1 = []" "fun_id_file c1 = ?p @ ''.fctid''" by (simp_all add: c1 c0 knows_def)
  obtain ms where ms: "numbered_unit M (ns @ ms) c2" "set ms \<subseteq> fn_name ` set (watched_functions M (IgnoredFunctions c1))"
      "c2 = c1\<lparr>IdentifiedFunctions := numbers (ns @ ms), fun_id_ctr := of_nat (length (ns @ ms)),
        FunctionMap := map (fct_of (ns @ ms)) (watched_functions M (IgnoredFunctions c1))\<rparr>"
    using identified_unit [OF wf(1) t(1) c1'(1,2) _ t(2) small, of fs ndebug] t(3) c1'(3) steps(3) by auto
  obtain inits finis where p: "cfi = c2\<lparr>InitFunctions := inits, FiniFunctions := finis\<rparr>" "same_code M M1"
    using patched_unit [OF steps(4,5)] by blast
  have num: "numbered_unit M1 (ns @ ms) cfi" unfolding p(1) using p(2) ms(1) by (rule same_code_numbered)
  have wf1: "wf_unit M1" using same_code_wf [OF p(2) wf(1)] .
  have files: "fun_id_file cfi = ?p @ ''.fctid''" "transTableFile cfi = ?p @ ''.trans''" "transTableBBFile cfi = ?p @ ''.bbtrans''"
      "ipdom_file cfi = ?p @ ''.ipdom''" "IgnoredFunctions cfi = ignored_names opts fs" "IgnoredFunctions c1 = ignored_names opts fs"
    by (simp_all add: p(1) ms(3) c1 c0)
  have new: "set ms \<subseteq> fn_name ` set (watched_functions M1 (IgnoredFunctions cfi))"
  proof -
    have "map fn_name (watched_functions M1 (IgnoredFunctions cfi)) = map fn_name (watched_functions M (IgnoredFunctions cfi))"
      using p(2) by (rule same_code_watched) simp
    then show ?thesis using ms(2) files(5,6) by (metis list.set_map)
  qed
  note graph = written_callgraph [OF num wf1 wf(2)]
  have ok: "\<forall>F \<in> set (watched_functions M1 (IgnoredFunctions cfi)). analysable (fn_blocks F)"
    using steps(6) unfolding writeTransToFile_def graph by (auto simp: results split: if_splits)
  let ?trans = "text_of fs (?p @ ''.trans'') @ concat (map callgraph_line (map_of_sets (unit_edges order M1 cfi)))"
  let ?bb = "text_of fs (?p @ ''.bbtrans'') @ (if cfi_level opts = BASICBLOCK then writeAllowedBBTrans order M1 cfi else [])"
  have fs1: "contents fs1 = (contents fs)(?p @ ''.trans'' \<mapsto> ?trans, ?p @ ''.bbtrans'' := if cfi_level opts = BASICBLOCK then Some ?bb else contents fs (?p @ ''.bbtrans''))"
      "writable fs1 = writable fs"
    using steps(6) ok t(5,6) unfolding writeTransToFile_def graph files
    by (auto simp: append_file_ok text_of_def split: if_splits)
  have "text_of fs1 (?p @ ''.fctid'') = concat (map entry_line es)" using t(3) by (simp add: text_of_def fs1)
  then have "writeFunctionIDs ndebug order M1 cfi fs1 = Inr (fs1\<lparr>contents := (contents fs1)(?p @ ''.fctid'' \<mapsto>
      concat (map entry_line (unit_table order M1 es (ns @ ms) cfi)))\<rparr>)"
    using written_table [OF num t(1) wf1 wf(2) _ t(2), of fs1 ndebug] t(4) by (simp add: files write_file_ok fs1(2))
  then have fs2: "contents fs2 = (contents fs1)(?p @ ''.fctid'' \<mapsto> concat (map entry_line (unit_table order M1 es (ns @ ms) cfi)))"
      "writable fs2 = writable fs"
    using steps(7) fs1(2) by auto
  obtain s where fs': "contents fs' = (contents fs2)(?p @ ''.ipdom'' \<mapsto> s)" "writable fs' = writable fs"
    using steps(8) t(7) fs2(2) by (auto simp: writeIPDOMToFile_def results files append_file_ok)
  have "compiled_unit ndebug order opts M ns es fs ms M1 cfi M' fs'"
    unfolding compiled_unit_def
    using p(2) wf1 num files(1,5) new ok steps(9) fs'(2)
    by (simp add: text_of_def fs'(1) fs2(1) fs1(1) table_files_def)
  then show ?thesis by blast
qed

lemma project_next:
  assumes "compiled_unit ndebug order opts M ns es fs ms M1 cfi M' fs'" "project (cfi_prefix opts) ns es fs" "some_order order"
  shows "project (cfi_prefix opts) (ns @ ms) (unit_table order M1 es (ns @ ms) cfi) fs'"
proof -
  have c: "numbered_unit M1 (ns @ ms) cfi" "wf_unit M1" "set ms \<subseteq> fn_name ` set (watched_functions M1 (IgnoredFunctions cfi))"
      "fun_id_file cfi = cfi_prefix opts @ ''.fctid''"
    using assms(1) unfolding compiled_unit_def by blast+
  have p: "table_of ns es" "list_all entry_ok es" "is_word (cfi_prefix opts)" using assms(2) by (simp_all add: project_def)
  have "is_word (fun_id_file cfi)"
    using is_word_append [OF p(3), of "''.fctid''"] by (simp add: c(4) is_word_def is_space_def)
  then show ?thesis
    using unit_table_ok(1,2) [OF c(1) p(1) c(2) assms(3) c(3)] p(2,3) assms(1,2)
    by (simp add: project_def compiled_unit_def)
qed

end
