(* ===== verification/Pass_Project.thy ===== *)
theory Pass_Project
  imports Pass_Unit
begin

text \<open>
  The units of a module, compiled one after the other with the same prefix: what the files of the
  project say at the end of each unit, in terms of the numbers that are final.
\<close>

section \<open>Sequences of compilations\<close>

fun compile ::
    "bool \<Rightarrow> hash_order \<Rightarrow> (llvm_module \<Rightarrow> post_dominators) \<Rightarrow> pass_options \<Rightarrow> llvm_module list \<Rightarrow> file_system \<Rightarrow>
     (llvm_module list \<times> file_system) result" where
  "compile ndebug order PDT opts [] fs = Inr ([], fs)"
| "compile ndebug order PDT opts (M # Ms) fs =
     and_then (runOnModule ndebug order (PDT M) opts M fs) (\<lambda>(M', fs).
     and_then (compile ndebug order PDT opts Ms fs) (\<lambda>(Ms', fs). Inr (M' # Ms', fs)))"

lemma compile_length: "compile ndebug order PDT opts Ms fs = Inr (Ms', fs') \<Longrightarrow> length Ms' = length Ms"
  by (induction Ms arbitrary: fs Ms') (auto simp: results)

text \<open>The code of a function of a unit, nothing when it is not defined there.\<close>

definition body_of :: "llvm_module \<Rightarrow> string \<Rightarrow> basic_block list" where
  "body_of M g = (case get_function M g of None \<Rightarrow> [] | Some F \<Rightarrow> fn_blocks F)"

lemma body_of_function: "wf_unit M \<Longrightarrow> F \<in> set (m_functions M) \<Longrightarrow> body_of M (fn_name F) = fn_blocks F"
  by (simp add: body_of_def get_function_unique)

lemma same_code_body: "same_code M M' \<Longrightarrow> body_of M' g = body_of M g"
  using same_code_get [of M M' g] by (auto simp: body_of_def split: option.splits)

lemma keeps_body: "keeps S M M' \<Longrightarrow> g \<notin> S \<Longrightarrow> body_of M' g = body_of M g"
  unfolding keeps_def body_of_def new_declaration_def by (elim conjE allE [of _ g]) auto

lemma function_of_name_blocks [simp]: "fn_blocks (function_of_name M g) = body_of M g"
  by (simp add: function_of_name_def body_of_def new_declaration_def split: option.splits)

text \<open>The names a unit works on: neither ignored nor intrinsic.\<close>

definition unit_names :: "llvm_module \<Rightarrow> string set \<Rightarrow> string set" where
  "unit_names M ignored = {g. watched M ignored g \<and> get_function M g \<noteq> None}"

lemma unit_names_watched: "fn_name ` set (watched_functions M ignored) = unit_names M ignored"
  by (auto simp: unit_names_def watched_functions_def get_function_None)

lemma same_code_names:
  assumes "same_code M M'"
  shows "unit_names M' ignored = unit_names M ignored"
proof -
  have "map fn_name (watched_functions M' ignored) = map fn_name (watched_functions M ignored)"
    using assms by (rule same_code_watched) simp
  then show ?thesis unfolding unit_names_watched [symmetric] by (metis list.set_map)
qed

section \<open>What the tables say of a unit\<close>

text \<open>Called functions are functions of the unit, jumps lead to blocks of their function.\<close>

definition closed_unit :: "llvm_module \<Rightarrow> bool" where
  "closed_unit M \<longleftrightarrow> (\<forall>F \<in> set (m_functions M). closed_blocks (fn_blocks F) \<and> called (fn_blocks F) \<subseteq> fn_name ` set (m_functions M))"

text \<open>A compilation: the unit, what it became, the state of the pass, and what it added to the tables.\<close>

record unit_run =
  u_source :: llvm_module
  u_result :: llvm_module
  u_cfi :: control_flow_integrity
  u_edges :: "(int \<times> int) list"
  u_sections :: "(int \<times> int \<times> (int \<times> int list) list) list"

definition source_calls :: "llvm_module \<Rightarrow> string set \<Rightarrow> string list \<Rightarrow> (int \<times> int) set" where
  "source_calls M ignored N = {(sint i, sint j) | i j. \<exists>f g. f \<in> unit_names M ignored \<and> g \<in> called (body_of M f) \<and>
     g \<in> unit_names M ignored \<and> numbers N f = Some i \<and> numbers N g = Some j}"

definition source_section :: "llvm_module \<Rightarrow> string list \<Rightarrow> string \<Rightarrow> int \<times> int \<times> (int \<times> int list) list" where
  "source_section M N g = (int (unat (the (numbers N g))), int (length (body_of M g)), block_rows (body_of M g))"

definition unit_facts :: "bool \<Rightarrow> int \<Rightarrow> string set \<Rightarrow> string list \<Rightarrow> unit_run \<Rightarrow> bool" where
  "unit_facts ndebug level ignored N u \<longleftrightarrow>
     (let M = u_source u; M' = u_result u; cfi = u_cfi u; names = unit_names M ignored in
      IgnoredFunctions cfi = ignored \<and> IdentifiedFunctions cfi \<subseteq>\<^sub>m numbers N \<and> names \<subseteq> dom (IdentifiedFunctions cfi) \<and>
      set (u_edges u) = source_calls M ignored N \<and> distinct (map fst (u_sections u)) \<and>
      set (u_sections u) = source_section M N ` {g \<in> names. has_blocks cfi level g \<and> body_of M g \<noteq> []} \<and>
      (\<forall>g. g \<notin> names \<longrightarrow> body_of M' g = body_of M g) \<and>
      (\<forall>g \<in> names. hooked ndebug M cfi (has_blocks cfi level g) (the (numbers N g)) (body_of M g) (body_of M' g)))"

lemma body_of_names:
  assumes "body_of M f \<noteq> []"
  obtains F where "F \<in> set (m_functions M)" "fn_name F = f" "body_of M f = fn_blocks F"
  using assms get_function_SomeD [of M f] by (auto simp: body_of_def split: option.splits)

lemma closed_unit_body:
  assumes "closed_unit M"
  shows "closed_blocks (body_of M f)" "called (body_of M f) \<subseteq> fn_name ` set (m_functions M)"
proof -
  have "closed_blocks (body_of M f) \<and> called (body_of M f) \<subseteq> fn_name ` set (m_functions M)"
  proof (cases "body_of M f = []")
    case False
    then show ?thesis using assms by (elim body_of_names) (simp add: closed_unit_def)
  qed (simp add: closed_blocks_def called_def)
  then show "closed_blocks (body_of M f)" "called (body_of M f) \<subseteq> fn_name ` set (m_functions M)" by simp_all
qed

text \<open>Facts about final numbers stay true when more functions are numbered.\<close>

lemma unit_facts_mono:
  assumes "unit_facts ndebug level ignored N u"
  shows "unit_facts ndebug level ignored (N @ X) u"
proof -
  let ?names = "unit_names (u_source u) ignored"
  have le: "numbers N \<subseteq>\<^sub>m numbers (N @ X)" by (auto simp: map_le_def numbers_append)
  have "?names \<subseteq> dom (numbers N)"
    using assms map_le_implies_dom_le [of "IdentifiedFunctions (u_cfi u)" "numbers N"] by (auto simp: unit_facts_def Let_def)
  then have same: "numbers (N @ X) g = numbers N g" if "g \<in> ?names" for g using that numbers_append by auto
  have "source_calls (u_source u) ignored (N @ X) = source_calls (u_source u) ignored N"
    using same by (fastforce simp: source_calls_def)
  moreover have "source_section (u_source u) (N @ X) g = source_section (u_source u) N g" if "g \<in> ?names" for g
    using same [OF that] by (simp add: source_section_def)
  then have "source_section (u_source u) (N @ X) ` {g \<in> ?names. Q g} = source_section (u_source u) N ` {g \<in> ?names. Q g}" for Q
    by (auto simp: image_iff)
  ultimately show ?thesis
    using assms le same map_le_trans [of _ "numbers N"] by (simp add: unit_facts_def Let_def)
qed

lemma source_calls_unit:
  assumes "same_code M M1" "closed_unit M" "wf_unit M1"
  shows "(\<lambda>(i, j). (sint i, sint j)) ` calls_of M1 ignored N = source_calls M ignored N"
proof -
  have w: "watched M1 ignored = watched M ignored" using assms(1) by (intro ext) (simp add: watched_def same_code_def)
  have body: "fn_blocks F = body_of M (fn_name F)" if "F \<in> set (watched_functions M1 ignored)" for F
    using that body_of_function [OF assms(3)] same_code_body [OF assms(1)] by (simp add: watched_functions_def)
  have names: "g \<in> unit_names M ignored \<longleftrightarrow> watched M ignored g" if "g \<in> called (body_of M f)" for f g
    using that closed_unit_body(2) [OF assms(2), of f] by (auto simp: unit_names_def get_function_None)
  have fns: "unit_names M ignored = fn_name ` set (watched_functions M1 ignored)"
    using same_code_names [OF assms(1)] unit_names_watched by blast
  show ?thesis
    unfolding calls_of_def source_calls_def w fns using body names unfolding fns by fastforce
qed

lemma source_sections_unit:
  assumes "same_code M M1" "wf_unit M1" "numbered_unit M1 N cfi" "some_order order"
  shows "set (unit_sections order M1 N cfi) =
    source_section M N ` {g \<in> unit_names M (IgnoredFunctions cfi). \<not> isIgnoredBlocksFunction cfi g \<and> body_of M g \<noteq> []}"
proof -
  let ?W = "watched_functions M1 (IgnoredFunctions cfi)"
  have body: "fn_blocks F = body_of M (fn_name F)" if "F \<in> set ?W" for F
    using that body_of_function [OF assms(2)] same_code_body [OF assms(1)] by (simp add: watched_functions_def)
  have "blocks_section N F = source_section M N (fn_name F)" if "F \<in> set ?W" for F
    using body [OF that] by (simp add: blocks_section_def source_section_def)
  then have "set (unit_sections order M1 N cfi) = source_section M N ` fn_name ` {F \<in> set ?W. has_section M1 cfi (fn_name F)}"
    unfolding unit_sections_keys(2) [OF assms(3,2,4)] image_image by (intro image_cong) auto
  also have "fn_name ` {F \<in> set ?W. has_section M1 cfi (fn_name F)} = {g \<in> fn_name ` set ?W. has_section M1 cfi g}" by blast
  also have "fn_name ` set ?W = unit_names M (IgnoredFunctions cfi)"
    using same_code_names [OF assms(1)] unit_names_watched by blast
  finally show ?thesis
    using same_code_body [OF assms(1)] by (simp add: has_section_def is_declaration_def)
qed

lemma hooked_cong:
  assumes "is_intrinsic M' = is_intrinsic M" "is_dbg M' = is_dbg M"
  shows "hooked ndebug M' cfi bb f bs bs' \<longleftrightarrow> hooked ndebug M cfi bb f bs bs'"
proof -
  have "is_phi_or_dbg M' = is_phi_or_dbg M"
    by (intro ext) (simp add: is_phi_or_dbg_def assms(2) split: instr.split callee.split)
  then show ?thesis using mcall_intrinsics [OF assms(1)] by (simp add: hooked_def instrumented_def instrumented_block_def)
qed

lemma compiled_hooks:
  assumes "InjectCode ndebug order cfi level M1 = Inr M'" "numbered_unit M1 N cfi" "wf_unit M1" "some_order order" "same_code M M1"
  shows "g \<notin> unit_names M (IgnoredFunctions cfi) \<Longrightarrow> body_of M' g = body_of M g"
    "g \<in> unit_names M (IgnoredFunctions cfi) \<Longrightarrow>
      hooked ndebug M cfi (has_blocks cfi level g) (the (numbers N g)) (body_of M g) (body_of M' g)"
proof -
  let ?W = "watched_functions M1 (IgnoredFunctions cfi)"
  have fns: "unit_names M (IgnoredFunctions cfi) = fn_name ` set ?W"
    using same_code_names [OF assms(5)] unit_names_watched by blast
  note inj = injected_unit [OF assms(1-4)]
  show "body_of M' g = body_of M g" if "g \<notin> unit_names M (IgnoredFunctions cfi)"
    using keeps_body [OF inj(1), of g] same_code_body [OF assms(5)] that unfolding fns by simp
  show "hooked ndebug M cfi (has_blocks cfi level g) (the (numbers N g)) (body_of M g) (body_of M' g)"
    if g: "g \<in> unit_names M (IgnoredFunctions cfi)"
  proof -
    obtain F where F: "F \<in> set ?W" "g = fn_name F" using g unfolding fns by blast
    obtain bs where bs: "get_function M' g = Some (F\<lparr>fn_blocks := bs\<rparr>)"
        "hooked ndebug M1 cfi (has_blocks cfi level g) (the (numbers N g)) (fn_blocks F) bs"
      using inj(2) [OF F(1)] F(2) by blast
    moreover have "fn_blocks F = body_of M g"
      using F body_of_function [OF assms(3)] same_code_body [OF assms(5)] by (simp add: watched_functions_def)
    ultimately show ?thesis
      using hooked_cong [of M1 M] assms(5) by (simp add: body_of_def same_code_def)
  qed
qed

lemma compiled_facts:
  assumes c: "compiled_unit ndebug order opts M ns es fs ms M1 cfi M' fs'"
    and M: "closed_unit M" "some_order order"
  shows "\<exists>u. u_source u = M \<and> u_result u = M' \<and> unit_facts ndebug (cfi_level opts) (ignored_names opts fs) (ns @ ms) u \<and>
    text_of fs' (cfi_prefix opts @ ''.trans'') =
      text_of fs (cfi_prefix opts @ ''.trans'') @ concat (map callgraph_line (map_of_sets (u_edges u))) \<and>
    text_of fs' (cfi_prefix opts @ ''.bbtrans'') =
      text_of fs (cfi_prefix opts @ ''.bbtrans'') @ concat (map blocks_text (u_sections u))"
proof -
  have u: "same_code M M1" "wf_unit M1" "numbered_unit M1 (ns @ ms) cfi" "IgnoredFunctions cfi = ignored_names opts fs"
      "InjectCode ndebug order cfi (cfi_level opts) M1 = Inr M'"
    using c unfolding compiled_unit_def by blast+
  let ?secs = "if cfi_level opts = BASICBLOCK then unit_sections order M1 (ns @ ms) cfi else []"
  let ?u = "\<lparr>u_source = M, u_result = M', u_cfi = cfi, u_edges = unit_edges order M1 cfi, u_sections = ?secs\<rparr>"
  have closed: "closed_blocks (fn_blocks F)" if "F \<in> set (watched_functions M1 (IgnoredFunctions cfi))" for F
    using that body_of_function [OF u(2), of F] same_code_body [OF u(1)] closed_unit_body(1) [OF M(1)]
    by (metis filter_is_subset subsetD watched_functions_def)
  then have bbtext: "writeAllowedBBTrans order M1 cfi = concat (map blocks_text (unit_sections order M1 (ns @ ms) cfi))"
    using written_blocks [OF u(3,2) M(2)] by blast
  have known: "IdentifiedFunctions cfi = numbers (ns @ ms)" "unit_names M (ignored_names opts fs) \<subseteq> set (ns @ ms)"
  proof -
    show "IdentifiedFunctions cfi = numbers (ns @ ms)" using u(3) by (simp add: numbered_unit_def knows_def)
    show "unit_names M (ignored_names opts fs) \<subseteq> set (ns @ ms)"
      using u(3) same_code_names [OF u(1)] unfolding numbered_unit_def unit_names_watched u(4) by simp
  qed
  have "unit_facts ndebug (cfi_level opts) (ignored_names opts fs) (ns @ ms) ?u"
    unfolding unit_facts_def Let_def unit_run.select_convs
  proof (intro conjI allI impI ballI)
    show "set (unit_edges order M1 cfi) = source_calls M (ignored_names opts fs) (ns @ ms)"
      using unit_edges_calls [OF u(3,2) M(2)] source_calls_unit [OF u(1) M(1) u(2)] by (simp add: u(4))
    show "distinct (map fst ?secs)" using unit_sections_keys(1) [OF u(3,2) M(2)] by simp
    show "set ?secs = source_section M (ns @ ms) `
        {g \<in> unit_names M (ignored_names opts fs). has_blocks cfi (cfi_level opts) g \<and> body_of M g \<noteq> []}"
      using source_sections_unit [OF u(1,2,3) M(2)]
      by (cases "cfi_level opts = BASICBLOCK") (simp_all add: u(4) has_blocks_def)
  qed (use known u(4) compiled_hooks [OF u(5,3,2) M(2) u(1)] in \<open>auto simp: u(4)\<close>)
  moreover have "text_of fs' (cfi_prefix opts @ ''.trans'') =
      text_of fs (cfi_prefix opts @ ''.trans'') @ concat (map callgraph_line (map_of_sets (unit_edges order M1 cfi)))"
    "text_of fs' (cfi_prefix opts @ ''.bbtrans'') =
      text_of fs (cfi_prefix opts @ ''.bbtrans'') @ concat (map blocks_text ?secs)"
    using c by (simp_all add: compiled_unit_def bbtext)
  ultimately show ?thesis by (intro exI [of _ ?u]) simp
qed

section \<open>What the tables say of all units\<close>

text \<open>A flag other than \<open>External\<close> tells that the function is defined in the module.\<close>

definition internal :: "(string \<times> u32 \<times> string) list \<Rightarrow> string \<Rightarrow> bool" where
  "internal es g \<longleftrightarrow> (\<exists>i flags. map_of es g = Some (i, flags) \<and> flags \<noteq> ''External'')"

lemma internal_next:
  assumes c: "compiled_unit ndebug order opts M ns es fs ms M1 cfi M' fs'" and p: "project (cfi_prefix opts) ns es fs" "some_order order"
    and g: "internal es g \<or> g \<in> unit_names M (ignored_names opts fs) \<and> body_of M g \<noteq> []"
  shows "internal (unit_table order M1 es (ns @ ms) cfi) g"
proof -
  have u: "same_code M M1" "wf_unit M1" "numbered_unit M1 (ns @ ms) cfi" "IgnoredFunctions cfi = ignored_names opts fs"
      "set ms \<subseteq> fn_name ` set (watched_functions M1 (IgnoredFunctions cfi))" "fun_id_file cfi = cfi_prefix opts @ ''.fctid''"
    using c unfolding compiled_unit_def by blast+
  have t: "table_of ns es" using p(1) by (simp add: project_def)
  have names: "fn_name ` set (watched_functions M1 (IgnoredFunctions cfi)) = unit_names M (ignored_names opts fs)"
    using same_code_names [OF u(1)] unit_names_watched u(4) by simp
  have lookup: "map_of (unit_table order M1 es (ns @ ms) cfi) g =
      (if g \<in> unit_names M (ignored_names opts fs) then Some (the (numbers (ns @ ms) g), unit_flags M1 es cfi g) else map_of es g)"
    using unit_table_ok(3) [OF u(3) t u(2) p(2) u(5)] unfolding names .
  have ext: "cfi_prefix opts @ ''.fctid'' \<noteq> ''External''"
  proof
    assume "cfi_prefix opts @ ''.fctid'' = ''External''"
    then have "last (cfi_prefix opts @ ''.fctid'') = last ''External''" by simp
    then show False by simp
  qed
  have "unit_flags M1 es cfi g \<noteq> ''External''" if "internal es g \<or> body_of M g \<noteq> []"
    using that ext same_code_body [OF u(1), of g] by (auto simp: unit_flags_def is_declaration_def u(6) internal_def)
  then show ?thesis using g lookup by (auto simp: internal_def)
qed

lemma compile_units:
  assumes "compile ndebug order PDT opts Ms fs = Inr (Ms', fs')" "list_all wf_unit Ms" "list_all closed_unit Ms" "some_order order"
    "project (cfi_prefix opts) ns es fs" "length ns + (\<Sum>M \<leftarrow> Ms. length (m_functions M)) < 2 ^ 32"
    "cfi_ignore opts \<notin> table_files (cfi_prefix opts)"
  shows "\<exists>ms es' us. project (cfi_prefix opts) (ns @ ms) es' fs' \<and> map u_source us = Ms \<and> map u_result us = Ms' \<and>
    set ms \<subseteq> (\<Union>M \<in> set Ms. unit_names M (ignored_names opts fs)) \<and>
    list_all (unit_facts ndebug (cfi_level opts) (ignored_names opts fs) (ns @ ms)) us \<and>
    text_of fs' (cfi_prefix opts @ ''.trans'') =
      text_of fs (cfi_prefix opts @ ''.trans'') @ concat (map callgraph_line (concat (map (\<lambda>u. map_of_sets (u_edges u)) us))) \<and>
    text_of fs' (cfi_prefix opts @ ''.bbtrans'') =
      text_of fs (cfi_prefix opts @ ''.bbtrans'') @ concat (map blocks_text (concat (map u_sections us))) \<and>
    (\<forall>g. internal es g \<or> (\<exists>M \<in> set Ms. g \<in> unit_names M (ignored_names opts fs) \<and> body_of M g \<noteq> []) \<longrightarrow> internal es' g)"
  using assms
proof (induction Ms arbitrary: fs ns es Ms')
  case Nil
  then have "fs' = fs" "Ms' = []" by simp_all
  then show ?case using Nil.prems(5) by (intro exI [of _ "[]"] exI [of _ es]) simp
next
  case (Cons M Ms)
  let ?I = "ignored_names opts fs" and ?p = "cfi_prefix opts"
  obtain M' fs1 Ms1 where run: "runOnModule ndebug order (PDT M) opts M fs = Inr (M', fs1)"
      "compile ndebug order PDT opts Ms fs1 = Inr (Ms1, fs')" "Ms' = M' # Ms1"
    using Cons.prems(1) by (auto simp: results)
  obtain ms M1 cfi where c: "compiled_unit ndebug order opts M ns es fs ms M1 cfi M' fs1"
    using run_unit [OF run(1) _ assms(4) Cons.prems(5)] Cons.prems(2,6) by auto
  note proj = project_next [OF c Cons.prems(5) assms(4)]
  have ign: "ignored_names opts fs1 = ?I"
    using c Cons.prems(7) by (simp add: compiled_unit_def ignored_names_def text_of_def)
  obtain u where u: "u_source u = M" "u_result u = M'" "unit_facts ndebug (cfi_level opts) ?I (ns @ ms) u"
      "text_of fs1 (?p @ ''.trans'') = text_of fs (?p @ ''.trans'') @ concat (map callgraph_line (map_of_sets (u_edges u)))"
      "text_of fs1 (?p @ ''.bbtrans'') = text_of fs (?p @ ''.bbtrans'') @ concat (map blocks_text (u_sections u))"
    using compiled_facts [OF c _ assms(4)] Cons.prems(3) by auto
  have new: "set ms \<subseteq> unit_names M ?I"
    using c same_code_names [of M M1] unfolding compiled_unit_def unit_names_watched by auto
  have "length ms \<le> length (m_functions M)"
  proof -
    have "distinct ms" using proj by (simp add: project_def table_of_def)
    then have "length ms = card (set ms)" by (simp add: distinct_card)
    also have "\<dots> \<le> card (fn_name ` set (m_functions M))"
      using new by (intro card_mono) (auto simp: unit_names_def get_function_None)
    also have "\<dots> \<le> length (m_functions M)" by (metis card_length length_map list.set_map)
    finally show ?thesis .
  qed
  then have "length (ns @ ms) + (\<Sum>M \<leftarrow> Ms. length (m_functions M)) < 2 ^ 32" using Cons.prems(6) by simp
  moreover have "list_all wf_unit Ms" "list_all closed_unit Ms" using Cons.prems(2,3) by simp_all
  ultimately obtain ms' es' us where
    ih: "project ?p ((ns @ ms) @ ms') es' fs'" "map u_source us = Ms" "map u_result us = Ms1"
      "set ms' \<subseteq> (\<Union>M \<in> set Ms. unit_names M ?I)" "list_all (unit_facts ndebug (cfi_level opts) ?I ((ns @ ms) @ ms')) us"
      "text_of fs' (?p @ ''.trans'') =
        text_of fs1 (?p @ ''.trans'') @ concat (map callgraph_line (concat (map (\<lambda>u. map_of_sets (u_edges u)) us)))"
      "text_of fs' (?p @ ''.bbtrans'') = text_of fs1 (?p @ ''.bbtrans'') @ concat (map blocks_text (concat (map u_sections us)))"
      "\<forall>g. internal (unit_table order M1 es (ns @ ms) cfi) g \<or> (\<exists>M \<in> set Ms. g \<in> unit_names M ?I \<and> body_of M g \<noteq> []) \<longrightarrow> internal es' g"
    using Cons.IH [OF run(2) _ _ assms(4) proj _ Cons.prems(7)] unfolding ign by blast
  have "internal es' g" if "internal es g \<or> (\<exists>M \<in> set (M # Ms). g \<in> unit_names M ?I \<and> body_of M g \<noteq> [])" for g
    using that ih(8) internal_next [OF c Cons.prems(5) assms(4), of g] by auto
  moreover have "unit_facts ndebug (cfi_level opts) ?I (ns @ ms @ ms') u" using unit_facts_mono [OF u(3), of ms'] by simp
  ultimately show ?case
    using u ih(1-7) new run(3) by (intro exI [of _ "ms @ ms'"] exI [of _ es'] exI [of _ "u # us"]) auto
qed

end
