(* ===== verification/Pass_Program.thy ===== *)
theory Pass_Program
  imports Pass_Project Single_Module
begin

text \<open>
  A module as a whole: its units compiled one after the other, the tables the prelink script makes
  of their files, the module the monitor loads from them. A run of the instrumented program
  announces an activation of the function it starts in.
\<close>

section \<open>The tables of the module\<close>

lemma pack_all_member: "pack_all f xs = Some ys \<Longrightarrow> x \<in> set xs \<Longrightarrow> \<exists>y \<in> set ys. f x = Some y"
  by (induction xs arbitrary: ys) (auto simp: bind_eq_Some_conv)

lemma pack_all_source: "pack_all f xs = Some ys \<Longrightarrow> y \<in> set ys \<Longrightarrow> \<exists>x \<in> set xs. f x = Some y"
  by (induction xs arbitrary: ys) (auto simp: bind_eq_Some_conv)

lemma pack_int_Some: "pack_int i = Some k \<longleftrightarrow> 0 \<le> i \<and> i < 2 ^ 32 \<and> k = word_of_int i"
  by (auto simp: pack_int_def)

lemma pack_ints_Some: "pack_all pack_int xs = Some ys \<Longrightarrow> ys = map word_of_int xs"
  by (induction xs arbitrary: ys) (auto simp: bind_eq_Some_conv pack_int_Some)

lemma word_of_int_inject:
  "0 \<le> i \<Longrightarrow> i < 2 ^ 32 \<Longrightarrow> 0 \<le> j \<Longrightarrow> j < 2 ^ 32 \<Longrightarrow> (word_of_int i :: u32) = word_of_int j \<longleftrightarrow> i = j"
  by (simp add: word_of_int_eq_iff take_bit_int_eq_self)

lemma pack_graph_row_Some:
  "pack_graph_row (k, xs) = Some r \<Longrightarrow> r = (word_of_int k, map word_of_int xs) \<and> 0 \<le> k \<and> k < 2 ^ 32"
  by (auto simp: pack_graph_row_def bind_eq_Some_conv pack_int_Some dest: pack_ints_Some)

lemma pack_graph:
  assumes "pack_all pack_graph_row rows = Some ps"
  shows "ps = map (\<lambda>(k, xs). (word_of_int k, map word_of_int xs)) rows" "distinct (map fst rows) \<Longrightarrow> distinct (map fst ps)"
proof -
  have "ps = map (\<lambda>(k, xs). (word_of_int k, map word_of_int xs)) rows \<and> (\<forall>k \<in> fst ` set rows. 0 \<le> k \<and> k < 2 ^ 32)"
    using assms
  proof (induction rows arbitrary: ps)
    case (Cons r rows)
    then show ?case using pack_graph_row_Some [of "fst r" "snd r"] by (cases r) (auto simp: bind_eq_Some_conv)
  qed simp
  then have ps: "ps = map (\<lambda>(k, xs). (word_of_int k, map word_of_int xs)) rows" and range: "\<forall>k \<in> fst ` set rows. 0 \<le> k \<and> k < 2 ^ 32"
    by simp_all
  from ps show "ps = map (\<lambda>(k, xs). (word_of_int k, map word_of_int xs)) rows" .
  have "inj_on (word_of_int :: int \<Rightarrow> u32) (set (map fst rows))"
  proof (rule inj_onI)
    fix i j
    assume "i \<in> set (map fst rows)" "j \<in> set (map fst rows)" "(word_of_int i :: u32) = word_of_int j"
    then show "i = j" using range word_of_int_inject [of i j] unfolding set_map by blast
  qed
  moreover assume "distinct (map fst rows)"
  ultimately have "distinct (map (word_of_int :: int \<Rightarrow> u32) (map fst rows))" by (simp only: distinct_map [of word_of_int] simp_thms)
  then show "distinct (map fst ps)" by (simp add: ps comp_def split_beta)
qed

lemma pack_functions:
  assumes "pack_all pack_function (map (\<lambda>(name, i, flags). (name, int (unat i), flags)) es) = Some fcts"
  shows "fcts = map (\<lambda>(name, i, flags). (bytes_of name, i, flags)) es"
  using assms by (induction es arbitrary: fcts) (auto simp: bind_eq_Some_conv pack_function_def pack_int_Some)

text \<open>Rows of different units are about different functions.\<close>

lemma distinct_rows:
  assumes "distinct (concat (map d us))" "inj_on \<kappa> (set (concat (map d us)))"
    "\<forall>u \<in> set us. distinct (map fst (g u)) \<and> fst ` set (g u) \<subseteq> \<kappa> ` set (d u)"
  shows "distinct (map fst (concat (map g us)))"
  using assms
proof (induction us)
  case (Cons u us)
  have 1: "set (map fst (concat (map g us))) \<subseteq> \<kappa> ` set (concat (map d us))" using Cons.prems(3) by fastforce
  have 2: "set (map fst (g u)) \<subseteq> \<kappa> ` set (d u)" using Cons.prems(3) by simp
  have 3: "\<kappa> ` set (d u) \<inter> \<kappa> ` set (concat (map d us)) = {}"
    using Cons.prems(1) inj_on_image_Int [OF Cons.prems(2), of "set (d u)" "set (concat (map d us))"] by auto
  have "inj_on \<kappa> (set (concat (map d us)))" using Cons.prems(2) by (rule inj_on_subset) auto
  then have 4: "distinct (map fst (concat (map g us)))" using Cons.IH Cons.prems(1,3) by simp
  have "set (map fst (g u)) \<inter> set (map fst (concat (map g us))) = {}" using 1 2 3 by blast
  moreover note 4
  ultimately show ?case using Cons.prems(3) by simp
qed simp

text \<open>The names a unit defines, in the order of its functions.\<close>

definition defined_names :: "llvm_module \<Rightarrow> string list" where
  "defined_names M = map fn_name (filter (\<lambda>F. fn_blocks F \<noteq> []) (m_functions M))"

lemma defined_names_body: "body_of M f \<noteq> [] \<Longrightarrow> f \<in> set (defined_names M)"
proof -
  assume f: "body_of M f \<noteq> []"
  then obtain F where "F \<in> set (m_functions M)" "fn_name F = f" "body_of M f = fn_blocks F" by (rule body_of_names)
  then show ?thesis using f by (auto simp: defined_names_def)
qed

text \<open>
  What a prelinked project amounts to, in terms of the compilations \<open>us\<close>, the final numbers \<open>N\<close> and
  the final entries \<open>es\<close>.
\<close>

definition section_packed :: "tables \<Rightarrow> int \<times> int \<times> (int \<times> int list) list \<Rightarrow> bool" where
  "section_packed t = (\<lambda>(f, n, d). \<exists>bb ipd rows. t_bb t = Some (bb, ipd) \<and>
     (word_of_int f, word_of_int n, rows) \<in> set bb \<and> distinct (map fst rows) \<and>
     set rows = (\<lambda>(k, xs). (word_of_int k, map word_of_int xs)) ` set d)"

definition prelinked :: "string list \<Rightarrow> (string \<times> u32 \<times> string) list \<Rightarrow> unit_run list \<Rightarrow> tables \<Rightarrow> bool" where
  "prelinked N es us t \<longleftrightarrow>
     t_fcts t = map (\<lambda>(name, i, flags). (bytes_of name, i, flags)) es \<and>
     distinct (map fst (t_callgraph t)) \<and>
     set (t_callgraph t) = (\<Union>u \<in> set us. (\<lambda>(k, xs). (word_of_int k, map word_of_int xs)) ` set (map_of_sets (u_edges u))) \<and>
     (\<forall>u \<in> set us. \<forall>x \<in> set (u_sections u). section_packed t x) \<and>
     (\<forall>bb ipd i n d. t_bb t = Some (bb, ipd) \<and> (i, n, d) \<in> set bb \<longrightarrow>
        (\<exists>u \<in> set us. \<exists>x \<in> set (u_sections u). i = word_of_int (fst x)))"

lemma pack_blocks_Some:
  assumes "pack_blocks order (f, n, d) = Some r" "some_order order" "distinct (map fst d)"
  shows "\<exists>rows. r = (word_of_int f, word_of_int n, rows) \<and> distinct (map fst rows) \<and>
    set rows = (\<lambda>(k, xs). (word_of_int k, map word_of_int xs)) ` set d"
proof -
  obtain rows where rows: "pack_all pack_graph_row (iterate order d) = Some rows" "r = (word_of_int f, word_of_int n, rows)"
    using assms(1) by (auto simp: pack_blocks_def bind_eq_Some_conv pack_int_Some)
  note g = pack_graph [OF rows(1)] and it = iterate_visits [OF assms(2,3)]
  have "set rows = (\<lambda>(k, xs). (word_of_int k, map word_of_int xs)) ` set d" using g(1) it(1) by simp
  then show ?thesis using rows(2) g(2) [OF it(2)] by blast
qed

lemma prelink_project:
  assumes pre: "prelink order prefix fs = Some t" and o: "some_order order" and proj: "project prefix N es fs"
    and files: "text_of fs (prefix @ ''.trans'') = concat (map callgraph_line (concat (map (\<lambda>u. map_of_sets (u_edges u)) us)))"
      "text_of fs (prefix @ ''.bbtrans'') = concat (map blocks_text (concat (map u_sections us)))"
    and keys: "distinct (map fst (concat (map (\<lambda>u. map_of_sets (u_edges u)) us)))" "distinct (map fst (concat (map u_sections us)))"
      "\<forall>(f, n, d) \<in> set (concat (map u_sections us)). distinct (map fst d) \<and> (n = 1 \<longrightarrow> d = [])"
  shows "prelinked N es us t"
proof -
  obtain s1 s2 fcts0 cg0 fcts cg where p: "contents fs (prefix @ ''.fctid'') = Some s1" "parse_fctids s1 = Some fcts0"
      "contents fs (prefix @ ''.trans'') = Some s2" "parse_callgraph s2 = Some cg0" "pack_all pack_function fcts0 = Some fcts"
      "pack_all pack_graph_row (iterate order cg0) = Some cg" "t_fcts t = fcts" "t_callgraph t = cg"
      "(case contents fs (prefix @ ''.bbtrans'') of None \<Rightarrow> t_bb t = None
        | Some txt \<Rightarrow> \<exists>bb0 bb ipd. parse_bb txt = Some bb0 \<and> pack_all (pack_blocks order) (iterate order bb0) = Some bb \<and> t_bb t = Some (bb, ipd))"
    using pre by (auto simp: prelink_def bind_eq_Some_conv split: option.splits)
  have e: "table_of N es" "list_all entry_ok es" "text_of fs (prefix @ ''.fctid'') = concat (map entry_line es)"
    using proj by (simp_all add: project_def)
  have "fcts0 = map (\<lambda>(name, i, flags). (name, int (unat i), flags)) es"
    using p(1,2) e parse_fctids_lines [OF e(2)] by (simp add: text_of_def table_of_def)
  then have fcts: "t_fcts t = map (\<lambda>(name, i, flags). (bytes_of name, i, flags)) es"
    using p(5,7) pack_functions by blast
  let ?E = "concat (map (\<lambda>u. map_of_sets (u_edges u)) us)"
  have cg0: "cg0 = ?E"
    using p(3,4) files(1) parse_callgraph_rows [of ?E] fold_update_distinct [of "[]" ?E] keys(1) by (simp add: text_of_def)
  note g = pack_graph [OF p(6)] and it = iterate_visits [OF o, of cg0]
  have cg: "distinct (map fst (t_callgraph t))" "set (t_callgraph t) = (\<lambda>(k, xs). (word_of_int k, map word_of_int xs)) ` set ?E"
    using g(2) it(2) g(1) it(1) p(8) keys(1) by (simp_all add: cg0)
  let ?S = "concat (map u_sections us)"
  have sec: "section_packed t (f, n, d)" if s: "(f, n, d) \<in> set ?S" for f n d
  proof -
    have "text_of fs (prefix @ ''.bbtrans'') \<noteq> []"
    proof -
      have "blocks_text (f, n, d) \<noteq> []" by (simp add: blocks_text_def)
      then show ?thesis using s unfolding files(2) by (metis concat_eq_Nil_conv image_eqI set_map)
    qed
    then obtain content where t: "contents fs (prefix @ ''.bbtrans'') = Some content" by (auto simp: text_of_def split: option.splits)
    then obtain bb0 bb ipd where bb: "parse_bb content = Some bb0" "pack_all (pack_blocks order) (iterate order bb0) = Some bb" "t_bb t = Some (bb, ipd)"
      using p(9) by auto
    have "bb0 = ?S" using bb(1) t files(2) parse_bb_text [OF keys(2,3)] by (simp add: text_of_def)
    then have "(f, n, d) \<in> set (iterate order bb0)" using iterate_visits(1) [OF o keys(2)] s by simp
    then obtain r where "r \<in> set bb" "pack_blocks order (f, n, d) = Some r"
      using pack_all_member [OF bb(2)] by blast
    moreover have "distinct (map fst d)" using keys(3) s by blast
    ultimately show ?thesis using pack_blocks_Some [OF _ o, of f n d r] bb(3) unfolding section_packed_def prod.case by blast
  qed
  have call: "set (t_callgraph t) = (\<Union>u \<in> set us. (\<lambda>(k, xs). (word_of_int k, map word_of_int xs)) ` set (map_of_sets (u_edges u)))"
    unfolding cg(2) by (simp add: image_UN)
  have "section_packed t x" if "u \<in> set us" "x \<in> set (u_sections u)" for u x
  proof -
    have "x \<in> set ?S" using that by auto
    moreover obtain f n d where "x = (f, n, d)" by (metis surj_pair)
    ultimately show ?thesis using sec [of f n d] by (simp only:)
  qed
  moreover have "\<exists>u \<in> set us. \<exists>x \<in> set (u_sections u). i = word_of_int (fst x)"
    if bb: "t_bb t = Some (bb, ipd)" "(i, n, d) \<in> set bb" for bb ipd i n d
  proof -
    obtain content where c: "contents fs (prefix @ ''.bbtrans'') = Some content" using p(9) bb(1) by (cases "contents fs (prefix @ ''.bbtrans'')") auto
    then obtain bb0 where bb0: "parse_bb content = Some bb0" "pack_all (pack_blocks order) (iterate order bb0) = Some bb"
      using p(9) bb(1) by auto
    have "bb0 = ?S" using bb0(1) c files(2) parse_bb_text [OF keys(2,3)] by (simp add: text_of_def)
    then have "set (iterate order bb0) = set ?S" using iterate_visits(1) [OF o keys(2)] by simp
    moreover obtain x where x: "x \<in> set (iterate order bb0)" "pack_blocks order x = Some (i, n, d)"
      using pack_all_source [OF bb0(2) bb(2)] by blast
    moreover have "i = word_of_int (fst x)"
      using x(2) by (auto simp: pack_blocks_def bind_eq_Some_conv pack_int_Some split: prod.splits)
    ultimately show ?thesis by auto
  qed
  ultimately show ?thesis unfolding prelinked_def using fcts cg(1) call
    by (intro conjI ballI allI impI) (simp_all only: simp_thms, metis)
qed

section \<open>The policy of the module\<close>

text \<open>Module \<open>m\<close> of the monitor is the prelinked project.\<close>

definition loaded_project ::
    "string list \<Rightarrow> (string \<times> u32 \<times> string) list \<Rightarrow> unit_run list \<Rightarrow> tables \<Rightarrow> monitor_data \<Rightarrow> module_id \<Rightarrow> bool" where
  "loaded_project N es us t data m \<longleftrightarrow> prelinked N es us t \<and> table_of N es \<and> loadable (sections t) empty_module \<and>
     module_at data (Some (unat m)) = Some (loaded_module t)"

lemma loaded_numbers:
  assumes "loaded_project N es us t data m" "numbers N g = Some i"
  shows "length (t_fcts t) < 2 ^ 32" "i < of_nat (length (t_fcts t))"
proof -
  have t: "table_of N es" "t_fcts t = map (\<lambda>(name, i, flags). (bytes_of name, i, flags)) es"
    using assms(1) by (simp_all add: loaded_project_def prelinked_def)
  then have len: "length (t_fcts t) = length N" using table_of_names(2) by simp
  then show "length (t_fcts t) < 2 ^ 32" using t(1) by (simp add: table_of_def)
  obtain k where "k < length N" "i = of_nat k" using numbers_SomeD [OF _ assms(2)] t(1) by (auto simp: table_of_def)
  then show "i < of_nat (length (t_fcts t))"
    using t(1) unat_of_nat_u32 [of k] unat_of_nat_u32 [of "length N"] by (simp add: len word_less_nat_alt table_of_def)
qed

lemma loaded_calls:
  assumes l: "loaded_project N es us t data m" and facts: "list_all (unit_facts ndebug level ignored N) us"
    and n: "numbers N f = Some i" "numbers N g = Some j"
  shows "call_edge data m i j \<longleftrightarrow> (\<exists>u \<in> set us. (sint i, sint j) \<in> set (u_edges u))"
proof -
  let ?w = "\<lambda>(k, xs). (word_of_int k, map word_of_int xs) :: u32 \<times> u32 list"
  have t: "module_at data (Some (unat m)) = Some (loaded_module t)" "distinct (map fst (t_callgraph t))"
      "set (t_callgraph t) = (\<Union>u \<in> set us. ?w ` set (map_of_sets (u_edges u)))"
    using l by (simp_all add: loaded_project_def prelinked_def)
  have row: "(\<exists>xs. (k, xs) \<in> set (map_of_sets edges) \<and> c \<in> set xs) \<longleftrightarrow> (k, c) \<in> set edges" for edges k c
    using map_of_sets_edges [of edges k c] map_of_eq_Some_iff [OF map_of_sets_keys(1)] by simp
  have signed: "k = sint (word_of_int k :: u32) \<and> c = sint (word_of_int c :: u32)" if "u \<in> set us" "(k, c) \<in> set (u_edges u)" for u k c
    using facts that by (auto simp: list_all_iff unit_facts_def Let_def source_calls_def)
  have "call_edge data m i j \<longleftrightarrow> (\<exists>callees. (i, callees) \<in> set (t_callgraph t) \<and> j \<in> set callees)"
    using loaded_call_edge [OF t(1) loaded_numbers(1,2) [OF l n(1)], of j] loaded_numbers(2) [OF l n(2)] t(2) by simp
  also have "\<dots> \<longleftrightarrow> (\<exists>u \<in> set us. \<exists>k c. (\<exists>xs. (k, xs) \<in> set (map_of_sets (u_edges u)) \<and> c \<in> set xs) \<and> word_of_int k = i \<and> word_of_int c = j)"
    unfolding t(3) by fastforce
  also have "\<dots> \<longleftrightarrow> (\<exists>u \<in> set us. \<exists>k c. (k, c) \<in> set (u_edges u) \<and> word_of_int k = i \<and> word_of_int c = j)" by (simp only: row)
  also have "\<dots> \<longleftrightarrow> (\<exists>u \<in> set us. (sint i, sint j) \<in> set (u_edges u))"
  proof
    assume "\<exists>u \<in> set us. (sint i, sint j) \<in> set (u_edges u)"
    moreover have "word_of_int (sint i) = i" "word_of_int (sint j) = j" by simp_all
    ultimately show "\<exists>u \<in> set us. \<exists>k c. (k, c) \<in> set (u_edges u) \<and> word_of_int k = i \<and> word_of_int c = j" by blast
  qed (use signed in metis)
  finally show ?thesis .
qed

lemma loaded_jumps:
  assumes l: "loaded_project N es us t data m" and u: "u \<in> set us" "source_section M N g \<in> set (u_sections u)"
    and n: "numbers N g = Some f" and b: "closed_blocks (body_of M g)" "a < length (body_of M g)" "s < length (body_of M g)"
      "length (body_of M g) \<noteq> 1"
  shows "cfg_edge data m f (of_nat a) (of_nat s) \<longleftrightarrow> s \<in> set (successors (bb_term (body_of M g ! a)))"
proof -
  let ?bs = "body_of M g" and ?ss = "\<lambda>a. successors (bb_term (body_of M g ! a))"
  have small: "length ?bs < 2 ^ 32" using b(1) by (simp add: closed_blocks_def)
  obtain bb ipd rows where r: "t_bb t = Some (bb, ipd)" "(f, of_nat (length ?bs), rows) \<in> set bb" "distinct (map fst rows)"
      "set rows = (\<lambda>(k, xs). (word_of_int k, map word_of_int xs)) ` set (block_rows ?bs)"
  proof -
    have "section_packed t (source_section M N g)" using l u by (simp add: loaded_project_def prelinked_def)
    then show thesis using that n by (auto simp: section_packed_def source_section_def)
  qed
  have le: "k < length ?bs \<Longrightarrow> k < 2 ^ 32" for k using small by simp
  have less: "(of_nat k :: u32) < of_nat (length ?bs)" if "k < length ?bs" for k
    using that small unat_of_nat_u32 [OF le [OF that]] unat_of_nat_u32 [OF small] by (simp add: word_less_nat_alt)
  have succ: "k < length ?bs" if "c < length ?bs" "k \<in> set (?ss c)" for c k
    using that b(1) nth_mem [OF that(1)] by (auto simp: closed_blocks_def list_all_iff)
  have rows: "set rows = {(of_nat c, map of_nat (?ss c)) | c. c < length ?bs \<and> ?ss c \<noteq> []}"
  proof -
    have "set (block_rows ?bs) = {(int c, map int (?ss c)) | c. c < length ?bs \<and> ?ss c \<noteq> []}"
      using b(4) by (force simp: block_rows_def in_set_enumerate_eq image_iff)
    then show ?thesis unfolding r(4) by (force simp: comp_def image_iff)
  qed
  have "cfg_edge data m f (of_nat a) (of_nat s) \<longleftrightarrow> (\<exists>succs. (of_nat a, succs) \<in> set rows \<and> of_nat s \<in> set succs)"
    using loaded_cfg_edge [OF _ r(1,2), of data m "of_nat a" "of_nat s"] l less b(2,3) r(3) by (simp add: loaded_project_def)
  also have "\<dots> \<longleftrightarrow> (\<exists>c < length ?bs. (of_nat a :: u32) = of_nat c \<and> (\<exists>k \<in> set (?ss c). (of_nat s :: u32) = of_nat k))"
    unfolding rows by fastforce
  also have "\<dots> \<longleftrightarrow> s \<in> set (?ss a)"
    using of_nat_u32_inject [OF le [OF b(2)] le] of_nat_u32_inject [OF le [OF b(3)] le] succ b(2) by (metis (no_types, lifting))
  finally show ?thesis .
qed

lemma loaded_dest:
  assumes l: "loaded_project N es us t data m" and g: "internal es g" "numbers N g = Some i"
  shows "call_dest data m i = Some (m, i)"
proof -
  have t: "table_of N es" "t_fcts t = map (\<lambda>(name, i, flags). (bytes_of name, i, flags)) es"
      "loadable (sections t) empty_module" "module_at data (Some (unat m)) = Some (loaded_module t)"
    using l by (simp_all add: loaded_project_def prelinked_def)
  obtain j flags where e: "map_of es g = Some (j, flags)" "flags \<noteq> ''External''" using g(1) by (auto simp: internal_def)
  then have "j = i" using table_of_entry [OF t(1) map_of_SomeD [OF e(1)]] g(2) by simp
  then have "(bytes_of g, i, flags) \<in> set (t_fcts t)" using map_of_SomeD [OF e(1)] unfolding t(2) by force
  from loaded_function [OF t(3) this] obtain fs where fs: "md_functions (loaded_module t) = Some fs" "unat i < length fs"
      "fd_flags (fs ! unat i) = flag_to_int flags"
    by blast
  then have "\<not> FUNCTION_IS_EXTERNAL (fs ! unat i)" using e(2) by (simp add: FUNCTION_IS_EXTERNAL_def flag_to_int_def)
  then show ?thesis using fs(1,2) t(4) by (simp add: call_dest_def)
qed

lemma bytes_of_inject: "bytes_of a = bytes_of b \<Longrightarrow> a = b"
proof -
  have "inj (\<lambda>c. of_nat (of_char c) :: byte)"
  proof (rule injI)
    fix c d :: char
    assume "(of_nat (of_char c) :: byte) = of_nat (of_char d)"
    then have "unat (of_nat (of_char c) :: byte) = unat (of_nat (of_char d) :: byte)" by simp
    then have "(of_char c :: nat) = of_char d"
      using nat_of_char_less_256 [of c] nat_of_char_less_256 [of d] by (simp only: unat_of_nat) (simp add: take_bit_nat_eq_self)
    then show "c = d" by simp
  qed
  then show "bytes_of a = bytes_of b \<Longrightarrow> a = b" unfolding bytes_of_def by (simp add: inj_map_eq_map)
qed

lemma loaded_entry:
  assumes "loaded_project N es us t data m" "(bytes_of g, i, flags) \<in> set (t_fcts t)"
  shows "numbers N g = Some i"
proof -
  have t: "table_of N es" "t_fcts t = map (\<lambda>(name, i, flags). (bytes_of name, i, flags)) es"
    using assms(1) by (simp_all add: loaded_project_def prelinked_def)
  then obtain name where "bytes_of g = bytes_of name" "(name, i, flags) \<in> set es" using assms(2) by auto
  then show ?thesis using table_of_entry [OF t(1)] bytes_of_inject by metis
qed

section \<open>The program\<close>

text \<open>The first definition of a function among the units.\<close>

fun program_of :: "llvm_module list \<Rightarrow> program" where
  "program_of [] g = None"
| "program_of (M # Ms) g = (if body_of M g \<noteq> [] then get_function M g else program_of Ms g)"

lemma program_of_Some:
  "program_of Ms g = Some F \<Longrightarrow> \<exists>M \<in> set Ms. body_of M g = fn_blocks F \<and> fn_blocks F \<noteq> []"
  by (induction Ms g rule: program_of.induct) (auto simp: body_of_def split: if_splits option.splits)

lemma program_of_None: "program_of Ms g = None \<longleftrightarrow> (\<forall>M \<in> set Ms. body_of M g = [])"
  by (induction Ms g rule: program_of.induct) (auto simp: body_of_def split: option.splits)

text \<open>
  The programs the pass is made for. Calls the pass looks at go to functions defined in some unit,
  other calls leave the module; a function is defined once; its last block is the one that
  returns; the units do not use the names of the hooks.
\<close>

definition sound_program :: "string set \<Rightarrow> llvm_module list \<Rightarrow> bool" where
  "sound_program ignored Ms \<longleftrightarrow> list_all wf_unit Ms \<and> list_all closed_unit Ms \<and> distinct (concat (map defined_names Ms)) \<and>
     (\<forall>M \<in> set Ms. \<forall>M2 \<in> set Ms. is_intrinsic M2 = is_intrinsic M) \<and>
     (\<forall>M \<in> set Ms. \<forall>g. (is_dbg M g \<longrightarrow> is_intrinsic M g) \<and> (is_intrinsic M g \<longrightarrow> g \<notin> set prototypes) \<and>
        (is_intrinsic M g \<or> g \<in> set prototypes \<or> g = ''llvm.returnaddress'' \<longrightarrow> body_of M g = [])) \<and>
     (\<forall>M \<in> set Ms. \<forall>f \<in> unit_names M ignored. body_of M f \<noteq> [] \<longrightarrow> single_exit (body_of M f) \<and>
        (\<forall>g \<in> called (body_of M f). g \<notin> set prototypes \<and>
           (if watched M ignored g then \<exists>M2 \<in> set Ms. body_of M2 g \<noteq> [] else \<forall>M2 \<in> set Ms. body_of M2 g = [])))"

lemma sound_programD:
  assumes "sound_program ignored Ms" "M \<in> set Ms"
  shows "wf_unit M" "closed_unit M" "M2 \<in> set Ms \<Longrightarrow> is_intrinsic M2 = is_intrinsic M"
    "is_dbg M g \<Longrightarrow> is_intrinsic M g" "is_intrinsic M g \<Longrightarrow> g \<notin> set prototypes"
    "is_intrinsic M g \<or> g \<in> set prototypes \<or> g = ''llvm.returnaddress'' \<Longrightarrow> body_of M g = []"
    "f \<in> unit_names M ignored \<Longrightarrow> body_of M f \<noteq> [] \<Longrightarrow> single_exit (body_of M f)"
    "f \<in> unit_names M ignored \<Longrightarrow> body_of M f \<noteq> [] \<Longrightarrow> g \<in> called (body_of M f) \<Longrightarrow> g \<notin> set prototypes"
    "f \<in> unit_names M ignored \<Longrightarrow> body_of M f \<noteq> [] \<Longrightarrow> g \<in> called (body_of M f) \<Longrightarrow>
       if watched M ignored g then \<exists>M2 \<in> set Ms. body_of M2 g \<noteq> [] else \<forall>M2 \<in> set Ms. body_of M2 g = []"
proof -
  note s = assms(1) [unfolded sound_program_def list_all_iff]
  show "wf_unit M" using s assms(2) by (elim conjE bspec)
  show "closed_unit M" using s assms(2) by (elim conjE bspec)
  have "\<forall>M \<in> set Ms. \<forall>M2 \<in> set Ms. is_intrinsic M2 = is_intrinsic M" using s by (elim conjE)
  from bspec [OF this assms(2)] show "is_intrinsic M2 = is_intrinsic M" if "M2 \<in> set Ms" using that by (rule bspec)
  have "\<forall>M \<in> set Ms. \<forall>g. (is_dbg M g \<longrightarrow> is_intrinsic M g) \<and> (is_intrinsic M g \<longrightarrow> g \<notin> set prototypes) \<and>
      (is_intrinsic M g \<or> g \<in> set prototypes \<or> g = ''llvm.returnaddress'' \<longrightarrow> body_of M g = [])"
    using s by (elim conjE)
  from spec [OF bspec [OF this assms(2)], of g]
  show "is_dbg M g \<Longrightarrow> is_intrinsic M g" "is_intrinsic M g \<Longrightarrow> g \<notin> set prototypes"
    "is_intrinsic M g \<or> g \<in> set prototypes \<or> g = ''llvm.returnaddress'' \<Longrightarrow> body_of M g = []" by simp_all
  assume fn: "f \<in> unit_names M ignored" "body_of M f \<noteq> []"
  have "\<forall>M \<in> set Ms. \<forall>f \<in> unit_names M ignored. body_of M f \<noteq> [] \<longrightarrow> single_exit (body_of M f) \<and>
      (\<forall>g \<in> called (body_of M f). g \<notin> set prototypes \<and>
         (if watched M ignored g then \<exists>M2 \<in> set Ms. body_of M2 g \<noteq> [] else \<forall>M2 \<in> set Ms. body_of M2 g = []))"
    using s by (elim conjE)
  from mp [OF bspec [OF bspec [OF this assms(2)] fn(1)] fn(2)]
  have f: "single_exit (body_of M f) \<and> (\<forall>g \<in> called (body_of M f). g \<notin> set prototypes \<and>
      (if watched M ignored g then \<exists>M2 \<in> set Ms. body_of M2 g \<noteq> [] else \<forall>M2 \<in> set Ms. body_of M2 g = []))"
    .
  then show "single_exit (body_of M f)" ..
  assume g: "g \<in> called (body_of M f)"
  show "g \<notin> set prototypes" "if watched M ignored g then \<exists>M2 \<in> set Ms. body_of M2 g \<noteq> [] else \<forall>M2 \<in> set Ms. body_of M2 g = []"
    using bspec [OF conjunct2 [OF f] g] by (rule conjunct1, rule conjunct2)
qed

lemma facts_body_Nil:
  assumes "unit_facts ndebug level ignored N u"
  shows "body_of (u_result u) g = [] \<longleftrightarrow> body_of (u_source u) g = []"
proof (cases "g \<in> unit_names (u_source u) ignored")
  case True
  then have "hooked ndebug (u_source u) (u_cfi u) (has_blocks (u_cfi u) level g) (the (numbers N g)) (body_of (u_source u) g) (body_of (u_result u) g)"
    using assms by (simp add: unit_facts_def Let_def)
  then show ?thesis by (auto simp: hooked_def instrumented_def split: if_splits)
qed (use assms in \<open>simp add: unit_facts_def Let_def\<close>)

lemma project_program_None:
  assumes "list_all (unit_facts ndebug level ignored N) us"
  shows "program_of (map u_result us) g = None \<longleftrightarrow> program_of (map u_source us) g = None"
  using assms facts_body_Nil by (force simp: program_of_None list_all_iff)

text \<open>What the code of one function asks of the tables, they allow.\<close>

lemma loaded_call_allowed:
  assumes l: "loaded_project N es us t data m" and facts: "list_all (unit_facts ndebug level ignored N) us"
    and sound: "sound_program ignored (map u_source us)"
    and int: "\<forall>g. (\<exists>M \<in> set (map u_source us). g \<in> unit_names M ignored \<and> body_of M g \<noteq> []) \<longrightarrow> internal es g"
    and u: "u \<in> set us" "f \<in> unit_names (u_source u) ignored" "body_of (u_source u) f \<noteq> []" "numbers N f = Some i"
      "BB \<in> set (body_of (u_source u) f)"
  shows "list_all (call_allowed data m i (IdentifiedFunctions (u_cfi u)) (program_of (map u_result us)) (watch (u_source u) (u_cfi u))) (bb_instrs BB)"
proof -
  let ?M = "u_source u" and ?cfi = "u_cfi u"
  have M: "?M \<in> set (map u_source us)" using u(1) by simp
  have uf: "IgnoredFunctions ?cfi = ignored" "IdentifiedFunctions ?cfi \<subseteq>\<^sub>m numbers N" "unit_names ?M ignored \<subseteq> dom (IdentifiedFunctions ?cfi)"
      "set (u_edges u) = source_calls ?M ignored N"
    using facts u(1) by (simp_all add: list_all_iff unit_facts_def Let_def)
  have code: "g \<notin> set prototypes \<and> (if watched ?M ignored g then \<exists>M2 \<in> set (map u_source us). body_of M2 g \<noteq> []
      else \<forall>M2 \<in> set (map u_source us). body_of M2 g = [])" if "g \<in> called (body_of ?M f)" for g
    using sound_programD(8,9) [OF sound M u(2,3) that] by (intro conjI)
  have w: "watch ?M ?cfi g \<longleftrightarrow> watched ?M ignored g" for g
    using uf(1) by (auto simp: watch_def watched_def isIgnoredFunction_def)
  have defd: "program_of (map u_result us) g = None \<longleftrightarrow> (\<forall>M2 \<in> set (map u_source us). body_of M2 g = [])" for g
    using project_program_None [OF facts] program_of_None by simp
  have edge: "\<exists>j. IdentifiedFunctions ?cfi g = Some j \<and> call_edge data m i j \<and> call_dest data m j = Some (m, j)"
    if g: "g \<in> called (body_of ?M f)" "watched ?M ignored g" for g
  proof -
    have closed: "closed_unit ?M" by (rule sound_programD(2) [OF sound M])
    have name: "g \<in> unit_names ?M ignored"
      using g closed_unit_body(2) [OF closed, of f] by (auto simp: unit_names_def get_function_None)
    then obtain j where j: "IdentifiedFunctions ?cfi g = Some j" using uf(3) by blast
    then have nj: "numbers N g = Some j" using uf(2) by (metis domI map_le_def)
    have "(sint i, sint j) \<in> set (u_edges u)" unfolding uf(4) source_calls_def using u(2,4) g(1) name nj by blast
    then have "call_edge data m i j" using loaded_calls [OF l facts u(4) nj] u(1) by blast
    moreover have "internal es g"
    proof -
      obtain M2 where M2: "M2 \<in> set (map u_source us)" "body_of M2 g \<noteq> []" using code [OF g(1)] g(2) by auto
      moreover have "is_intrinsic M2 = is_intrinsic ?M" by (rule sound_programD(3) [OF sound M M2(1)])
      then have "g \<in> unit_names M2 ignored" using g(2) M2(2) by (cases "get_function M2 g") (simp_all add: unit_names_def watched_def body_of_def)
      ultimately show ?thesis using int by blast
    qed
    ultimately show ?thesis using j loaded_dest [OF l _ nj] by blast
  qed
  have "call_allowed data m i (IdentifiedFunctions ?cfi) (program_of (map u_result us)) (watch ?M ?cfi) I" if "I \<in> set (bb_instrs BB)" for I
  proof (cases "callee_name I")
    case None
    then show ?thesis by (cases I rule: callee_name.cases) (simp_all add: call_allowed_def)
  next
    case (Some g)
    then obtain r args where I: "I = CallInst r (Function g) args" by (cases I rule: callee_name.cases) auto
    have g: "g \<in> called (body_of ?M f)" using that u(5) Some by (auto simp: called_def)
    note c = code [OF g]
    show ?thesis
    proof (cases "watched ?M ignored g")
      case True
      have "program_of (map u_result us) g \<noteq> None" using c True defd [of g] by auto
      then show ?thesis using I w True edge [OF g True] hook_of_None [of g args] c by (auto simp: call_allowed_def)
    next
      case False
      have "program_of (map u_result us) g = None" using c False defd [of g] by auto
      then show ?thesis using I w False hook_of_None [of g args] c by (auto simp: call_allowed_def)
    qed
  qed
  then show ?thesis by (simp add: list_all_iff)
qed

lemma program_activation:
  assumes l: "loaded_project N es us t data m" and facts: "list_all (unit_facts ndebug level ignored N) us"
    and sound: "sound_program ignored (map u_source us)"
    and int: "\<forall>g. (\<exists>M \<in> set (map u_source us). g \<in> unit_names M ignored \<and> body_of M g \<noteq> []) \<longrightarrow> internal es g"
    and names: "set N \<subseteq> (\<Union>M \<in> set (map u_source us). unit_names M ignored)"
    and "runs_upto n (program_of (map u_result us)) g hs" "numbers N g = Some i"
  shows "activation data m i (map (hook_signal m) hs)"
  using assms(6,7)
proof (induction n arbitrary: g hs i)
  case (Suc n)
  let ?P = "program_of (map u_result us)" and ?R = "runs_upto n (program_of (map u_result us))"
  obtain F where F: "?P g = Some F" "run_blocks ?R ?P (fn_blocks F) 0 hs" using Suc.prems(1) by auto
  then obtain u where u: "u \<in> set us" "body_of (u_result u) g = fn_blocks F" "fn_blocks F \<noteq> []"
    using program_of_Some by fastforce
  let ?M = "u_source u" and ?cfi = "u_cfi u"
  have M: "?M \<in> set (map u_source us)" using u(1) by simp
  have uf: "unit_facts ndebug level ignored N u" using facts u(1) by (simp add: list_all_iff)
  then have known: "IdentifiedFunctions ?cfi \<subseteq>\<^sub>m numbers N" by (simp add: unit_facts_def Let_def)
  have body: "body_of ?M g \<noteq> []" using facts_body_Nil [OF uf, of g] u(2,3) by simp
  have g: "g \<in> unit_names ?M ignored"
  proof -
    have "g \<in> set N" using Suc.prems(2) by (metis numbers_None option.distinct(1))
    then obtain M2 where M2: "M2 \<in> set (map u_source us)" "g \<in> unit_names M2 ignored" using names by blast
    have "is_intrinsic M2 = is_intrinsic ?M" by (rule sound_programD(3) [OF sound M M2(1)])
    then show ?thesis using M2(2) body by (cases "get_function ?M g") (simp_all add: unit_names_def watched_def body_of_def)
  qed
  have inst: "instrumented ndebug ?M ?cfi (has_blocks ?cfi level g) i (body_of ?M g) (fn_blocks F)"
  proof -
    have "hooked ndebug ?M ?cfi (has_blocks ?cfi level g) (the (numbers N g)) (body_of ?M g) (body_of (u_result u) g)"
      using uf g by (simp add: unit_facts_def Let_def)
    then show ?thesis using body u(2) Suc.prems(2) by (simp add: hooked_def)
  qed
  have callees: "callees_activate data m ?cfi ?R"
  proof -
    have "numbers N g = Some j" if "IdentifiedFunctions ?cfi g = Some j" for g j using known that by (metis domI map_le_def)
    then show ?thesis using Suc.IH by (auto simp: callees_activate_def)
  qed
  have out: "outside ?P ?M"
  proof -
    have "?P h = None" if "is_intrinsic ?M h \<or> h \<in> set prototypes \<or> h = ''llvm.returnaddress''" for h
    proof -
      have "body_of M2 h = []" if M2: "M2 \<in> set (map u_source us)" for M2
        using sound_programD(6) [OF sound M2, of h] sound_programD(3) [OF sound M M2] \<open>is_intrinsic ?M h \<or> _\<close> by simp
      then show ?thesis using project_program_None [OF facts] program_of_None by simp
    qed
    then show ?thesis using sound_programD(4,5) [OF sound M] by (simp add: outside_def)
  qed
  have shape: "single_exit (body_of ?M g)" by (rule sound_programD(7) [OF sound M g body])
  have closed: "closed_blocks (body_of ?M g)" by (rule closed_unit_body(1) [OF sound_programD(2) [OF sound M]])
  have calls: "\<forall>BB \<in> set (body_of ?M g). list_all (call_allowed data m i (IdentifiedFunctions ?cfi) ?P (watch ?M ?cfi)) (bb_instrs BB)"
    using loaded_call_allowed [OF l facts sound int u(1) g body Suc.prems(2)] by blast
  have jumps: "\<forall>a < length (body_of ?M g). \<forall>s \<in> set (successors (bb_term (body_of ?M g ! a))). cfg_edge data m i (of_nat a) (of_nat s)"
    if "has_blocks ?cfi level g"
  proof (intro allI impI ballI)
    fix a s
    assume a: "a < length (body_of ?M g)" "s \<in> set (successors (bb_term (body_of ?M g ! a)))"
    have "source_section ?M N g \<in> set (u_sections u)" using uf g body that by (simp add: unit_facts_def Let_def)
    moreover have "length (body_of ?M g) \<noteq> 1" "s < length (body_of ?M g)" using single_exit_nth(2) [OF shape a] by auto
    ultimately show "cfg_edge data m i (of_nat a) (of_nat s)" using loaded_jumps [OF l u(1) _ Suc.prems(2) closed a(1)] a(2) by blast
  qed
  show ?case by (rule instrumented_activation [OF callees out inst shape calls jumps F(2)])
qed simp

text \<open>From the compilation of the units to the runs of the program.\<close>

lemma unit_keys:
  assumes facts: "list_all (unit_facts ndebug level ignored N) us" and N: "distinct N" "length N < 2 ^ 32"
    and sound: "sound_program ignored (map u_source us)"
  shows "distinct (map fst (concat (map (\<lambda>u. map_of_sets (u_edges u)) us)))" "distinct (map fst (concat (map u_sections us)))"
    "\<forall>(f, n, d) \<in> set (concat (map u_sections us)). distinct (map fst d) \<and> (n = 1 \<longrightarrow> d = [])"
proof -
  let ?d = "\<lambda>u. filter (\<lambda>g. g \<in> unit_names (u_source u) ignored) (defined_names (u_source u))"
  have uf: "unit_facts ndebug level ignored N u" if "u \<in> set us" for u using facts that by (simp add: list_all_iff)
  have known: "g \<in> set N" if "u \<in> set us" "g \<in> unit_names (u_source u) ignored" for u g
  proof -
    have "g \<in> dom (IdentifiedFunctions (u_cfi u))" "IdentifiedFunctions (u_cfi u) \<subseteq>\<^sub>m numbers N"
      using uf [OF that(1)] that(2) by (auto simp: unit_facts_def Let_def)
    then show ?thesis using map_le_implies_dom_le by fastforce
  qed
  have dist: "distinct (concat (map ?d us))"
  proof -
    have "distinct (concat (map (defined_names \<circ> u_source) us))" using sound by (simp add: sound_program_def)
    then show ?thesis by (induction us) auto
  qed
  have inj: "inj_on (\<lambda>g. \<kappa> (the (numbers N g))) (set (concat (map ?d us)))" if "inj \<kappa>" for \<kappa> :: "u32 \<Rightarrow> int"
  proof (rule inj_onI)
    fix a b
    assume ab: "a \<in> set (concat (map ?d us))" "b \<in> set (concat (map ?d us))" "\<kappa> (the (numbers N a)) = \<kappa> (the (numbers N b))"
    then have "a \<in> set N" "b \<in> set N" using known by auto
    then obtain i j where "numbers N a = Some i" "numbers N b = Some j" by (metis not_None_eq numbers_None)
    then show "a = b" using numbers_inject [OF N, of a i b] injD [OF that ab(3)] by simp
  qed
  have sint_inj: "inj (sint :: u32 \<Rightarrow> int)" by (rule injI) (metis of_int_sint scast_id)
  have unat_inj: "inj (\<lambda>i. int (unat (i :: u32)))" by (rule injI) (simp only: of_nat_eq_iff word_unat_eq_iff)
  have "fst ` set (map_of_sets (u_edges u)) \<subseteq> (\<lambda>g. sint (the (numbers N g))) ` set (?d u)" if "u \<in> set us" for u
  proof
    fix k
    assume "k \<in> fst ` set (map_of_sets (u_edges u))"
    then have "k \<in> fst ` source_calls (u_source u) ignored N"
      using map_of_sets_keys(2) [of "u_edges u"] uf [OF that] by (simp add: unit_facts_def Let_def)
    then obtain i f g where f: "k = sint i" "f \<in> unit_names (u_source u) ignored" "g \<in> called (body_of (u_source u) f)" "numbers N f = Some i"
      by (auto simp: source_calls_def)
    then have "body_of (u_source u) f \<noteq> []" by (auto simp: called_def)
    then show "k \<in> (\<lambda>g. sint (the (numbers N g))) ` set (?d u)" using f(1,2,4) defined_names_body by (force intro!: image_eqI)
  qed
  then show "distinct (map fst (concat (map (\<lambda>u. map_of_sets (u_edges u)) us)))"
    using map_of_sets_keys(1) by (intro distinct_rows [OF dist inj [OF sint_inj]] ballI conjI)
  have "fst ` set (u_sections u) \<subseteq> (\<lambda>g. int (unat (the (numbers N g)))) ` set (?d u)" if "u \<in> set us" for u
    using uf [OF that] defined_names_body by (force simp: unit_facts_def Let_def source_section_def)
  moreover have "distinct (map fst (u_sections u))" if "u \<in> set us" for u using uf [OF that] by (simp add: unit_facts_def Let_def)
  ultimately show "distinct (map fst (concat (map u_sections us)))"
    by (intro distinct_rows [OF dist inj [OF unat_inj]] ballI conjI)
  show "\<forall>(f, n, d) \<in> set (concat (map u_sections us)). distinct (map fst d) \<and> (n = 1 \<longrightarrow> d = [])"
    using uf block_rows_keys by (auto simp: unit_facts_def Let_def source_section_def block_rows_def)
qed

definition fresh_project :: "pass_options \<Rightarrow> file_system \<Rightarrow> bool" where
  "fresh_project opts fs \<longleftrightarrow> is_word (cfi_prefix opts) \<and> cfi_ignore opts \<notin> table_files (cfi_prefix opts) \<and>
     (\<forall>x \<in> table_files (cfi_prefix opts). writable fs x \<and> text_of fs x = [])"

lemma compiled_project:
  assumes c: "compile ndebug order PDT opts Ms fs = Inr (Ms', fs')" and o: "some_order order" "some_order pyorder"
    and fresh: "fresh_project opts fs" and sound: "sound_program (ignored_names opts fs) Ms"
    and small: "(\<Sum>M \<leftarrow> Ms. length (m_functions M)) < 2 ^ 32"
    and t: "prelink pyorder (cfi_prefix opts) fs' = Some t" "loadable (sections t) empty_module"
      "module_at data (Some (unat m)) = Some (loaded_module t)"
  shows "\<exists>N es us. loaded_project N es us t data m \<and> map u_source us = Ms \<and> map u_result us = Ms' \<and>
    list_all (unit_facts ndebug (cfi_level opts) (ignored_names opts fs) N) us \<and>
    set N \<subseteq> (\<Union>M \<in> set Ms. unit_names M (ignored_names opts fs)) \<and>
    (\<forall>g. (\<exists>M \<in> set Ms. g \<in> unit_names M (ignored_names opts fs) \<and> body_of M g \<noteq> []) \<longrightarrow> internal es g)"
proof -
  have proj: "project (cfi_prefix opts) [] [] fs" "cfi_ignore opts \<notin> table_files (cfi_prefix opts)"
    and empty: "text_of fs (cfi_prefix opts @ ''.trans'') = []" "text_of fs (cfi_prefix opts @ ''.bbtrans'') = []"
    using fresh by (simp_all add: fresh_project_def project_def table_files_def)
  have wf: "list_all wf_unit Ms" "list_all closed_unit Ms" using sound by (simp_all add: sound_program_def)
  obtain N es us where u: "project (cfi_prefix opts) N es fs'" "map u_source us = Ms" "map u_result us = Ms'"
      "set N \<subseteq> (\<Union>M \<in> set Ms. unit_names M (ignored_names opts fs))"
      "list_all (unit_facts ndebug (cfi_level opts) (ignored_names opts fs) N) us"
      "text_of fs' (cfi_prefix opts @ ''.trans'') = concat (map callgraph_line (concat (map (\<lambda>u. map_of_sets (u_edges u)) us)))"
      "text_of fs' (cfi_prefix opts @ ''.bbtrans'') = concat (map blocks_text (concat (map u_sections us)))"
      "\<forall>g. (\<exists>M \<in> set Ms. g \<in> unit_names M (ignored_names opts fs) \<and> body_of M g \<noteq> []) \<longrightarrow> internal es g"
    using compile_units [OF c wf o(1) proj(1) _ proj(2)] small empty by auto
  have N: "distinct N" "length N < 2 ^ 32" "table_of N es" using u(1) by (simp_all add: project_def table_of_def)
  have "prelinked N es us t"
    by (rule prelink_project [OF t(1) o(2) u(1,6,7) unit_keys [OF u(5) N(1,2)]]) (simp_all only: u(2) sound)
  then have "loaded_project N es us t data m" using t(2,3) N(3) by (simp add: loaded_project_def)
  then show ?thesis using u by blast
qed

lemma compiled_program_activation:
  assumes "compile ndebug order PDT opts Ms fs = Inr (Ms', fs')" "some_order order" "some_order pyorder"
    "fresh_project opts fs" "sound_program (ignored_names opts fs) Ms" "(\<Sum>M \<leftarrow> Ms. length (m_functions M)) < 2 ^ 32"
    "prelink pyorder (cfi_prefix opts) fs' = Some t" "loadable (sections t) empty_module"
    "module_at data (Some (unat m)) = Some (loaded_module t)"
    "(bytes_of g, i, flags) \<in> set (t_fcts t)" "runs (program_of Ms') g hs"
  shows "activation data m i (map (hook_signal m) hs)"
proof -
  obtain N es us where p: "loaded_project N es us t data m" "map u_source us = Ms" "map u_result us = Ms'"
      "list_all (unit_facts ndebug (cfi_level opts) (ignored_names opts fs) N) us"
      "set N \<subseteq> (\<Union>M \<in> set Ms. unit_names M (ignored_names opts fs))"
      "\<forall>g. (\<exists>M \<in> set Ms. g \<in> unit_names M (ignored_names opts fs) \<and> body_of M g \<noteq> []) \<longrightarrow> internal es g"
    using compiled_project [OF assms(1-9)] by blast
  obtain n where "runs_upto n (program_of (map u_result us)) g hs" using assms(11) p(3) by (auto simp: runs_def)
  from program_activation [OF p(1,4) _ _ _ this loaded_entry [OF p(1) assms(10)]] show ?thesis
    using assms(5) p(2,5,6) by simp
qed

lemma compiled_policy:
  assumes "compile ndebug order PDT opts Ms fs = Inr (Ms', fs')" "some_order order" "some_order pyorder"
    "fresh_project opts fs" "sound_program (ignored_names opts fs) Ms" "(\<Sum>M \<leftarrow> Ms. length (m_functions M)) < 2 ^ 32"
    "prelink pyorder (cfi_prefix opts) fs' = Some t" "loadable (sections t) empty_module"
    "module_at data (Some (unat m)) = Some (loaded_module t)"
    "(bytes_of f, i, flags) \<in> set (t_fcts t)" "(bytes_of g, j, flags') \<in> set (t_fcts t)"
  shows "call_edge data m i j \<longleftrightarrow>
    (\<exists>M \<in> set Ms. f \<in> unit_names M (ignored_names opts fs) \<and> g \<in> unit_names M (ignored_names opts fs) \<and> g \<in> called (body_of M f))"
proof -
  let ?I = "ignored_names opts fs"
  obtain N es us where p: "loaded_project N es us t data m" "map u_source us = Ms"
      "list_all (unit_facts ndebug (cfi_level opts) ?I N) us"
    using compiled_project [OF assms(1-9)] by blast
  have N: "distinct N" "length N < 2 ^ 32" using p(1) by (simp_all add: loaded_project_def table_of_def)
  have fg: "numbers N f = Some i" "numbers N g = Some j"
    using loaded_entry [OF p(1) assms(10)] loaded_entry [OF p(1) assms(11)] by simp_all
  have inj: "a = b" if "numbers N a = Some k" "numbers N b = Some l" "sint k = sint l" for a b k l
  proof -
    have "k = l" using that(3) by (metis of_int_sint scast_id)
    then show ?thesis using numbers_inject [OF N that(1)] that(2) by simp
  qed
  have "(sint i, sint j) \<in> set (u_edges u) \<longleftrightarrow>
      f \<in> unit_names (u_source u) ?I \<and> g \<in> unit_names (u_source u) ?I \<and> g \<in> called (body_of (u_source u) f)" if u: "u \<in> set us" for u
  proof -
    have edges: "set (u_edges u) = source_calls (u_source u) ?I N"
      using p(3) u by (simp add: list_all_iff unit_facts_def Let_def)
    show ?thesis
    proof
      assume "(sint i, sint j) \<in> set (u_edges u)"
      then obtain k l a b where ab: "sint i = sint k" "sint j = sint l" "a \<in> unit_names (u_source u) ?I" "b \<in> called (body_of (u_source u) a)"
          "b \<in> unit_names (u_source u) ?I" "numbers N a = Some k" "numbers N b = Some l"
        unfolding edges source_calls_def by auto
      then have "f = a" "g = b" using inj [OF fg(1) ab(6)] inj [OF fg(2) ab(7)] by simp_all
      then show "f \<in> unit_names (u_source u) ?I \<and> g \<in> unit_names (u_source u) ?I \<and> g \<in> called (body_of (u_source u) f)"
        using ab by simp
    qed (use fg in \<open>auto simp: edges source_calls_def\<close>)
  qed
  then show ?thesis using loaded_calls [OF p(1,3) fg] p(2) by auto
qed

lemma compiled_jumps:
  assumes "compile ndebug order PDT opts Ms fs = Inr (Ms', fs')" "some_order order" "some_order pyorder"
    "fresh_project opts fs" "sound_program (ignored_names opts fs) Ms" "(\<Sum>M \<leftarrow> Ms. length (m_functions M)) < 2 ^ 32"
    "prelink pyorder (cfi_prefix opts) fs' = Some t" "loadable (sections t) empty_module"
    "module_at data (Some (unat m)) = Some (loaded_module t)"
    "(bytes_of g, i, flags) \<in> set (t_fcts t)" "t_bb t = Some (bb, ipd)" "(i, n, d) \<in> set bb"
  shows "\<exists>M \<in> set Ms. body_of M g \<noteq> [] \<and>
    (\<forall>a < length (body_of M g). \<forall>s < length (body_of M g). length (body_of M g) \<noteq> 1 \<longrightarrow>
      (cfg_edge data m i (of_nat a) (of_nat s) \<longleftrightarrow> s \<in> set (successors (bb_term (body_of M g ! a)))))"
proof -
  let ?I = "ignored_names opts fs"
  obtain N es us where p: "loaded_project N es us t data m" "map u_source us = Ms"
      "list_all (unit_facts ndebug (cfi_level opts) ?I N) us"
    using compiled_project [OF assms(1-9)] by blast
  have N: "distinct N" "length N < 2 ^ 32" using p(1) by (simp_all add: loaded_project_def table_of_def)
  have g: "numbers N g = Some i" by (rule loaded_entry [OF p(1) assms(10)])
  obtain u x where u: "u \<in> set us" "x \<in> set (u_sections u)" "i = word_of_int (fst x)"
    using p(1) assms(11,12) unfolding loaded_project_def prelinked_def by blast
  have uf: "set (u_sections u) = source_section (u_source u) N `
        {g \<in> unit_names (u_source u) ?I. has_blocks (u_cfi u) (cfi_level opts) g \<and> body_of (u_source u) g \<noteq> []}"
      "IdentifiedFunctions (u_cfi u) \<subseteq>\<^sub>m numbers N" "unit_names (u_source u) ?I \<subseteq> dom (IdentifiedFunctions (u_cfi u))"
    using p(3) u(1) by (simp_all add: list_all_iff unit_facts_def Let_def)
  obtain h where h: "x = source_section (u_source u) N h" "h \<in> unit_names (u_source u) ?I" "body_of (u_source u) h \<noteq> []"
    using u(2) unfolding uf(1) by auto
  have "h \<in> dom (numbers N)" using h(2) uf(2,3) map_le_implies_dom_le by blast
  then obtain k where "numbers N h = Some k" by blast
  moreover from this have "k = i" using u(3) h(1) by (simp add: source_section_def)
  ultimately have gh: "h = g" using numbers_inject [OF N _ g] by simp
  have M: "u_source u \<in> set Ms" using u(1) p(2) by auto
  have "closed_blocks (body_of (u_source u) g)" by (rule closed_unit_body(1) [OF sound_programD(2) [OF assms(5) M]])
  then show ?thesis
    using loaded_jumps [OF p(1) u(1) _ g, of "u_source u"] u(2) h(1,3) M by (intro bexI [of _ "u_source u"]) (auto simp: gh)
qed

section \<open>What is injected can be erased\<close>

definition injected :: "instr \<Rightarrow> bool" where
  "injected I = (case I of CallInst r (Function g) _ \<Rightarrow> g \<in> set prototypes \<or>
       g = ''llvm.returnaddress'' \<and> r \<in> {''saved_retaddr_prolog'', ''saved_retaddr_epilog''} | _ \<Rightarrow> False)"

definition erase :: "basic_block list \<Rightarrow> basic_block list" where
  "erase bs = map (\<lambda>BB. BB\<lparr>bb_instrs := filter (\<lambda>I. \<not> injected I) (bb_instrs BB)\<rparr>) bs"

lemma injected_calls [simp]:
  "g \<in> set prototypes \<Longrightarrow> injected (hook_call g args)" "injected (returnaddress_call ''saved_retaddr_prolog'')"
  "injected (returnaddress_call ''saved_retaddr_epilog'')"
  by (simp_all add: injected_def hook_call_def returnaddress_call_def)

lemma erase_mcall:
  assumes "mcall_instrs ndebug M cfi pending Is = Inr Js"
  shows "filter (\<lambda>I. \<not> injected I) Js = filter (\<lambda>I. \<not> injected I) Is"
proof -
  have hook: "filter (\<lambda>I. \<not> injected I) ret = []" if "returned_hook ndebug cfi pending = Inr ret" for ret pending
    using that by (cases pending) (auto simp: returned_hook_def results prototypes_def)
  have instr: "filter (\<lambda>I. \<not> injected I) Ks = filter (\<lambda>I. \<not> injected I) [I]" if "mcall_instr ndebug M cfi I = Inr (Ks, p)" for I Ks p
    using that by (auto simp: mcall_instr_def results prototypes_def split: instr.splits callee.splits if_splits)
  show ?thesis
    using assms
  proof (induction Is arbitrary: pending Js)
    case Nil
    then show ?case using hook by simp
  next
    case (Cons I Is)
    obtain ret Ks p Ls where parts: "returned_hook ndebug cfi pending = Inr ret" "mcall_instr ndebug M cfi I = Inr (Ks, p)"
        "mcall_instrs ndebug M cfi p Is = Inr Ls" "Js = ret @ Ks @ Ls"
      using Cons.prems by (auto simp: results)
    have "filter (\<lambda>I. \<not> injected I) Js = filter (\<lambda>I. \<not> injected I) [I] @ filter (\<lambda>I. \<not> injected I) Is"
      using hook [OF parts(1)] instr [OF parts(2)] Cons.IH [OF parts(3)] unfolding parts(4) by (simp only: filter_append append.simps)
    then show ?case by simp
  qed
qed

lemma filter_insert: "filter P (takeWhile Q xs @ ys @ dropWhile Q xs) = filter P xs" if "filter P ys = []"
proof -
  have "filter P (takeWhile Q xs) @ filter P (dropWhile Q xs) = filter P xs" by (metis filter_append takeWhile_dropWhile_id)
  then show ?thesis using that by simp
qed

lemma erase_hooked:
  assumes "hooked ndebug M cfi bb f bs bs'"
  shows "erase bs' = erase bs"
proof (cases "bs = []")
  case False
  let ?e = "filter (\<lambda>I. \<not> injected I)"
  have block: "?e (instrumented_block M bb f n i Js) = ?e Js" for n i Js
  proof -
    have "?e [hook_call ''__CFI_INTERNAL_BB_AFTER_BR'' args] = []" "?e [hook_call ''__CFI_INTERNAL_BB_BEFORE_BR'' args] = []"
      "?e [returnaddress_call ''saved_retaddr_prolog'', hook_call ''__CFI_INTERNAL_ENTER'' args] = []"
      "?e [returnaddress_call ''saved_retaddr_epilog'', hook_call ''__CFI_INTERNAL_EXIT'' args] = []" for args
      by (simp_all add: prototypes_def)
    note none = this
    have app: "?e (xs @ ys) = ?e xs" if "?e ys = []" for xs ys using that by simp
    show ?thesis unfolding instrumented_block_def Let_def
      by (simp only: if_distrib [of ?e] filter_insert [OF none(1)] filter_insert [OF none(3)] app [OF none(2)] app [OF none(4)] if_cancel)
  qed
  have inst: "instrumented ndebug M cfi bb f bs bs'" using assms False by (simp add: hooked_def)
  show ?thesis
  proof (rule nth_equalityI)
    show "length (erase bs') = length (erase bs)" using inst by (simp add: erase_def instrumented_def)
    fix i
    assume "i < length (erase bs')"
    then have i: "i < length bs" "i < length bs'" using inst by (simp_all add: erase_def instrumented_def)
    then obtain Js where "mcall_instrs ndebug M cfi None (bb_instrs (bs ! i)) = Inr Js"
        "bb_instrs (bs' ! i) = instrumented_block M bb f (length bs) i Js" "bb_term (bs' ! i) = bb_term (bs ! i)"
      using inst by (auto simp: instrumented_def)
    then have "?e (bb_instrs (bs' ! i)) = ?e (bb_instrs (bs ! i))" "bb_term (bs' ! i) = bb_term (bs ! i)"
      using block erase_mcall by simp_all
    then show "erase bs' ! i = erase bs ! i" using i by (simp add: erase_def)
  qed
qed (use assms in \<open>simp add: hooked_def\<close>)

lemma compiled_erase:
  assumes "runOnModule ndebug order PDT opts M fs = Inr (M', fs')" "wf_unit M" "some_order order"
    "project (cfi_prefix opts) ns es fs" "length ns + length (m_functions M) < 2 ^ 32"
  shows "erase (body_of M' g) = erase (body_of M g)"
proof -
  obtain ms M1 cfi where c: "compiled_unit ndebug order opts M ns es fs ms M1 cfi M' fs'"
    using run_unit [OF assms] by blast
  then have u: "same_code M M1" "wf_unit M1" "numbered_unit M1 (ns @ ms) cfi" "InjectCode ndebug order cfi (cfi_level opts) M1 = Inr M'"
    unfolding compiled_unit_def by blast+
  note h = compiled_hooks [OF u(4,3,2) assms(3) u(1), of g]
  show ?thesis using h(1) h(2) [THEN erase_hooked] by (cases "g \<in> unit_names M (IgnoredFunctions cfi)") simp_all
qed

end
