(* ===== verification/Protected_Run.thy ===== *)
theory Protected_Run
  imports Pass_Program
begin

text \<open>
  The whole of Picon around one program: its constructor sends the tables, the monitor process
  loads them and serves the client, the hooks of the client wait for its answers.
\<close>

section \<open>A monitor that starts\<close>

text \<open>An environment in which \<open>main\<close> gets as far as the fork, on the parent's side, with nothing to dump.\<close>

definition launches :: "system \<Rightarrow> options \<Rightarrow> bool" where
  "launches sys opts \<longleftrightarrow>
     list_all (\<lambda>v. getenv sys v = None) [''LD_PRELOAD'', ENV_FD_CLIENT_TO_MONITOR, ENV_FD_MONITOR_TO_CLIENT,
       ENV_FD_LOADING_TO_MONITOR, ENV_FD_MONITOR_TO_LOADING, ENV_SM_DUMP] \<and>
     2 \<le> length (argv sys) \<and> list_all (\<lambda>k. pipe2 sys k \<noteq> None) [0, 1, 2, 3] \<and> 0 < fork sys \<and> mask_sigpipe sys = 0 \<and>
     \<not> OPTION_sm_dump opts"

text \<open>Memory is granted in place, writes succeed, and the client is never late.\<close>

definition smooth :: "world \<Rightarrow> bool" where
  "smooth w \<longleftrightarrow> range (w_alloc w) \<subseteq> {Alloc_InPlace} \<and> w_write w = (\<lambda>_. True) \<and> w_select w = (\<lambda>_. True)"

lemma launches_options:
  assumes "launches sys opts"
  shows "\<not> OPTION_sm_dump (env_options sys opts)"
    "OPTION_nb_preload_monitor_ok_answers (env_options sys opts) = OPTION_nb_preload_monitor_ok_answers opts"
  using assms by (simp_all add: launches_def env_options_def)

lemma smooth_alloc: "smooth w \<Longrightarrow> Alloc_Fail \<notin> range (w_alloc w)"
  by (auto simp: smooth_def)

lemma smooth_later:
  assumes "smooth w" "same_client w w'" "alloc_later (w_alloc w) (w_alloc w')"
  shows "smooth w'"
  using assms alloc_later_range by (fastforce simp: smooth_def same_client_def)

lemma main_launched:
  assumes "launches sys opts"
  shows "\<exists>fds. \<forall>w. main opts g gp gdata exec_ok sys w = monitor_process (env_options sys opts) g gp gdata sys fds w"
proof -
  obtain c2m m2c l2m m2l where p: "pipe2 sys 0 = Some c2m" "pipe2 sys 1 = Some m2c" "pipe2 sys 2 = Some l2m" "pipe2 sys 3 = Some m2l"
    using assms by (auto simp: launches_def)
  show ?thesis
    using assms p by (intro exI [of _ "(c2m, m2c, l2m, m2l)"]) (simp add: main_def launches_def Let_def)
qed

section \<open>Serving one module\<close>

lemma count_finis_one:
  assumes "self_contained t"
  shows "count_finis (one_module pid c2m m2c l2m m2l t) 0 1 0 = Some 0"
  using self_contained_entrypoints [OF assms] by (simp add: arr_get_def)

lemma serve_activation:
  assumes ok: "loadable (sections t) empty_module" "self_contained t" and d: "d = one_module pid c2m m2c l2m m2l t"
    and wf: "wf_modules d" "relocs_ok d" and w: "smooth w" "client_to_monitor w = map encode_signal (us @ vs)"
    and act: "(fname, i, ''Main'') \<in> set (t_fcts t)" "activation d 0 i us"
  shows "\<exists>w'. monitor_serve opts g d w = Some (0, w') \<and> client_to_monitor w' = map encode_signal vs \<and>
    monitor_to_client w' = monitor_to_client w @
      replicate (unat (OPTION_nb_preload_monitor_ok_answers opts) + length us) [CFI_OK]"
proof -
  let ?n = "unat (OPTION_nb_preload_monitor_ok_answers opts)"
  let ?w = "w\<lparr>monitor_to_client := monitor_to_client w @ replicate ?n [CFI_OK]\<rparr>"
  have pre: "preload_answers ?n w 0 = (?w, 0)" using w(1) by (simp add: preload_writes smooth_def)
  have s: "smooth ?w" "client_to_monitor ?w = map encode_signal (us @ vs)" using w by (simp_all add: smooth_def)
  have entry: "entry_point d 0 i" unfolding d by (rule one_module_main [OF ok(1) act(1)])
  have "depth_fits opts ?w (call_depth 0 us)" "responsive opts ?w" using s(1) by (auto simp: depth_fits_def responsive_def smooth_def)
  then obtain w' where "monitor_run opts g d ?w = Some (0, w')" "client_to_monitor w' = map encode_signal vs"
      "monitor_to_client w' = monitor_to_client ?w @ replicate (length us) [CFI_OK]"
    using monitor_run_complete [OF wf smooth_alloc [OF s(1)] s(2) entry act(2)] by blast
  then show ?thesis
    using pre count_finis_one [OF ok(2), of pid c2m m2c l2m m2l] by (simp add: monitor_serve_def d replicate_add)
qed

text \<open>The monitor's verdict: it ends well exactly when the client's signals start with an activation of the main function.\<close>

definition policy_of :: "tables \<Rightarrow> monitor_data" where
  "policy_of t = one_module 0 0 0 0 0 t"

definition keeps_to :: "tables \<Rightarrow> client_signal list \<Rightarrow> bool" where
  "keeps_to t ts \<longleftrightarrow>
     (\<exists>us vs fname i. ts = us @ vs \<and> (fname, i, ''Main'') \<in> set (t_fcts t) \<and> activation (policy_of t) 0 i us)"

text \<open>Activations depend on the modules only.\<close>

lemma body_edges:
  assumes "cfg_edge d' = cfg_edge d" "call_edge d' = call_edge d" "call_dest d' = call_dest d"
  shows "body d m f b us b' \<Longrightarrow> body d' m f b us b'" and "activation d m f us \<Longrightarrow> activation d' m f us"
  by (induction rule: body_activation.inducts) (auto simp: assms intro: body_activation.intros)

lemma activation_modules:
  assumes "modules d = modules d'"
  shows "activation d m i us \<longleftrightarrow> activation d' m i us"
proof -
  have at: "module_at d = module_at d'" by (rule ext) (simp add: module_at_def assms split: option.split)
  then have "function_at d = function_at d'" by (intro ext) (simp add: function_at_def split: option.split)
  with at have "cfg_edge d = cfg_edge d'" "call_edge d = call_edge d'" "call_dest d = call_dest d'"
    by (auto intro!: ext simp: cfg_edge_def call_edge_def call_dest_def)
  then show ?thesis using body_edges(2) [of d d'] body_edges(2) [of d' d] by metis
qed

lemma keeps_to_module:
  "keeps_to t ts \<longleftrightarrow> (\<exists>us vs fname i. ts = us @ vs \<and> (fname, i, ''Main'') \<in> set (t_fcts t) \<and>
    activation (one_module pid c2m m2c l2m m2l t) 0 i us)"
  unfolding keeps_to_def policy_of_def
  using activation_modules [of "one_module 0 0 0 0 0 t" "one_module pid c2m m2c l2m m2l t"] by simp

lemma serve_verdict:
  assumes ok: "loadable (sections t) empty_module" "self_contained t" and d: "d = one_module pid c2m m2c l2m m2l t"
    and wf: "wf_modules d" "relocs_ok d" and w: "smooth w" "client_to_monitor w = map encode_signal ts"
  shows "(\<exists>w'. monitor_serve opts g d w = Some (0, w')) \<longleftrightarrow> keeps_to t ts"
proof
  assume "\<exists>w'. monitor_serve opts g d w = Some (0, w')"
  then obtain w' nb uss vs where u: "length uss = Suc nb" "list_all (activated d) uss" "ts = concat uss @ vs"
    using monitor_serve_sound [OF wf smooth_alloc [OF w(1)] w(2)] by metis
  then obtain us uss' where us: "uss = us # uss'" by (cases uss) auto
  then obtain m i where mi: "entry_point d m i" "activation d m i us" using u(2) by (auto simp: activated_def)
  then obtain fname where "m = 0" "(fname, i, ''Main'') \<in> set (t_fcts t)"
    using one_module_entry [OF ok, of pid c2m m2c l2m m2l m i] unfolding d by blast
  then show "keeps_to t ts" using mi(2) u(3) us unfolding keeps_to_module [of t ts pid c2m m2c l2m m2l] d by auto
next
  assume "keeps_to t ts"
  then obtain us vs fname i where k: "ts = us @ vs" "(fname, i, ''Main'') \<in> set (t_fcts t)" "activation d 0 i us"
    unfolding keeps_to_module [of t ts pid c2m m2c l2m m2l] d by auto
  show "\<exists>w'. monitor_serve opts g d w = Some (0, w')"
    using serve_activation [OF ok d wf w(1) _ k(2,3), of vs] w(2) k(1) by blast
qed

section \<open>The process\<close>

text \<open>What \<open>main\<close> does with a self-contained module: it loads it and serves it.\<close>

lemma main_one_module:
  assumes ok: "loadable (sections t) empty_module" "self_contained t" and env: "launches sys opts" and w: "smooth w"
    and pipe: "loading_to_monitor w = packet_stream (begin_packet t # section_packets t @ end_packets t)"
  obtains d pid c2m m2c l2m m2l w1 where "d = one_module pid c2m m2c l2m m2l t" "wf_modules d" "relocs_ok d" "smooth w1"
    "same_client w w1"
    "\<forall>w'. (\<exists>acts. main opts g gp gdata exec_ok sys w = Some (Return 0, acts, w')) \<longleftrightarrow>
      monitor_serve (env_options sys opts) g d w1 = Some (0, w')"
proof -
  obtain c2m m2c l2m m2l where m: "main opts g gp gdata exec_ok sys w =
      monitor_process (env_options sys opts) g gp gdata sys (c2m, m2c, l2m, m2l) w"
    using main_launched [OF env] by (metis prod_cases4)
  let ?d = "one_module (fork sys) (fst c2m) (snd m2c) (fst l2m) (snd m2l) t"
  have "w_write w 0" using w by (simp add: smooth_def)
  with load_self_contained [OF ok smooth_alloc [OF w] _ launches_options(1) [OF env] pipe] obtain w1 where
    l: "monitor_load (env_options sys opts) g gp (fork sys) (fst c2m) (snd m2c) (fst l2m) (snd m2l) w = Some (0, ?d, w1)"
      "same_client w w1" "alloc_later (w_alloc w) (w_alloc w1)"
    by blast
  have d: "wf_modules ?d" "relocs_ok ?d" using monitor_load_ok [OF l(1)] by (auto simp: sound_load_def)
  have "(\<exists>acts. main opts g gp gdata exec_ok sys w = Some (Return 0, acts, w')) \<longleftrightarrow>
      monitor_serve (env_options sys opts) g ?d w1 = Some (0, w')" for w'
    unfolding m using l(1) env monitor_data_free_ok [OF d(1)]
    by (auto simp: monitor_process_def launches_def bind_eq_Some_conv split: if_splits)
  then show thesis by (intro that [OF refl d smooth_later [OF w l(2,3)] l(2)] allI)
qed

section \<open>The program and its monitor\<close>

text \<open>The constructor sends everything and learns that its module is number 0.\<close>

definition connected :: "system \<Rightarrow> loader \<Rightarrow> bool" where
  "connected csys l \<longleftrightarrow> init_fds csys (ld_client l) \<noteq> None \<and> ld_write l = (\<lambda>_. (True, True, True)) \<and>
     ld_to_monitor l = [] \<and> ld_from_monitor l = pipe_packets (le16 0)"

lemma connected_init:
  assumes "connected csys l"
  shows "\<exists>l'. init_cfi csys gm t l = Inr l' \<and>
    ld_to_monitor l' = packet_stream (begin_packet t # section_packets t @ end_packets t) \<and>
    sig_module (cs (ld_client l')) = 0 \<and> c_write (ld_client l') = c_write (ld_client l) \<and>
    to_monitor (ld_client l') = to_monitor (ld_client l)"
proof -
  obtain c where c: "init_fds csys (ld_client l) = Some c" using assms by (auto simp: connected_def)
  then have "c_write c = c_write (ld_client l)" "to_monitor c = to_monitor (ld_client l)"
    by (auto simp: init_fds_def bind_eq_Some_conv CFI_SET_FDS_def)
  then show ?thesis
    using init_cfi_sends [OF _ c, of 0 "[]" gm t] assms by (simp add: connected_def CFI_SET_MODULE_ID_def)
qed

lemma monitored_verdict:
  assumes "loadable (sections t) empty_module" "self_contained t" "launches sys opts" "smooth w" "connected csys l"
    "client_to_monitor w = map encode_signal ts"
  shows "\<exists>l'. init_cfi csys gm t l = Inr l' \<and>
    ((\<exists>acts w'. main opts g gp gdata exec_ok sys (w\<lparr>loading_to_monitor := ld_to_monitor l'\<rparr>) = Some (Return 0, acts, w')) \<longleftrightarrow>
      keeps_to t ts)"
proof -
  obtain l' where l': "init_cfi csys gm t l = Inr l'"
      "ld_to_monitor l' = packet_stream (begin_packet t # section_packets t @ end_packets t)"
    using connected_init [OF assms(5)] by blast
  let ?w = "w\<lparr>loading_to_monitor := ld_to_monitor l'\<rparr>"
  have "smooth ?w" "loading_to_monitor ?w = packet_stream (begin_packet t # section_packets t @ end_packets t)"
    using assms(4) l'(2) by (simp_all add: smooth_def)
  note launched = main_one_module [OF assms(1-3) this, of g gp gdata exec_ok]
  obtain d pid c2m m2c l2m m2l w1 where
    m: "d = one_module pid c2m m2c l2m m2l t" "wf_modules d" "relocs_ok d" "smooth w1" "same_client ?w w1"
      "\<forall>w'. (\<exists>acts. main opts g gp gdata exec_ok sys ?w = Some (Return 0, acts, w')) \<longleftrightarrow>
        monitor_serve (env_options sys opts) g d w1 = Some (0, w')"
    by (rule launched)
  have "client_to_monitor w1 = map encode_signal ts" using m(5) assms(6) by (simp add: same_client_def)
  note verdict = serve_verdict [OF assms(1,2) m(1-4) this, of "env_options sys opts" g]
  have "(\<exists>acts w'. main opts g gp gdata exec_ok sys ?w = Some (Return 0, acts, w')) \<longleftrightarrow>
      (\<exists>w'. monitor_serve (env_options sys opts) g d w1 = Some (0, w'))"
    using m(6) by (simp only: ex_comm [where P = "\<lambda>acts w'. main opts g gp gdata exec_ok sys ?w = Some (Return 0, acts, w')"])
  then show ?thesis using l'(1) unfolding verdict by (intro exI [of _ l']) simp
qed

lemma protected_run:
  assumes "compile ndebug order PDT opts Ms fs = Inr (Ms', fs')" "some_order order" "some_order pyorder"
    "fresh_project opts fs" "sound_program (ignored_names opts fs) Ms" "(\<Sum>M \<leftarrow> Ms. length (m_functions M)) < 2 ^ 32"
    "prelink pyorder (cfi_prefix opts) fs' = Some t" "loadable (sections t) empty_module" "self_contained t"
    "(bytes_of f, i, ''Main'') \<in> set (t_fcts t)" "runs (program_of Ms') f hs"
    "launches sys mopts" "smooth w" "monitor_to_client w = []" "client_to_monitor w = map (encode_signal \<circ> hook_signal 0) hs"
    "connected csys l" "c_write (ld_client l) = (\<lambda>_. True)" "to_monitor (ld_client l) = []"
  shows "\<exists>l' acts w' c'. init_cfi csys gm t l = Inr l' \<and>
    main mopts g gp gdata exec_ok sys (w\<lparr>loading_to_monitor := ld_to_monitor l'\<rparr>) = Some (Return 0, acts, w') \<and>
    do_hooks ga hs ((ld_client l')\<lparr>from_monitor := monitor_to_client w'\<rparr>) = Inr c' \<and> to_monitor c' = client_to_monitor w"
proof -
  obtain l' where l': "init_cfi csys gm t l = Inr l'"
      "ld_to_monitor l' = packet_stream (begin_packet t # section_packets t @ end_packets t)"
      "sig_module (cs (ld_client l')) = 0" "c_write (ld_client l') = (\<lambda>_. True)" "to_monitor (ld_client l') = []"
    using connected_init [OF assms(16)] assms(17,18) by metis
  let ?w = "w\<lparr>loading_to_monitor := ld_to_monitor l'\<rparr>"
  have "smooth ?w" "loading_to_monitor ?w = packet_stream (begin_packet t # section_packets t @ end_packets t)"
    using assms(13) l'(2) by (simp_all add: smooth_def)
  note launched = main_one_module [OF assms(8,9,12) this, of g gp gdata exec_ok]
  obtain d pid c2m m2c l2m m2l w1 where
    m: "d = one_module pid c2m m2c l2m m2l t" "wf_modules d" "relocs_ok d" "smooth w1" "same_client ?w w1"
      "\<forall>w'. (\<exists>acts. main mopts g gp gdata exec_ok sys ?w = Some (Return 0, acts, w')) \<longleftrightarrow>
        monitor_serve (env_options sys mopts) g d w1 = Some (0, w')"
    by (rule launched)
  have "module_at d (Some (unat (0 :: module_id))) = Some (loaded_module t)" by (simp add: m(1) module_at_def arr_get_def)
  from compiled_program_activation [OF assms(1-8) this assms(10,11)]
  have act: "activation d 0 i (map (hook_signal 0) hs)" .
  have "client_to_monitor w1 = map encode_signal (map (hook_signal 0) hs @ [])" "monitor_to_client w1 = []"
    using m(5) assms(14,15) by (simp_all add: same_client_def)
  with serve_activation [OF assms(8,9) m(1-4) _ assms(10) act, of "[]"] obtain w' where
    w': "monitor_serve (env_options sys mopts) g d w1 = Some (0, w')"
      "monitor_to_client w' = replicate (unat (OPTION_nb_preload_monitor_ok_answers (env_options sys mopts)) + length hs) [CFI_OK]"
    by auto
  then obtain acts where main: "main mopts g gp gdata exec_ok sys ?w = Some (Return 0, acts, w')" using m(6) by blast
  let ?c = "(ld_client l')\<lparr>from_monitor := monitor_to_client w'\<rparr>"
  have "c_write ?c = (\<lambda>_. True)" "from_monitor ?c =
      replicate (unat (OPTION_nb_preload_monitor_ok_answers (env_options sys mopts)) + length hs) [CFI_OK]"
    using l'(4) w'(2) by simp_all
  from do_hooks_lockstep [OF this, of ga hs] obtain c' where
    "do_hooks ga hs ?c = Inr c'" "to_monitor c' = map (encode_signal \<circ> hook_signal 0) hs"
    using l'(3,5) by auto
  then show ?thesis using l'(1) main assms(15) by (intro exI [of _ l'] exI [of _ acts] exI [of _ w'] exI [of _ c']) simp
qed

end
