(* ===== verification/Prelink_Text.thy ===== *)
theory Prelink_Text
  imports Prelink_Parse Single_Module
begin

text \<open>
  The C text \<open>prelink/picon-prelink\<close> prints: the packed sections as string literals, cut into lines of
  64 characters, and the wrappers that call the initialisers and finalisers of the module. A C
  compiler reads the literals back as the packed bytes.
\<close>

section \<open>Literals\<close>

definition hex_digit :: "nat \<Rightarrow> char" where
  "hex_digit n = (if n < 10 then char_of (48 + n) else char_of (87 + n))"

text \<open>\<open>%.2x\<close> behind a backslash and an \<open>x\<close>.\<close>

definition c_escape :: "byte \<Rightarrow> string" where
  "c_escape b = [CHR 0x5C, CHR ''x'', hex_digit (unat b div 16), hex_digit (unat b mod 16)]"

function chunks :: "nat \<Rightarrow> 'a list \<Rightarrow> 'a list list" where
  "chunks n s = (if n = 0 \<or> s = [] then [] else take n s # chunks n (drop n s))"
  by pat_completeness auto
termination
  by (relation "measure (\<lambda>(n, s). length s)") auto

declare chunks.simps [simp del]

definition quoted :: "string \<Rightarrow> string" where
  "quoted s = CHR 0x22 # s @ [CHR 0x22]"

fun join_lines :: "string list \<Rightarrow> string" where
  "join_lines [] = []"
| "join_lines [l] = l"
| "join_lines (l # ls) = l @ newline # join_lines ls"

definition literal_lines :: "byte list \<Rightarrow> string list" where
  "literal_lines bs = map quoted (chunks 64 (concat (map c_escape bs)))"

text \<open>The text of a packed section.\<close>

definition char_array_text :: "string \<Rightarrow> byte list \<Rightarrow> string" where
  "char_array_text name bs =
     join_lines ([''static const char '' @ name @ ''[] =''] @ literal_lines bs @ [[CHR '';'', newline]])"

text \<open>The sections of blocks are an array of lengths and literals.\<close>

definition data_text :: "byte list \<Rightarrow> string" where
  "data_text bs = ''{'' @ decimal (length bs) @ '', '' @ join_lines (literal_lines bs) @ ''},''"

definition gen_packed_bb_text :: "(function_id \<times> u32 \<times> (block_id \<times> block_id list) list) list \<Rightarrow> string" where
  "gen_packed_bb_text bb =
     join_lines ([''static const data_t _s_bb[] = {''] @ map (\<lambda>(f, n, d). data_text (gen_packed_bb f n d)) bb @ [''};'' @ [newline]])"

section \<open>The wrappers\<close>

text \<open>The functions with a flag, in the order the script iterates over its dictionary of names.\<close>

definition flagged :: "string \<Rightarrow> (string list \<Rightarrow> string list) \<Rightarrow> (string \<times> int \<times> string) list \<Rightarrow> string list" where
  "flagged flag norder fcts = norder (map fst (filter (\<lambda>(name, i, flags). flags = flag) fcts))"

definition wrapper_text :: "string \<Rightarrow> string list \<Rightarrow> string" where
  "wrapper_text wrapper names = join_lines
     (map (\<lambda>f. ''extern void '' @ f @ '' (void);'') names @
      [''void __attribute__((visibility('' @ quoted ''hidden'' @ ''))) '' @ wrapper @ ''(void) {''] @
      map (\<lambda>f. ''  (void)'' @ f @ ''();'') names @ [''}''])"

definition gen_init_wrapper :: "(string list \<Rightarrow> string list) \<Rightarrow> (string \<times> int \<times> string) list \<Rightarrow> string" where
  "gen_init_wrapper norder fcts = wrapper_text ''_init_wrapper'' (flagged ''Init'' norder fcts)"

definition gen_fini_wrapper :: "(string list \<Rightarrow> string list) \<Rightarrow> (string \<times> int \<times> string) list \<Rightarrow> string" where
  "gen_fini_wrapper norder fcts = wrapper_text ''_fini_wrapper'' (flagged ''Fini'' norder fcts)"

section \<open>How C reads literals\<close>

definition hex_value :: "char \<Rightarrow> nat option" where
  "hex_value c = (let n = of_char c in
     if 48 \<le> n \<and> n \<le> 57 then Some (n - 48) else if 97 \<le> n \<and> n \<le> 102 then Some (n - 87)
     else if 65 \<le> n \<and> n \<le> 70 then Some (n - 55) else None)"

definition is_hex :: "char \<Rightarrow> bool" where
  "is_hex c \<longleftrightarrow> hex_value c \<noteq> None"

definition hex_number :: "string \<Rightarrow> nat" where
  "hex_number s = foldl (\<lambda>a c. 16 * a + the (hex_value c)) 0 s"

text \<open>
  The characters of a literal up to its closing quote, and what follows. A hexadecimal escape takes
  every digit it can, and must fit a byte; of the escapes only these are read.
\<close>

function c_chars :: "string \<Rightarrow> (byte list \<times> string) option" where
  "c_chars s =
     (case s of [] \<Rightarrow> None
      | c # t \<Rightarrow>
        if c = CHR 0x22 then Some ([], t)
        else if c = CHR 0x5C then
          (let ds = takeWhile is_hex (tl t); n = hex_number ds
           in if t = [] \<or> hd t \<noteq> CHR ''x'' \<or> ds = [] \<or> 256 \<le> n then None
              else map_option (\<lambda>(bs, u). (of_nat n # bs, u)) (c_chars (dropWhile is_hex (tl t))))
        else map_option (\<lambda>(bs, u). (of_nat (of_char c) # bs, u)) (c_chars t))"
  by pat_completeness auto
termination
  by (relation "measure length") (auto simp: less_Suc_eq_le intro!: le_trans [OF length_dropWhile_le])

declare c_chars.simps [simp del]

lemma c_chars_shorter: "c_chars s = Some (bs, u) \<Longrightarrow> length u < length s"
proof (induction s arbitrary: bs rule: c_chars.induct)
  case (1 s)
  then obtain c t where s: "s = c # t" by (cases s) (auto simp: c_chars.simps)
  have "length (dropWhile is_hex (tl t)) \<le> length t"
    using length_dropWhile_le [of is_hex "tl t"] by simp
  then show ?case
    using 1(3) 1(1) [OF s] 1(2) [OF s] unfolding s c_chars.simps [of "c # t"]
    by (fastforce simp: Let_def split: if_splits)
qed

lemma dropWhile_shorter: "dropWhile P s = c # t \<Longrightarrow> length t < length s"
  using length_dropWhile_le [of P s] by simp

text \<open>Adjacent literals are one.\<close>

function c_literals :: "string \<Rightarrow> (byte list \<times> string) option" where
  "c_literals s =
     (case dropWhile is_space s of [] \<Rightarrow> Some ([], [])
      | c # t \<Rightarrow>
        if c \<noteq> CHR 0x22 then Some ([], c # t)
        else (case c_chars t of None \<Rightarrow> None
              | Some (bs, u) \<Rightarrow> map_option (\<lambda>(cs, r). (bs @ cs, r)) (c_literals u)))"
  by pat_completeness auto
termination
  by (relation "measure length") (auto dest!: c_chars_shorter dropWhile_shorter)

declare c_literals.simps [simp del]

text \<open>The array a declaration with a string as initialiser defines: its bytes and a terminator.\<close>

definition c_declared :: "string \<Rightarrow> byte list option" where
  "c_declared s =
     (let t = dropWhile is_space (tl (dropWhile (\<lambda>c. c \<noteq> CHR ''='') s))
      in if take 1 t \<noteq> [CHR 0x22] then None
         else (case c_literals t of Some (bs, r) \<Rightarrow> if take 1 r = '';'' then Some (c_array bs) else None
               | None \<Rightarrow> None))"

text \<open>An element of the array of blocks: the length and the data behind it.\<close>

definition c_data :: "string \<Rightarrow> (nat \<times> byte list) option" where
  "c_data s =
     (let t = tl s; u = dropWhile is_digit t
      in if take 1 s \<noteq> ''{'' \<or> take 1 u \<noteq> '','' then None
         else (case c_literals (tl u) of
             Some (bs, r) \<Rightarrow> if take 1 r = ''}'' then Some (strtol_digits t, c_array bs) else None
           | None \<Rightarrow> None))"

section \<open>What is printed is what is read\<close>

lemma hex_value_digit: "n < 16 \<Longrightarrow> hex_value (hex_digit n) = Some n"
  by (auto simp: hex_value_def hex_digit_def Let_def of_char_of take_bit_nat_eq_self)

lemma hex_number_byte: "hex_number [hex_digit (unat b div 16), hex_digit (unat b mod 16)] = unat (b :: byte)"
proof -
  have "unat b < 256" using unsigned_less [of b, where ?'a = nat] by simp
  then have "unat b div 16 < 16" by (simp add: less_mult_imp_div_less)
  then show ?thesis by (simp add: hex_number_def hex_value_digit)
qed

lemma c_chars_escape:
  assumes "u \<noteq> []" "\<not> is_hex (hd u)"
  shows "c_chars (c_escape b @ u) = map_option (\<lambda>(bs, r). (b # bs, r)) (c_chars u)"
proof -
  have b: "unat b < 256" using unsigned_less [of b, where ?'a = nat] by simp
  let ?ds = "[hex_digit (unat b div 16), hex_digit (unat b mod 16)]"
  have hex: "is_hex (hex_digit (unat b div 16))" "is_hex (hex_digit (unat b mod 16))"
    using b by (simp_all add: is_hex_def hex_value_digit less_mult_imp_div_less)
  have "takeWhile is_hex (?ds @ u) = ?ds" "dropWhile is_hex (?ds @ u) = u"
    using hex assms by (cases u; simp)+
  then show ?thesis
    using b hex_number_byte [of b] by (subst c_chars.simps) (simp add: c_escape_def)
qed

lemma c_chars_escapes: "c_chars (concat (map c_escape bs) @ CHR 0x22 # t) = Some (bs, t)"
proof (induction bs)
  case Nil
  then show ?case by (subst c_chars.simps) simp
next
  case (Cons b bs)
  let ?u = "concat (map c_escape bs) @ CHR 0x22 # t"
  have "\<not> is_hex (hd ?u)" by (cases bs) (simp_all add: c_escape_def is_hex_def hex_value_def Let_def)
  then show ?case using c_chars_escape [of ?u b] Cons by simp
qed

text \<open>A line of 64 characters holds 16 escapes: none is cut in two.\<close>

lemma take_escapes:
  "take (4 * n) (concat (map c_escape bs)) = concat (map c_escape (take n bs))"
  "drop (4 * n) (concat (map c_escape bs)) = concat (map c_escape (drop n bs))"
proof (induction n arbitrary: bs)
  case (Suc n)
  have four: "4 * Suc n = Suc (Suc (Suc (Suc (4 * n))))" by simp
  { case 1
    show ?case using Suc.IH(1) unfolding four by (cases bs) (simp_all add: c_escape_def) }
  { case 2
    show ?case using Suc.IH(2) unfolding four by (cases bs) (simp_all add: c_escape_def) }
qed simp_all

lemma literal_lines_chunks: "literal_lines bs = map (\<lambda>c. quoted (concat (map c_escape c))) (chunks 16 bs)"
proof -
  have "chunks 64 (concat (map c_escape bs)) = map (\<lambda>c. concat (map c_escape c)) (chunks 16 bs)"
  proof (induction "16 :: nat" bs rule: chunks.induct)
    case (1 bs)
    have "concat (map c_escape bs) = [] \<longleftrightarrow> bs = []" by (cases bs) (simp_all add: c_escape_def)
    then show ?case
      using 1 take_escapes [of 16 bs] by (simp add: chunks.simps [of 64] chunks.simps [of 16 bs])
  qed
  then show ?thesis by (simp add: literal_lines_def)
qed

lemma concat_chunks: "0 < n \<Longrightarrow> concat (chunks n s) = s"
proof (induction n s rule: chunks.induct)
  case (1 n s)
  then show ?case by (simp add: chunks.simps [of n s])
qed

lemma c_literals_quoted:
  "c_literals (quoted (concat (map c_escape bs)) @ t) = map_option (\<lambda>(cs, r). (bs @ cs, r)) (c_literals t)"
  using c_chars_escapes [of bs t] by (subst c_literals.simps) (simp add: quoted_def is_space_def)

lemma c_literals_space: "is_space c \<Longrightarrow> c_literals (c # t) = c_literals t"
  by (simp add: c_literals.simps [of "c # t"] c_literals.simps [of t])

lemma c_literals_lines:
  "c_literals (join_lines (map (\<lambda>c. quoted (concat (map c_escape c))) css) @ t) =
    map_option (\<lambda>(cs, r). (concat css @ cs, r)) (c_literals t)"
proof (induction css rule: induct_list012)
  case (3 c d css)
  then show ?case
    using c_literals_quoted [of c] by (simp add: c_literals_space option.map_comp comp_def split_beta)
qed (simp_all add: c_literals_quoted option.map_ident case_prod_unfold)

lemma c_literals_read: "c_literals (join_lines (literal_lines bs) @ t) = map_option (\<lambda>(cs, r). (bs @ cs, r)) (c_literals t)"
  using c_literals_lines [of "chunks 16 bs" t] by (simp add: literal_lines_chunks concat_chunks)

lemma c_literals_end: "c \<noteq> CHR 0x22 \<Longrightarrow> \<not> is_space c \<Longrightarrow> c_literals (c # t) = Some ([], c # t)"
  by (subst c_literals.simps) simp

lemma join_lines_snoc: "ls \<noteq> [] \<Longrightarrow> join_lines (ls @ [l]) = join_lines ls @ newline # l"
  by (induction ls rule: join_lines.induct) simp_all

lemma literal_lines_head:
  assumes "bs \<noteq> []"
  shows "literal_lines bs \<noteq> []" "\<exists>s. join_lines (literal_lines bs) = CHR 0x22 # s"
proof -
  have "chunks 16 bs = take 16 bs # chunks 16 (drop 16 bs)" using assms by (simp add: chunks.simps [of 16 bs])
  then have "literal_lines bs = quoted (concat (map c_escape (take 16 bs))) # map (\<lambda>c. quoted (concat (map c_escape c))) (chunks 16 (drop 16 bs))"
    by (simp add: literal_lines_chunks)
  then show "literal_lines bs \<noteq> []" "\<exists>s. join_lines (literal_lines bs) = CHR 0x22 # s"
    by (simp, cases "map (\<lambda>c. quoted (concat (map c_escape c))) (chunks 16 (drop 16 bs))") (simp_all add: quoted_def)
qed

lemma declared_array:
  assumes "bs \<noteq> []" "CHR ''='' \<notin> set name"
  shows "c_declared (char_array_text name bs) = Some (c_array bs)"
proof -
  let ?h = "''static const char '' @ name @ ''[] ''"
  let ?t = "join_lines (literal_lines bs) @ [newline, CHR '';'', newline]"
  have "char_array_text name bs = ?h @ CHR ''='' # newline # ?t"
    using literal_lines_head(1) [OF assms(1)] by (cases "literal_lines bs") (simp_all add: char_array_text_def join_lines_snoc [of "_ # _", simplified])
  moreover have "dropWhile (\<lambda>c. c \<noteq> CHR ''='') (?h @ CHR ''='' # newline # ?t) = CHR ''='' # newline # ?t"
    using assms(2) by (subst dropWhile_append2) auto
  moreover obtain s where s: "join_lines (literal_lines bs) = CHR 0x22 # s" using literal_lines_head(2) [OF assms(1)] by blast
  have "\<not> is_space CHR 0x22" "\<not> is_space CHR '';''" by (simp_all add: is_space_def)
  then have "dropWhile is_space (newline # ?t) = ?t" "take 1 ?t = [CHR 0x22]" by (simp_all add: s)
  moreover have "c_literals ?t = Some (bs, [CHR '';'', newline])"
    unfolding c_literals_read using c_literals_end [of "CHR '';''" "[newline]"] \<open>\<not> is_space CHR '';''\<close>
    by (simp add: c_literals_space)
  ultimately show ?thesis by (simp add: c_declared_def)
qed

lemma data_read: "c_data (data_text bs) = Some (length bs, c_array bs)"
proof -
  let ?t = "'', '' @ join_lines (literal_lines bs) @ ''},''"
  have d: "takeWhile is_digit (decimal n @ ?t) = decimal n" "dropWhile is_digit (decimal n @ ?t) = ?t" for n
    using decimal_is_digit [of _ n] by (simp_all add: takeWhile_append2 dropWhile_append2 is_digit_def)
  have "\<not> is_space CHR ''}''" by (simp add: is_space_def)
  then have "c_literals (tl ?t) = Some (bs, ''},'')"
    using c_literals_read [of bs "''},''"] c_literals_end [of "CHR ''}''" "'',''"] by (simp add: c_literals_space)
  then show ?thesis using d [of "length bs"] by (simp add: c_data_def data_text_def strtol_digits_def)
qed

section \<open>What the constructor sends\<close>

text \<open>The text of a section, and the bytes the constructor finds under the name it has there.\<close>

fun section_text :: "module_section \<Rightarrow> string" where
  "section_text (Fctids fcts) = char_array_text ''_s_fctids'' (gen_packed_fctids fcts)"
| "section_text (Calls cg) = char_array_text ''_s_callgraph'' (gen_packed_callgraph cg)"
| "section_text (Blocks f n d) = data_text (gen_packed_bb f n d)"
| "section_text (Ipds xs) = char_array_text ''_s_bb_ipd'' (gen_packed_bb_ipd xs)"

definition compiled_section :: "module_section \<Rightarrow> string \<Rightarrow> byte list option" where
  "compiled_section s txt =
     (case s of Blocks _ _ _ \<Rightarrow> map_option (\<lambda>(len, data). take len data) (c_data txt) | _ \<Rightarrow> c_declared txt)"

lemma packed_not_Nil:
  "gen_packed_fctids fcts \<noteq> []" "gen_packed_callgraph cg \<noteq> []" "gen_packed_bb_ipd xs \<noteq> []"
  by (simp_all add: gen_packed_fctids_def gen_packed_callgraph_def gen_packed_bb_ipd_def le32_def Let_def)

lemma compiled_section_text: "compiled_section s (section_text s) = Some (snd (section_packet s))"
  by (cases s) (simp_all add: compiled_section_def declared_array data_read packed_not_Nil c_array_def)

section \<open>How C reads a wrapper\<close>

text \<open>What a line has between a prefix and a suffix.\<close>

definition between :: "string \<Rightarrow> string \<Rightarrow> string \<Rightarrow> string option" where
  "between pre suf l =
     (if length pre + length suf \<le> length l \<and> take (length pre) l = pre \<and> drop (length l - length suf) l = suf
      then Some (drop (length pre) (take (length l - length suf) l)) else None)"

text \<open>
  A text of declarations, one definition of a hidden function without parameters, and the calls of its
  body, each of a declared function: the name of the function and the calls in their order.
\<close>

definition extern_line :: "string \<Rightarrow> string option" where
  "extern_line = between ''extern void '' '' (void);''"

definition head_line :: "string \<Rightarrow> string option" where
  "head_line = between (''void __attribute__((visibility('' @ quoted ''hidden'' @ ''))) '') ''(void) {''"

definition call_line :: "string \<Rightarrow> string option" where
  "call_line = between ''  (void)'' ''();''"

fun c_body :: "string list \<Rightarrow> string list option" where
  "c_body [] = None"
| "c_body (l # ls) =
     (if l = ''}'' then (if ls = [] then Some [] else None)
      else (case call_line l of None \<Rightarrow> None | Some f \<Rightarrow> map_option (Cons f) (c_body ls)))"

fun c_function :: "string list \<Rightarrow> string list \<Rightarrow> (string \<times> string list) option" where
  "c_function declared [] = None"
| "c_function declared (l # ls) =
     (case extern_line l of Some f \<Rightarrow> c_function (f # declared) ls
      | None \<Rightarrow>
        (case (head_line l, c_body ls) of
           (Some name, Some fs) \<Rightarrow> if set fs \<subseteq> set declared then Some (name, fs) else None
         | _ \<Rightarrow> None))"

definition c_wrapper :: "string \<Rightarrow> (string \<times> string list) option" where
  "c_wrapper txt = c_function [] (lines txt)"

lemma between_line [simp]: "between pre suf (pre @ x @ suf) = Some x"
  by (simp add: between_def)

lemma between_head: "take (length pre) l \<noteq> pre \<Longrightarrow> between pre suf l = None"
  by (simp add: between_def)

lemma c_body_calls: "c_body (map (\<lambda>f. ''  (void)'' @ f @ ''();'') fs @ [''}'']) = Some fs"
proof (induction fs)
  case (Cons f fs)
  have "call_line (''  (void)'' @ f @ ''();'') = Some f" unfolding call_line_def by (rule between_line)
  then show ?case using Cons by simp
qed simp

lemma c_function_text:
  "c_function declared (map (\<lambda>f. ''extern void '' @ f @ '' (void);'') ds @
     [''void __attribute__((visibility('' @ quoted ''hidden'' @ ''))) '' @ wrapper @ ''(void) {''] @
     map (\<lambda>f. ''  (void)'' @ f @ ''();'') fs @ [''}'']) =
   (if set fs \<subseteq> set ds \<union> set declared then Some (wrapper, fs) else None)"
proof (induction ds arbitrary: declared)
  case Nil
  let ?h = "''void __attribute__((visibility('' @ quoted ''hidden'' @ ''))) '' @ wrapper @ ''(void) {''"
  have "extern_line ?h = None" unfolding extern_line_def by (rule between_head) simp
  moreover have "head_line ?h = Some wrapper"
    using between_line [of "''void __attribute__((visibility('' @ quoted ''hidden'' @ ''))) ''" "''(void) {''" wrapper]
    by (simp add: head_line_def)
  ultimately show ?case using c_body_calls [of fs] by simp
next
  case (Cons d ds)
  have "extern_line (''extern void '' @ d @ '' (void);'') = Some d" unfolding extern_line_def by (rule between_line)
  then show ?case using Cons.IH [of "d # declared"] by simp
qed

lemma lines_join:
  assumes "ls \<noteq> []" "last ls \<noteq> []" "\<forall>l \<in> set ls. newline \<notin> set l"
  shows "lines (join_lines ls) = ls"
  using assms
proof (induction ls rule: join_lines.induct)
  case (2 l)
  then have l: "\<forall>c \<in> set l. c \<noteq> newline" "l \<noteq> []" by auto
  then have "takeWhile (\<lambda>c. c \<noteq> newline) l = l" "dropWhile (\<lambda>c. c \<noteq> newline) l = []"
    by (simp_all add: takeWhile_eq_all_conv)
  then show ?case using l(2) by (subst lines.simps) (simp only: join_lines.simps if_False list.sel lines_Nil)
next
  case (3 l l' ls)
  then show ?case using lines_line [of l "join_lines (l' # ls)"] by simp
qed simp

lemma wrapper_read:
  assumes "list_all is_word fs" "is_word wrapper"
  shows "c_wrapper (wrapper_text wrapper fs) = Some (wrapper, fs)"
proof -
  have "newline \<notin> set w" if "is_word w" for w using that by (auto simp: is_word_def list_all_iff)
  then have "newline \<notin> set wrapper" "\<forall>f \<in> set fs. newline \<notin> set f" using assms by (auto simp: list_all_iff)
  then have "lines (wrapper_text wrapper fs) = map (\<lambda>f. ''extern void '' @ f @ '' (void);'') fs @
     [''void __attribute__((visibility('' @ quoted ''hidden'' @ ''))) '' @ wrapper @ ''(void) {''] @
     map (\<lambda>f. ''  (void)'' @ f @ ''();'') fs @ [''}'']"
    unfolding wrapper_text_def by (intro lines_join) (auto simp: newline_def quoted_def)
  then show ?thesis by (simp only: c_wrapper_def c_function_text) simp
qed

lemma parsed_names:
  assumes "parse_fctids txt = Some fcts"
  shows "list_all is_word (map fst fcts)"
proof -
  have "list_all is_word (map fst r)" if "parse_fctid_lines ls xs = Some r" "list_all is_word (map fst xs)" for ls xs r
    using that
  proof (induction ls xs rule: parse_fctid_lines.induct)
    case (2 line ls fcts)
    then obtain name s_id flags i where l: "split_words line = [name, s_id, flags]" "py_int s_id = Some i"
        "parse_fctid_lines ls (AList.update name (i, flags) fcts) = Some r"
      by (auto simp: bind_eq_Some_conv split: list.splits)
    have "is_word name" using split_words_are_words [of name line] l(1) by simp
    then have "list_all is_word (map fst (AList.update name (i, flags) fcts))"
      using 2(3) by (auto simp: list_all_iff update_keys split: if_splits)
    then show ?case using 2(1) [OF l(1) refl refl refl l(2,3)] by blast
  qed simp
  from this [of "map rstrip (lines txt)" "[]"] show ?thesis using assms by (simp add: parse_fctids_def)
qed

lemma gen_wrappers_read:
  assumes "parse_fctids txt = Some fcts" "some_order norder"
  shows "c_wrapper (gen_init_wrapper norder fcts) = Some (''_init_wrapper'', flagged ''Init'' norder fcts)"
    "c_wrapper (gen_fini_wrapper norder fcts) = Some (''_fini_wrapper'', flagged ''Fini'' norder fcts)"
proof -
  have words: "list_all is_word (flagged flag norder fcts)" for flag
    using parsed_names [OF assms(1)] by (auto simp: flagged_def list_all_iff some_orderD(1) [OF assms(2)])
  show "c_wrapper (gen_init_wrapper norder fcts) = Some (''_init_wrapper'', flagged ''Init'' norder fcts)"
    "c_wrapper (gen_fini_wrapper norder fcts) = Some (''_fini_wrapper'', flagged ''Fini'' norder fcts)"
    unfolding gen_init_wrapper_def gen_fini_wrapper_def
    by (rule wrapper_read [OF words], simp add: is_word_def is_space_def)+
qed

text \<open>The functions of the wrappers are those the monitor expects runs of.\<close>

lemma packed_flags:
  "pack_all pack_function fcts = Some gs \<Longrightarrow> map (snd \<circ> snd) gs = map (snd \<circ> snd) fcts"
  by (induction fcts arbitrary: gs) (auto simp: pack_function_def bind_eq_Some_conv)

lemma flag_count:
  "length (filter (\<lambda>(x, i, flags). flags = flag) xs) = length (filter (\<lambda>f. f = flag) (map (snd \<circ> snd) xs))"
  by (simp add: filter_map comp_def case_prod_unfold)

lemma wrapper_counts:
  assumes "pack_all pack_function fcts = Some (t_fcts t)" "some_order norder"
  shows "nb_entrypoint_inits (loaded_module t) = of_nat (length (flagged ''Init'' norder fcts))"
    "nb_entrypoint_finis (loaded_module t) = of_nat (length (flagged ''Fini'' norder fcts))"
proof -
  have "length (flagged flag norder fcts) = length (filter (\<lambda>(name, i, flags). flags = flag) fcts)" for flag
    by (simp add: flagged_def some_orderD(3) [OF assms(2)])
  then show "nb_entrypoint_inits (loaded_module t) = of_nat (length (flagged ''Init'' norder fcts))"
    "nb_entrypoint_finis (loaded_module t) = of_nat (length (flagged ''Fini'' norder fcts))"
    unfolding loaded_entrypoints by (simp_all only: flag_count packed_flags [OF assms(1)])
qed

lemma wrapper_counts_nat:
  assumes "pack_all pack_function fcts = Some (t_fcts t)" "some_order norder" "length (t_fcts t) < 2 ^ 32"
  shows "unat (nb_entrypoint_inits (loaded_module t)) = length (flagged ''Init'' norder fcts)"
    "unat (nb_entrypoint_finis (loaded_module t)) = length (flagged ''Fini'' norder fcts)"
proof -
  have "length fcts = length (t_fcts t)" using arg_cong [OF packed_flags [OF assms(1)], of length] by simp
  moreover have "length (flagged flag norder fcts) \<le> length fcts" for flag
    by (simp add: flagged_def some_orderD(3) [OF assms(2)])
  ultimately have "length (flagged flag norder fcts) < 2 ^ 32" for flag using assms(3) le_less_trans by metis
  then show "unat (nb_entrypoint_inits (loaded_module t)) = length (flagged ''Init'' norder fcts)"
    "unat (nb_entrypoint_finis (loaded_module t)) = length (flagged ''Fini'' norder fcts)"
    unfolding wrapper_counts [OF assms(1,2)] by (simp_all add: unat_of_nat take_bit_nat_eq_self)
qed

lemma parse_fctids_distinct:
  assumes "parse_fctids txt = Some fcts"
  shows "distinct (map fst fcts)"
proof -
  have "distinct (map fst r)" if "parse_fctid_lines ls xs = Some r" "distinct (map fst xs)" for ls xs r
    using that
    by (induction ls xs rule: parse_fctid_lines.induct) (auto simp: bind_eq_Some_conv distinct_update split: list.splits)
  from this [of "map rstrip (lines txt)" "[]"] show ?thesis using assms by (simp add: parse_fctids_def)
qed

lemma flagged_calls:
  assumes "some_order norder" "distinct (map fst fcts)"
  shows "distinct (flagged flag norder fcts)" "set (flagged flag norder fcts) = {f. \<exists>i. (f, i, flag) \<in> set fcts}"
proof -
  show "distinct (flagged flag norder fcts)"
    using assms(2) by (simp add: flagged_def some_orderD(2) [OF assms(1)] distinct_map_filter)
  show "set (flagged flag norder fcts) = {f. \<exists>i. (f, i, flag) \<in> set fcts}"
    by (force simp: flagged_def some_orderD(1) [OF assms(1)])
qed

end
