(* ===== verification/Pass_Example.thy ===== *)
theory Pass_Example
  imports Protected_Run Prelink_Text Module_Example
begin

text \<open>
  A program of two units for the witnesses: the first defines \<open>main\<close>, with two blocks, which calls the
  function \<open>g\<close> of the second. They are compiled at the level of basic blocks, prelinked and loaded.
\<close>

section \<open>The units\<close>

definition exp_block :: "instr list \<Rightarrow> terminator \<Rightarrow> basic_block" where
  "exp_block Is T = \<lparr>bb_instrs = Is, bb_term = T\<rparr>"

definition exp_function :: "string \<Rightarrow> basic_block list \<Rightarrow> llvm_function" where
  "exp_function name bs = \<lparr>fn_name = name, fn_blocks = bs, fn_local = False, fn_hidden = False\<rparr>"

definition exp_unit :: "llvm_function list \<Rightarrow> llvm_module" where
  "exp_unit Fs = \<lparr>m_functions = Fs, m_globals = (\<lambda>_. None), is_intrinsic = (\<lambda>g. take 5 g = ''llvm.''),
     is_dbg = (\<lambda>g. take 9 g = ''llvm.dbg.'')\<rparr>"

definition exp_main :: llvm_module where
  "exp_main = exp_unit
     [exp_function ''main'' [exp_block [CallInst [] (Function ''g'') []] (Branch [1]), exp_block [] Ret], exp_function ''g'' []]"

definition exp_g :: llvm_module where
  "exp_g = exp_unit [exp_function ''g'' [exp_block [OtherInst] Ret]]"

definition exp_options :: pass_options where
  "exp_options = \<lparr>cfi_level = BASICBLOCK, cfi_prefix = ''p'', cfi_ignore = [], lock_fd = 3, lock_rc = 0\<rparr>"

definition exp_files :: file_system where
  "exp_files = \<lparr>contents = (\<lambda>_. None), writable = (\<lambda>_. True)\<rparr>"

lemmas exp_defs = exp_options_def exp_files_def exp_unit_def exp_function_def exp_block_def

section \<open>Their compilation\<close>

lemmas number_defs = ControlFlowIntegrity_def ParseAnnotations_def IdentifyFunctions_def identify_def IdentifyFunction_def
  isIgnoredFunction_def isInitFunction_def isFiniFunction_def isIgnoredBlocksFunction_def HasAlreadyBeenIdentified_id_def
  getIdentifier_def PatchCtorFunctions_def PatchDtorFunctions_def patch_global_def

lemmas write_defs = writeTransToFile_def writeCallgraph_def callees_of_function_def callees_of_block_def callees_of_instr_def
  function_of_name_def get_function_def iterate_def append_file_def write_file_def text_of_def writeFunctionIDs_def
  function_entry_def function_flags_def is_declaration_def already_added_def writeIPDOMToFile_def function_ipdom_text_def
  ipdom_line_def writeAllowedBBTrans_def function_blocks_text_def

lemmas inject_defs = InjectCode_def injectPrototype_def prototypes_def create_function_def new_declaration_def inject_function_def
  injectMcall_def needs_def mcall_block_def mcall_instr_def returned_hook_def injectBBEnter_def injectBBLeave_def
  insert_nonphi_def insert_last_def insert_first_def injectMentry_def injectMexit_def update_function_def with_blocks_of_def
  is_phi_or_dbg_def hook_call_def returnaddress_call_def

text \<open>A step of the pass is evaluated before the steps after it.\<close>

lemma and_then_weak: "r = r' \<Longrightarrow> and_then r f = and_then r' f"
  by simp

definition exp_declarations :: "llvm_function list" where
  "exp_declarations = map new_declaration (prototypes @ [''llvm.returnaddress''])"

definition exp_main_result :: llvm_module where
  "exp_main_result = exp_unit ([exp_function ''main''
     [exp_block
        [returnaddress_call ''saved_retaddr_prolog'', hook_call ''__CFI_INTERNAL_ENTER'' [Const_int 0, Value ''saved_retaddr_prolog''],
         hook_call ''__CFI_INTERNAL_CALL'' [Const_int 1], CallInst [] (Function ''g'') [],
         hook_call ''__CFI_INTERNAL_RETURNED'' [Const_int 1], hook_call ''__CFI_INTERNAL_BB_BEFORE_BR'' [Const_int 0, Const_int 0]]
        (Branch [1]),
      exp_block
        [hook_call ''__CFI_INTERNAL_BB_AFTER_BR'' [Const_int 0, Const_int 1],
         returnaddress_call ''saved_retaddr_epilog'', hook_call ''__CFI_INTERNAL_EXIT'' [Const_int 0, Value ''saved_retaddr_epilog'']]
        Ret], exp_function ''g'' []] @ exp_declarations)"

definition exp_g_result :: llvm_module where
  "exp_g_result = exp_unit ([exp_function ''g''
     [exp_block
        [returnaddress_call ''saved_retaddr_prolog'', hook_call ''__CFI_INTERNAL_ENTER'' [Const_int 1, Value ''saved_retaddr_prolog''],
         OtherInst,
         returnaddress_call ''saved_retaddr_epilog'', hook_call ''__CFI_INTERNAL_EXIT'' [Const_int 1, Value ''saved_retaddr_epilog'']]
        Ret]] @ exp_declarations)"

definition exp_files_main :: file_system where
  "exp_files_main = exp_files\<lparr>contents := (contents exp_files)
     (''p.trans'' \<mapsto> concat (map callgraph_line [(0, [1])]),
      ''p.bbtrans'' \<mapsto> blocks_text (0, 2, [(0, [1])]),
      ''p.fctid'' \<mapsto> concat (map entry_line [(''main'', 0, ''Main''), (''g'', 1, ''External'')]),
      ''p.ipdom'' \<mapsto> concat (map (\<lambda>r. ipd_text r @ [newline]) [(0, 0, 1, 1), (0, 1, 0, 1)]))\<rparr>"

definition exp_files_both :: file_system where
  "exp_files_both = exp_files\<lparr>contents := (contents exp_files)
     (''p.trans'' \<mapsto> concat (map callgraph_line [(0, [1])]),
      ''p.bbtrans'' \<mapsto> concat (map blocks_text [(0, 2, [(0, [1])]), (1, 1, [])]),
      ''p.fctid'' \<mapsto> concat (map entry_line [(''g'', 1, ''p.fctid''), (''main'', 0, ''Main'')]),
      ''p.ipdom'' \<mapsto> concat (map (\<lambda>r. ipd_text r @ [newline]) [(0, 0, 1, 1), (0, 1, 0, 1), (1, 0, 0, 0)]))\<rparr>"

lemma decimal_0: "decimal 0 = ''0''" "decimal_int 0 = ''0''"
proof -
  have "char_of (48 :: nat) = CHR ''0''" by code_simp
  then show "decimal 0 = ''0''" "decimal_int 0 = ''0''" by (simp_all add: decimal.simps decimal_int_def)
qed

lemma exp_run_main:
  "runOnModule ndebug (\<lambda>ks. ks) (\<lambda>_ _ _. None) exp_options exp_main exp_files = Inr (exp_main_result, exp_files_main)"
proof -
  have rows: "map_of_sets [(0, 1)] = [(0, [1])]" by (simp add: map_of_sets_def)
  have eq: "runOnModule ndebug (\<lambda>ks. ks) (\<lambda>_ _ _. None) exp_options exp_main exp_files =
      Inr (exp_main_result, exp_files_main\<lparr>contents := contents exp_files_main\<rparr>)"
    by (simp add: exp_main_def exp_main_result_def exp_declarations_def exp_files_main_def exp_defs runOnModule_def number_defs write_defs inject_defs BASICBLOCK_def
        rows bb_line_def bb_number_def callgraph_line_def blocks_text_def header_text_def ipd_text_def decimal_0 decimal_int_def [of 1]
        decimal_int_def [of 2] numeral_2_eq_2 Let_def
        cong: and_then_weak if_weak_cong option.case_cong_weak)
  then show ?thesis by simp
qed

text \<open>The second unit reads the numbers of the first.\<close>

lemma exp_run_g:
  "runOnModule ndebug (\<lambda>ks. ks) (\<lambda>_ _ _. None) exp_options exp_g exp_files_main = Inr (exp_g_result, exp_files_both)"
proof -
  let ?es = "[(''main'', 0, ''Main''), (''g'', 1, ''External'')] :: (string \<times> u32 \<times> string) list"
  have "list_all entry_ok ?es" by (simp add: entry_ok_def is_word_def is_space_def)
  from read_entries_lines [OF this] obtain st where rest: "read_entries (open_in (concat (map entry_line ?es))) = (?es, st)"
    by (metis prod.collapse)
  then have "peek_is_EOF st" using peek_failed read_entries_fails by (metis snd_conv)
  have rows: "map_of_sets [] = []" by (simp add: map_of_sets_def)
  show ?thesis
    using rest \<open>peek_is_EOF st\<close>
    by (simp add: exp_g_def exp_g_result_def exp_declarations_def exp_files_main_def exp_files_both_def exp_defs runOnModule_def
        number_defs write_defs inject_defs BASICBLOCK_def AddIdentifiedFunction_def
        rows bb_line_def bb_number_def callgraph_line_def blocks_text_def header_text_def ipd_text_def decimal_0 decimal_int_def [of 1]
        decimal_int_def [of 2] numeral_2_eq_2 Let_def
        cong: and_then_weak if_weak_cong option.case_cong_weak)
qed

lemma exp_compile:
  "compile ndebug (\<lambda>ks. ks) (\<lambda>_ _ _ _. None) exp_options [exp_main, exp_g] exp_files = Inr ([exp_main_result, exp_g_result], exp_files_both)"
  by (simp add: exp_run_main exp_run_g)

section \<open>The module\<close>

definition exp_tables :: tables where
  "exp_tables = \<lparr>t_fcts = [(bytes_of ''g'', 1, ''p.fctid''), (bytes_of ''main'', 0, ''Main'')], t_callgraph = [(0, [1])],
     t_bb = Some ([(0, 2, [(0, [1])]), (1, 1, [])], [(0, 0, 1, 1), (0, 1, 0, 1), (1, 0, 0, 0)])\<rparr>"

lemma exp_prelink: "prelink (\<lambda>ks. ks) ''p'' exp_files_both = Some exp_tables"
proof -
  let ?es = "[(''g'', 1, ''p.fctid''), (''main'', 0, ''Main'')] :: (string \<times> u32 \<times> string) list"
  have "list_all entry_ok ?es" "distinct (map fst ?es)" by (simp_all add: entry_ok_def is_word_def is_space_def)
  note fcts = parse_fctids_lines [OF this]
  note calls = parse_callgraph_rows [of "[(0, [1])]"]
  have bb: "parse_bb (concat (map blocks_text [(0, 2, [(0, [1])]), (1, 1, [])])) = Some [(0, 2, [(0, [1])]), (1, 1, [])]"
    by (rule parse_bb_text) simp_all
  note ipd = parse_bb_ipd_text [of "[(0, 0, 1, 1), (0, 1, 0, 1), (1, 0, 0, 0)]"]
  show ?thesis
    unfolding prelink_def exp_files_both_def using fcts calls bb ipd
    by (simp add: exp_tables_def exp_files_def iterate_def pack_function_def pack_graph_row_def pack_int_def pack_blocks_def pack_ipd_def_def)
qed

definition exp_data :: monitor_data where
  "exp_data = no_modules\<lparr>nb_modules := 1, modules := Some [loaded_module exp_tables]\<rparr>"

lemma exp_module_at: "module_at exp_data (Some (unat (0 :: module_id))) = Some (loaded_module exp_tables)"
  by (simp add: exp_data_def module_at_def)

lemma exp_loadable: "loadable (sections exp_tables) empty_module"
proof -
  have s: "sections exp_tables = [Fctids (t_fcts exp_tables), Calls [(0, [1])], Blocks 0 2 [(0, [1])], Blocks 1 1 [],
      Ipds [(0, 0, 1, 1), (0, 1, 0, 1), (1, 0, 0, 0)]]"
    by (simp add: sections_def exp_tables_def)
  have ids: "by_id (t_fcts exp_tables) =
      [(0, bytes_of ''main'', ''Main''), (1, bytes_of ''g'', ''p.fctid'')]"
    by (simp add: by_id_def exp_tables_def)
  have len: "length (t_fcts exp_tables) = 2" by (simp add: exp_tables_def)
  have two: "replicate 2 x = [x, x]" for x :: "byte list option" by (simp add: numeral_2_eq_2)
  have bytes: "bytes_of ''main'' = [109, 97, 105, 110]" "bytes_of ''g'' = [103]" by (simp_all add: bytes_of_def)
  show ?thesis
    unfolding s
    by (simp add: c_array_def gen_packed_fctids_def ids len bytes PIPE_BUF_def
        pack_fct_def gen_packed_callgraph_def pack_row_def gen_packed_bb_def gen_packed_bb_ipd_def
        pack_ipd_def graph_ok_def module_of_def function_of_def empty_function_def with_blocks_def
        ipd_ok_def wf_module_def wf_rows_def wf_function_def rows_of_def row_of_def numbered_def flag_to_int_def two)
qed

section \<open>The program\<close>

lemma exp_bodies:
  "body_of exp_main g = (if g = ''main'' then [exp_block [CallInst [] (Function ''g'') []] (Branch [1]), exp_block [] Ret] else [])"
  "body_of exp_g g = (if g = ''g'' then [exp_block [OtherInst] Ret] else [])"
  by (auto simp: body_of_def get_function_def exp_main_def exp_g_def exp_unit_def exp_function_def)

lemma exp_names: "unit_names exp_main {} = {''main'', ''g''}" "unit_names exp_g {} = {''g''}"
  by (auto simp: unit_names_def watched_def get_function_def exp_main_def exp_g_def exp_unit_def exp_function_def split: if_splits)

lemma exp_sound: "sound_program {} [exp_main, exp_g]"
proof -
  have units: "wf_unit exp_main" "wf_unit exp_g" "closed_unit exp_main" "closed_unit exp_g"
    by (auto simp: wf_unit_def closed_unit_def closed_blocks_def called_def is_word_def is_space_def
        exp_main_def exp_g_def exp_unit_def exp_function_def exp_block_def)
  have intr: "is_intrinsic M = (\<lambda>g. take 5 g = ''llvm.'')" "is_dbg M = (\<lambda>g. take 9 g = ''llvm.dbg.'')"
    if "M \<in> {exp_main, exp_g}" for M using that by (auto simp: exp_main_def exp_g_def exp_unit_def)
  have dbg: "take 5 g = ''llvm.''" if "take 9 g = ''llvm.dbg.''" for g
    using arg_cong [OF that, of "take 5"] by simp
  have calls: "called (body_of exp_main ''main'') = {''g''}" "called (body_of exp_g ''g'') = {}"
    by (auto simp: exp_bodies called_def exp_block_def)
  have "defined_names exp_main = [''main'']" "defined_names exp_g = [''g'']"
    by (simp_all add: defined_names_def exp_main_def exp_g_def exp_unit_def exp_function_def exp_block_def)
  then have "distinct (concat (map defined_names [exp_main, exp_g]))" by simp
  moreover have "\<forall>M \<in> set [exp_main, exp_g]. \<forall>g. (is_dbg M g \<longrightarrow> is_intrinsic M g) \<and> (is_intrinsic M g \<longrightarrow> g \<notin> set prototypes) \<and>
      (is_intrinsic M g \<or> g \<in> set prototypes \<or> g = ''llvm.returnaddress'' \<longrightarrow> body_of M g = [])"
  proof (intro ballI allI)
    fix M g
    assume M: "M \<in> set [exp_main, exp_g]"
    have "body_of M g = []" if "g \<noteq> ''main''" "g \<noteq> ''g''" using M that by (auto simp: exp_bodies)
    moreover have "g \<noteq> ''main''" "g \<noteq> ''g''" if "take 5 g = ''llvm.'' \<or> g \<in> set prototypes \<or> g = ''llvm.returnaddress''"
      using that by (auto simp: prototypes_def)
    moreover have "g \<notin> set prototypes" if "take 5 g = ''llvm.''" using that by (auto simp: prototypes_def)
    ultimately show "(is_dbg M g \<longrightarrow> is_intrinsic M g) \<and> (is_intrinsic M g \<longrightarrow> g \<notin> set prototypes) \<and>
      (is_intrinsic M g \<or> g \<in> set prototypes \<or> g = ''llvm.returnaddress'' \<longrightarrow> body_of M g = [])"
      using M intr [of M] dbg [of g] by auto
  qed
  moreover have "single_exit (body_of exp_main ''main'')" "single_exit (body_of exp_g ''g'')"
    by (simp_all add: exp_bodies single_exit_def exp_block_def)
  moreover have "watched exp_main {} ''g''" by (simp add: watched_def intr)
  ultimately show ?thesis
    unfolding sound_program_def using units calls intr by (simp add: exp_names exp_bodies prototypes_def)
qed

lemma exp_fresh: "fresh_project exp_options exp_files"
  by (auto simp: fresh_project_def exp_options_def exp_files_def is_word_def is_space_def table_files_def text_of_def)

lemma exp_ignored: "ignored_names exp_options exp_files = {}"
  by (simp add: ignored_names_def exp_options_def)

definition exp_hooks :: "hook list" where
  "exp_hooks = [Enter 0, Call 1, Enter 1, Leave 1, Returned 1, Before_br 0 0, After_br 0 1, Leave 0]"

lemma exp_program:
  "program_of [exp_main_result, exp_g_result] ''main'' = get_function exp_main_result ''main''"
  "program_of [exp_main_result, exp_g_result] ''g'' = get_function exp_g_result ''g''"
  "h \<noteq> ''main'' \<Longrightarrow> h \<noteq> ''g'' \<Longrightarrow> program_of [exp_main_result, exp_g_result] h = None"
  by (auto simp: body_of_def get_function_def exp_main_result_def exp_g_result_def exp_unit_def exp_function_def exp_block_def
      exp_declarations_def prototypes_def new_declaration_def)

lemma exp_runs: "runs (program_of [exp_main_result, exp_g_result]) ''main'' exp_hooks"
proof -
  define P where "P = program_of [exp_main_result, exp_g_result]"
  have P: "P h = None" if "h \<noteq> ''main''" "h \<noteq> ''g''" for h unfolding P_def by (rule exp_program(3) [OF that])
  obtain F G where FG: "P ''main'' = Some F" "P ''g'' = Some G"
      "fn_blocks F = fn_blocks (hd (m_functions exp_main_result))" "fn_blocks G = fn_blocks (hd (m_functions exp_g_result))"
  proof (rule that)
    show "P ''main'' = Some (hd (m_functions exp_main_result))" "P ''g'' = Some (hd (m_functions exp_g_result))"
      unfolding P_def exp_program(1,2) by (simp_all add: get_function_def exp_main_result_def exp_g_result_def exp_unit_def exp_function_def)
  qed (rule refl)+
  note code = exp_main_result_def exp_g_result_def exp_unit_def exp_function_def exp_block_def
  have g: "runs_upto 1 P ''g'' [Enter 1, Leave 1]"
  proof -
    have "exec (runs_upto 0 P) P (bb_instrs (fn_blocks G ! 0)) [Enter 1, Leave 1]"
      unfolding FG(4) by (simp add: code exec_returnaddress exec_hook_call P hook_of_def exec_Cons_iff [of _ _ OtherInst] silent_def)
    then have "run_blocks (runs_upto 0 P) P (fn_blocks G) 0 [Enter 1, Leave 1]"
      by (intro run_ret) (simp_all add: FG(4) code)
    then show ?thesis using FG(2) by simp
  qed
  have "exec (runs_upto 1 P) P [CallInst [] (Function ''g'') [], hook_call ''__CFI_INTERNAL_RETURNED'' [Const_int 1],
      hook_call ''__CFI_INTERNAL_BB_BEFORE_BR'' [Const_int 0, Const_int 0]] ([Enter 1, Leave 1] @ [Returned 1, Before_br 0 0])"
    using FG(2) g by (intro exec_call) (simp_all add: exec_hook_call P hook_of_def)
  then have 1: "exec (runs_upto 1 P) P (bb_instrs (fn_blocks F ! 0)) [Enter 0, Call 1, Enter 1, Leave 1, Returned 1, Before_br 0 0]"
    unfolding FG(3) by (simp add: code exec_returnaddress exec_hook_call P hook_of_def)
  have 2: "exec (runs_upto 1 P) P (bb_instrs (fn_blocks F ! 1)) [After_br 0 1, Leave 0]"
    unfolding FG(3) by (simp add: code exec_returnaddress exec_hook_call P hook_of_def)
  have "run_blocks (runs_upto 1 P) P (fn_blocks F) 1 [After_br 0 1, Leave 0]"
    using 2 by (intro run_ret) (simp_all add: FG(3) code)
  then have "run_blocks (runs_upto 1 P) P (fn_blocks F) 0 ([Enter 0, Call 1, Enter 1, Leave 1, Returned 1, Before_br 0 0] @ [After_br 0 1, Leave 0])"
    using 1 by (intro run_branch [where ss = "[1]" and s = 1]) (simp_all add: FG(3) code)
  then have "runs_upto (Suc 1) P ''main'' exp_hooks" using FG(1) by (simp add: exp_hooks_def)
  then show ?thesis unfolding runs_def P_def by blast
qed

section \<open>The process\<close>

lemma exp_self_contained: "self_contained exp_tables"
  by (simp add: self_contained_def exp_tables_def main_name_def bytes_of_def)

lemma exp_launches: "launches ex_launch ex_options"
  by (simp add: launches_def ex_launch_def)

definition exp_loader :: loader where
  "exp_loader = \<lparr>ld_client = ex_client, ld_to_monitor = [], ld_from_monitor = pipe_packets (le16 0),
     ld_write = (\<lambda>_. (True, True, True))\<rparr>"

lemma exp_connected: "connected ex_system exp_loader" "ld_client exp_loader = ex_client"
  by (simp_all add: connected_def exp_loader_def ex_init_fds)

lemma ex_client_fresh: "c_write ex_client = (\<lambda>_. True)" "to_monitor ex_client = []"
  by (simp_all add: ex_client_def)

lemma ex_world_smooth: "smooth (ex_world ts)" "monitor_to_client (ex_world ts) = []" "client_to_monitor (ex_world ts) = map encode_signal ts"
  by (auto simp: smooth_def ex_world_def)

section \<open>A module with an initialiser\<close>

definition exi_files :: file_system where
  "exi_files = \<lparr>contents = [''p.fctid'' \<mapsto> entry_line (''i'', 0, ''Init''), ''p.trans'' \<mapsto> []], writable = (\<lambda>_. True)\<rparr>"

lemma exi_parse: "parse_fctids (entry_line (''i'', 0, ''Init'')) = Some [(''i'', 0, ''Init'')]"
  using parse_fctids_lines [of "[(''i'', 0, ''Init'')]"] by (simp add: entry_ok_def is_word_def is_space_def)

definition exi_tables :: tables where
  "exi_tables = \<lparr>t_fcts = [(bytes_of ''i'', 0, ''Init'')], t_callgraph = [], t_bb = None\<rparr>"

lemma exi_prelink: "prelink (\<lambda>ks. ks) ''p'' exi_files = Some exi_tables"
  using exi_parse by (simp add: prelink_def exi_files_def exi_tables_def pack_function_def pack_int_def parse_callgraph_def iterate_def)

lemma exi_loadable: "loadable (sections exi_tables) empty_module"
proof -
  have "by_id (t_fcts exi_tables) = [(0, [105], ''Init'')]" by (simp add: by_id_def exi_tables_def bytes_of_def)
  then show ?thesis
    by (simp add: sections_def exi_tables_def c_array_def gen_packed_fctids_def PIPE_BUF_def pack_fct_def gen_packed_callgraph_def
        graph_ok_def module_of_def numbered_def)
qed

section \<open>A module that is about to be loaded\<close>

lemma exp_about_to_load: "about_to_load ex_system exp_loader no_modules (ex_world [])"
proof -
  have "pipe_packets (le16 0) = [le16 0]" by (rule pipe_packets_small) (simp_all add: le16_def PIPE_BUF_def)
  then show ?thesis
    by (simp add: about_to_load_def exp_loader_def ex_init_fds no_modules_def wf_modules_def module_list_def ex_world_def)
qed

text \<open>Its one function has a name of 5000 characters.\<close>

definition exl_tables :: tables where
  "exl_tables = \<lparr>t_fcts = [(replicate 5000 97, 0, ''Main'')], t_callgraph = [], t_bb = None\<rparr>"

lemma exl_large: "length (snd (section_packet (Fctids (t_fcts exl_tables)))) = 5014"
  by (simp add: exl_tables_def c_array_def gen_packed_fctids_def by_id_def pack_fct_def le32_def)

section \<open>A damaged table of numbers\<close>

text \<open>The entry behind the damage is lost.\<close>

definition exd_junk :: string where
  "exd_junk = ''g one p'' @ [newline] @ ''h 2 p'' @ [newline]"

definition exd_files :: file_system where
  "exd_files = \<lparr>contents = [''p.fctid'' \<mapsto> entry_line (''main'', 0, ''Main'') @ exd_junk], writable = (\<lambda>_. True)\<rparr>"

definition exd_cfi :: control_flow_integrity where
  "exd_cfi = \<lparr>FunctionMap = [], IdentifiedFunctions = Map.empty, IgnoredFunctions = {}, InitFunctions = {},
     FiniFunctions = {}, IgnoredBlocksFunctions = {}, fun_id_file = ''p.fctid'', transTableFile = ''p.trans'',
     transTableBBFile = ''p.bbtrans'', ipdom_file = ''p.ipdom'', fun_id_ctr = 0\<rparr>"

lemma exd_read: "fst (read_entries (open_in exd_junk)) = []"
  by (subst read_entries.simps)
    (simp add: get_word_def get_u32_def sentry_def good_def open_in_def exd_junk_def newline_def is_space_def is_digit_def Let_def)

lemma exd_table: "table_of [''main''] [(''main'', 0, ''Main'')]" "list_all entry_ok [(''main'', 0, ''Main'')]"
  by (simp_all add: table_of_def entry_numbers_def numbers_def entry_ok_def is_word_def is_space_def fun_eq_iff)

lemma exp_size: "length (m_functions exp_main) < 4294967295"
  by (simp add: exp_main_def exp_unit_def)

lemma exp_wf_main: "wf_unit exp_main"
  by (auto simp: wf_unit_def is_word_def is_space_def exp_main_def exp_unit_def exp_function_def)

end
