(* ===== verification/Messages.thy ===== *)
theory Messages
  imports Module_Init
begin

text \<open>
  The messages of the loading protocol as \<open>include/picon/shared.h\<close> declares them: packed structures
  whose last member is an array of variable length. The bytes the prelink script packs and the
  monitor's loaders index are the layout of these structures.
\<close>

section \<open>Structures\<close>

text \<open>A member of the header is named as there, behind \<open>m_\<close> and what tells equal names apart.\<close>

record msg_begin_t =
  m_begin_num_fcts :: u32

record msg_fct_t =
  m_f_id :: function_id
  m_f_flags :: u32
  m_f_name :: "byte list"

record msg_fct_l =
  m_num_fcts :: u32
  m_fcts :: "msg_fct_t list"

record msg_fct_trans_t =
  m_trans_f_id :: function_id
  m_f_num_calls :: u32
  m_f_calls :: "function_id list"

record msg_fct_trans_l =
  m_num_fct_trans :: u32
  m_fct_trans :: "msg_fct_trans_t list"

record msg_block_trans_t =
  m_b_id :: block_id
  m_b_num_succ :: u32
  m_b_succ :: "block_id list"

record msg_block_trans_l =
  m_block_f_id :: function_id
  m_num_block :: u32
  m_num_block_trans :: u32
  m_block_trans :: "msg_block_trans_t list"

record msg_block_ipd_t =
  m_ipd_f_id :: function_id
  m_ipd_b_id :: block_id
  m_b_ipd_id :: block_id
  m_b_last_id :: block_id

record msg_block_ipd_l =
  m_num_ipd :: u32
  m_block_ipd :: "msg_block_ipd_t list"

datatype loading_packet_value =
  Msg_begin msg_begin_t | Msg_fct msg_fct_l | Msg_fct_trans msg_fct_trans_l
| Msg_block_trans msg_block_trans_l | Msg_block_ipd msg_block_ipd_l

section \<open>Layout\<close>

text \<open>Packed members, one after the other; an enumeration has 32 bits, a name its zero byte.\<close>

definition layout_fct :: "msg_fct_t \<Rightarrow> byte list" where
  "layout_fct m = le32 (m_f_id m) @ le32 (m_f_flags m) @ m_f_name m @ [0]"

definition layout_fct_trans :: "msg_fct_trans_t \<Rightarrow> byte list" where
  "layout_fct_trans m = le32 (m_trans_f_id m) @ le32 (m_f_num_calls m) @ concat (map le32 (m_f_calls m))"

definition layout_block_trans :: "msg_block_trans_t \<Rightarrow> byte list" where
  "layout_block_trans m = le32 (m_b_id m) @ le32 (m_b_num_succ m) @ concat (map le32 (m_b_succ m))"

definition layout_block_ipd :: "msg_block_ipd_t \<Rightarrow> byte list" where
  "layout_block_ipd m = le32 (m_ipd_f_id m) @ le32 (m_ipd_b_id m) @ le32 (m_b_ipd_id m) @ le32 (m_b_last_id m)"

fun layout :: "loading_packet_value \<Rightarrow> byte list" where
  "layout (Msg_begin m) = le32 (m_begin_num_fcts m)"
| "layout (Msg_fct m) = le32 (m_num_fcts m) @ concat (map layout_fct (m_fcts m))"
| "layout (Msg_fct_trans m) = le32 (m_num_fct_trans m) @ concat (map layout_fct_trans (m_fct_trans m))"
| "layout (Msg_block_trans m) = le32 (m_block_f_id m) @ le32 (m_num_block m) @ le32 (m_num_block_trans m) @
     concat (map layout_block_trans (m_block_trans m))"
| "layout (Msg_block_ipd m) = le32 (m_num_ipd m) @ concat (map layout_block_ipd (m_block_ipd m))"

text \<open>The member of the union an event selects.\<close>

fun message_event :: "loading_packet_value \<Rightarrow> loading_event" where
  "message_event (Msg_begin _) = CFI_LOADING_MODULE_BEGIN"
| "message_event (Msg_fct _) = CFI_LOADING_SECTION_FUNCTION_ID"
| "message_event (Msg_fct_trans _) = CFI_LOADING_SECTION_FUNCTION_TRANSITION"
| "message_event (Msg_block_trans _) = CFI_LOADING_SECTION_BLOCK_TRANSITION"
| "message_event (Msg_block_ipd _) = CFI_LOADING_SECTION_BLOCK_IPD"

section \<open>The messages of a module\<close>

definition begin_message :: "tables \<Rightarrow> loading_packet_value" where
  "begin_message t = Msg_begin \<lparr>m_begin_num_fcts = of_nat (length (t_fcts t))\<rparr>"

fun section_message :: "module_section \<Rightarrow> loading_packet_value" where
  "section_message (Fctids fcts) = Msg_fct \<lparr>m_num_fcts = of_nat (length fcts),
     m_fcts = map (\<lambda>(i, fname, flags). \<lparr>m_f_id = i, m_f_flags = flag_to_int flags, m_f_name = fname\<rparr>) (by_id fcts)\<rparr>"
| "section_message (Calls cg) = Msg_fct_trans \<lparr>m_num_fct_trans = of_nat (length cg),
     m_fct_trans = map (\<lambda>(i, cs). \<lparr>m_trans_f_id = i, m_f_num_calls = of_nat (length cs), m_f_calls = cs\<rparr>) cg\<rparr>"
| "section_message (Blocks f n d) = Msg_block_trans \<lparr>m_block_f_id = f, m_num_block = n, m_num_block_trans = of_nat (length d),
     m_block_trans = map (\<lambda>(b, ss). \<lparr>m_b_id = b, m_b_num_succ = of_nat (length ss), m_b_succ = ss\<rparr>) d\<rparr>"
| "section_message (Ipds xs) = Msg_block_ipd \<lparr>m_num_ipd = of_nat (length xs),
     m_block_ipd = map (\<lambda>(f, b, p, l). \<lparr>m_ipd_f_id = f, m_ipd_b_id = b, m_b_ipd_id = p, m_b_last_id = l\<rparr>) xs\<rparr>"

text \<open>Sections that are arrays of characters end with the terminator of their literal.\<close>

fun trailer :: "loading_packet_value \<Rightarrow> byte list" where
  "trailer (Msg_block_trans _) = []"
| "trailer _ = [0]"

definition message_packet :: "loading_packet_value \<Rightarrow> packet" where
  "message_packet m = (message_event m, layout m @ trailer m)"

lemma section_packet_message: "section_packet s = message_packet (section_message s)"
proof (cases s)
  case (Fctids fcts)
  have "layout_fct \<circ> (\<lambda>(i, fname, flags). \<lparr>m_f_id = i, m_f_flags = flag_to_int flags, m_f_name = fname\<rparr>) = pack_fct"
    by (auto simp: layout_fct_def pack_fct_def)
  then show ?thesis
    by (simp add: Fctids message_packet_def c_array_def gen_packed_fctids_def Let_def)
next
  case (Calls cg)
  have "layout_fct_trans \<circ> (\<lambda>(i, cs). \<lparr>m_trans_f_id = i, m_f_num_calls = of_nat (length cs), m_f_calls = cs\<rparr>) = pack_row"
    by (auto simp: layout_fct_trans_def pack_row_def pack32s_def)
  then show ?thesis by (simp add: Calls message_packet_def c_array_def gen_packed_callgraph_def)
next
  case (Blocks f n d)
  have "layout_block_trans \<circ> (\<lambda>(b, ss). \<lparr>m_b_id = b, m_b_num_succ = of_nat (length ss), m_b_succ = ss\<rparr>) = pack_row"
    by (auto simp: layout_block_trans_def pack_row_def pack32s_def)
  then show ?thesis by (simp add: Blocks message_packet_def gen_packed_bb_def)
next
  case (Ipds xs)
  have "layout_block_ipd \<circ> (\<lambda>(f, b, p, l). \<lparr>m_ipd_f_id = f, m_ipd_b_id = b, m_b_ipd_id = p, m_b_last_id = l\<rparr>) = pack_ipd"
    by (auto simp: layout_block_ipd_def pack_ipd_def)
  then show ?thesis by (simp add: Ipds message_packet_def c_array_def gen_packed_bb_ipd_def)
qed

lemma begin_packet_message: "begin_packet t = message_packet (begin_message t)"
  by (simp add: begin_packet_def begin_message_def message_packet_def c_array_def gen_packed_cfi_def)

lemma module_messages:
  "begin_packet t # section_packets t = map message_packet (begin_message t # map section_message (sections t))"
  by (simp add: begin_packet_message section_packets_sections section_packet_message)

end
