(* ===== verification/Spec2Isabelle.thy ===== *)
theory Spec2Isabelle
  imports Module_Example Two_Modules Pass_Example Messages
begin

text \<open>
  Picon protects a program against changes of its control flow. A compiler pass rewrites each
  module of the program so that it announces its calls, returns and jumps; a script packs the
  graphs the pass extracted into the program; at run time the program is a child of a monitor
  process that receives the graphs when the modules are loaded, and then checks every
  announcement against them before it lets the program go on.

  \<^bold>\<open>Parts of the program and theories.\<close>

  \<^item> \<open>include/picon/shared.h\<close>, the protocol on the four pipes: \<open>Shared_Protocol\<close> (identifiers,
    signals, answers, loading packets, the \<open>READ_\<close> and \<open>WRITE_\<close> macros over packet-mode pipes),
    on the machine integers and little-endian codecs of \<open>Picon_Prelude\<close>; \<open>Messages\<close> (the packed
    structures of the loading messages).
  \<^item> \<open>monitor/src/block_stack.c\<close>, \<open>call_stack.c\<close> and their headers: \<open>C_Memory\<close> (heap blocks,
    pointers, the allocator), \<open>Grow_Stack\<close> (the growing stack both files instantiate, as a
    locale with the laws of push and pop) and \<open>Monitor_Stacks\<close> (the two instances).
  \<^item> \<open>monitor/include/monitor_load.h\<close>, \<open>defs.h\<close>: \<open>Monitor_Data\<close> (tables, options, timeout).
  \<^item> \<open>monitor/src/monitor_run.c\<close>: \<open>Monitor_Run\<close>, one definition per \<open>case\<close> of the switch, the
    loop, its exit label and the whole function.
  \<^item> \<open>monitor/src/monitor_load.c\<close>: \<open>Monitor_Load\<close> (the four section loaders) and
    \<open>Monitor_Modules\<close> (packets, relocation, \<open>monitor_load\<close>, \<open>monitor_data_free\<close>);
    \<open>monitor_dot.c\<close>: \<open>Monitor_Dot\<close>; \<open>monitor/src/main.c\<close>: \<open>Monitor_Main\<close>.
  \<^item> \<open>include/picon/injected_code.c\<close>: \<open>Client\<close>, the hooks of the program and their wait for
    the answer.
  \<^item> \<open>prelink/picon-prelink\<close>: \<open>Prelink_Parse\<close> (the readers of the compiler's tables and the main
    program), \<open>Prelink\<close> (packed sections), \<open>Prelink_Text\<close> (the sections as C literals and the wrappers
    that call initialisers and finalisers, with readers of that C text) and \<open>Module_Init\<close> (the constructor that sends them).
  \<^item> \<open>llvm_pass/CFI\<close>: \<open>Llvm_Ir\<close> (what the pass sees of a unit: functions, blocks, instructions,
    constants, and how a compilation ends), \<open>Cfi_Pass\<close> (\<open>CFI.cpp\<close>: numbers of functions, the four
    tables, annotations, constructors and destructors) and \<open>Cfi_Injector\<close> (\<open>CFIInjector.cpp\<close>, which
    puts the hooks into the code, and \<open>runOnModule\<close> of \<open>CFIModulePass.cpp\<close>). \<open>Text_Io\<close> has the
    decimal numbers, words and lines that the pass, the script and the environment exchange, \<open>strtol\<close>,
    and the C++ input stream with its text, \<open>eofbit\<close> and \<open>failbit\<close>.

  \<^bold>\<open>Abstract specifications.\<close> \<open>Cfi_Spec\<close> is the policy as a pushdown system over (module,
  function, block) positions read off the tables; \<open>Cfi_Grammar\<close> shows that its complete paths
  are exactly the well-nested activations of an entry point. \<open>Cfi_Refinement\<close> relates the
  monitor's state to configurations of that system, \<open>Cfi_Run\<close> lifts the relation to whole
  runs, \<open>Cfi_Safety\<close> shows that runs are defined and end. \<open>Load_Tables\<close>, \<open>Relocation\<close> and
  \<open>Load_Result\<close> show what loading leaves behind: arrays as long as their counters, externals
  linked by the search order, tables that can be released. \<open>Module_Init\<close> joins both ends of the loading
  pipe: what the constructor writes (\<open>init_cfi\<close>) is run through \<open>monitor_load_module\<close>. \<open>Cfi_Example\<close>,
  \<open>Module_Example\<close> and \<open>Two_Modules\<close> hold the concrete modules, runs and processes the witnesses use.

  \<^bold>\<open>From the source to the policy.\<close> \<open>Pass_Numbers\<close> shows that a unit extends the table of numbers
  by its own names and keeps the others; \<open>Pass_Graphs\<close> that the tables of calls and jumps, written
  as text and read back, are those of the code. \<open>Injection\<close> computes the code of an instrumented
  function; \<open>Instrumented_Run\<close> gives the runs of instrumented code as sequences of hooks and shows
  that a run of one function, whose callees activate, is an activation. \<open>Pass_Unit\<close> composes these
  for \<open>runOnModule\<close>, \<open>Pass_Project\<close> for the units of a program compiled one after the other, and
  \<open>Pass_Program\<close> with the prelink script and the loaded tables; \<open>Pass_Example\<close> is a program of
  two units on which all of it is evaluated. \<open>Single_Module\<close> and \<open>Protected_Run\<close> put everything
  around one program: its constructor, the monitor process with its verdict, the hooks and their answers.

  \<^bold>\<open>Conventions and bounds.\<close> In the monitor \<open>None\<close> is undefined behaviour, an error code is a value;
  in the script \<open>None\<close> is an exception; a compilation ends with a result or with \<open>stop\<close>. The
  allocator is a stream of answers (in place, moved, refused), so that a theorem holds for
  every allocator its hypotheses admit; \<open>write\<close> is a stream of booleans; memory that the C code
  leaves uninitialised is a parameter (\<open>g\<close>, \<open>gp\<close>, \<open>gdata\<close>). The order in which hash tables are iterated
  (\<open>order\<close>, \<open>pyorder\<close>), whether assertions are compiled (\<open>ndebug\<close>) and LLVM's tree of post-dominators
  (\<open>PDT\<close>) are parameters; theorems hold for every permutation as order and for every tree. Loops end by
  measures on the pipes and texts they consume, no fuel is used. The call stack grows by 512
  elements, the block stack by 4096, and a packet holds 4096 bytes, as in the source; module numbers are 16-bit and the other numbers 32-bit
  words, and where a theorem needs a count not to wrap it says so (\<open>nb_modules\<close> at most \<open>2 ^ 16\<close>, the
  functions of a program fewer than \<open>2 ^ 32\<close>).

  \<^bold>\<open>Not modelled.\<close> Logging (\<open>log.h\<close>, \<open>Debug.hh\<close>, output only) and the text of diagnostics;
  \<open>DebugPrintRT\<close>, which nothing calls; the registration of the pass with LLVM; the fixed C text of the
  script's templates, of which \<open>Module_Init\<close> has the behaviour; dead code under \<open>#if 0\<close>; the example
  programs.
\<close>

section \<open>Runs\<close>

text \<open>C1: what the monitor lets through was allowed. When \<open>monitor_run\<close> returns 0 on well-formed
  tables, whatever the allocator answers short of refusing memory, the signals it consumed are one
  complete activation of an entry point: jumps along the control-flow graphs, calls along the call
  graph and matching returns, and it answered each of them with exactly one \<open>CFI_OK\<close>.\<close>

theorem run_accepts_only_activations:
  assumes "wf_modules data" "relocs_ok data" "Alloc_Fail \<notin> range (w_alloc w)"
    "client_to_monitor w = map encode_signal ts" "monitor_run opts g data w = Some (0, w')"
  shows "\<exists>us vs m f. ts = us @ vs \<and> entry_point data m f \<and> activation data m f us \<and>
    client_to_monitor w' = map encode_signal vs \<and>
    monitor_to_client w' = monitor_to_client w @ replicate (length us) [CFI_OK]"
  using assms by (rule monitor_run_sound)

text \<open>C2: what is allowed is let through. A complete activation of an entry point is accepted and
  each of its signals answered, when answers can be written and either arrays grow in place or
  tracing is off and no more than 512 callers are ever active.\<close>

theorem run_accepts_activations:
  assumes "wf_modules data" "relocs_ok data" "Alloc_Fail \<notin> range (w_alloc w)"
    "client_to_monitor w = map encode_signal (us @ vs)" "entry_point data m f" "activation data m f us"
    "depth_fits opts w (call_depth 0 us)" "responsive opts w"
  shows "\<exists>w'. monitor_run opts g data w = Some (0, w') \<and> client_to_monitor w' = map encode_signal vs \<and>
    monitor_to_client w' = monitor_to_client w @ replicate (length us) [CFI_OK]"
  using assms by (rule monitor_run_complete)

theorem run_accepts_activations_witness:
  "\<exists>w'. monitor_run ex_options (ex_signal CFI_CALL 9 9 9) ex_data (ex_world ex_trace) = Some (0, w') \<and>
     client_to_monitor w' = [] \<and> monitor_to_client w' = replicate (length ex_trace) [CFI_OK]"
  using run_accepts_activations [of ex_data "ex_world ex_trace" ex_trace "[]" 0 0 ex_options]
    ex_entry ex_activation by simp

lemma ex_run_accepted: "\<exists>w'. monitor_run ex_options g ex_data (ex_world ex_trace) = Some (0, w')"
  using monitor_run_complete [of ex_data "ex_world ex_trace" ex_trace "[]" 0 0 ex_options g]
    ex_entry ex_activation by auto

theorem run_accepts_only_activations_witness:
  "\<exists>us vs m f. ex_trace = us @ vs \<and> entry_point ex_data m f \<and> activation ex_data m f us"
  using ex_run_accepted [of "ex_signal CFI_CALL 9 9 9"]
    run_accepts_only_activations [of ex_data "ex_world ex_trace" ex_trace ex_options "ex_signal CFI_CALL 9 9 9"]
  by fastforce

text \<open>C5: the monitor decides the policy. On tables in which every graph row is present and with an
  allocator that grows arrays in place, \<open>monitor_run\<close> has no undefined behaviour on any
  stream of signals, always returns, and returns 0 exactly when the stream starts with a complete
  activation of an entry point.\<close>

theorem run_decides_policy:
  assumes "wf_modules data" "relocs_ok data" "graphs_present data"
    "range (w_alloc w) \<subseteq> {Alloc_InPlace}" "responsive opts w" "client_to_monitor w = map encode_signal ts"
  shows "\<exists>e w'. monitor_run opts g data w = Some (e, w') \<and>
    (e = 0 \<longleftrightarrow> (\<exists>us vs m f. ts = us @ vs \<and> entry_point data m f \<and> activation data m f us))"
proof -
  have al: "Alloc_Fail \<notin> range (w_alloc w)" using assms(4) by auto
  obtain e w' where run: "monitor_run opts g data w = Some (e, w')"
    using monitor_run_total [OF assms] by blast
  have "e = 0" if "ts = us @ vs" "entry_point data m f" "activation data m f us" for us vs m f
    using monitor_run_complete [OF assms(1,2) al _ that(2,3) _ assms(5), of vs g] assms(4,6) that(1) run
    by (simp add: depth_fits_def)
  moreover have "\<exists>us vs m f. ts = us @ vs \<and> entry_point data m f \<and> activation data m f us" if "e = 0"
    using monitor_run_sound [OF assms(1,2) al assms(6), of opts g] run that by blast
  ultimately show ?thesis using run by blast
qed

theorem run_decides_policy_witness:
  "\<exists>e w'. monitor_run ex_options (ex_signal CFI_CALL 9 9 9) ex_data (ex_world [ex_signal CFI_EXIT 0 0 0]) = Some (e, w')"
  using run_decides_policy [of ex_data "ex_world [ex_signal CFI_EXIT 0 0 0]" ex_options "[ex_signal CFI_EXIT 0 0 0]"]
  by fastforce

section \<open>Signals one by one\<close>

text \<open>C14: one turn of the loop is one step of the policy. When a signal is let through by the switch,
  from a state that represents a configuration of the pushdown system, the system has that step
  and the new state represents its target; conversely every step of the system is let through.\<close>

theorem signal_is_policy_step:
  assumes "wf_modules data" "relocs_ok data" "sim opts data s x" "error s = 0" "step_roomy opts s al"
  shows "(\<forall>s' al'. handle_signal opts data s al = Some (Break, s', al') \<longrightarrow>
      error s' = 0 \<and> (\<exists>y. cfi_step data x (sig s) y \<and> sim opts data s' y)) \<and>
    (\<forall>y. cfi_step data x (sig s) y \<longrightarrow> (\<exists>s' al'. handle_signal opts data s al = Some (Break, s', al')))"
  using sim_step_sound [OF assms(1-4) step_roomy_clean [OF assms(5)]] sim_step_complete [OF assms] by blast

theorem signal_is_policy_step_witness:
  "\<exists>s s' al'. sig s = ex_signal CFI_ENTER 0 0 0 \<and>
     handle_signal ex_options ex_data s (\<lambda>_. Alloc_InPlace) = Some (Break, s', al')"
proof -
  obtain s where s: "sim ex_options ex_data s (Cfi SM_STATE_Ready undefined [])" "error s = 0" "sig s = ex_signal CFI_ENTER 0 0 0"
    using ex_ready_state by blast
  have "step_roomy ex_options s (\<lambda>_. Alloc_InPlace)"
    by (simp add: step_roomy_def s(3) ex_options_def)
  moreover have "cfi_step ex_data (Cfi SM_STATE_Ready undefined []) (sig s) (Cfi SM_STATE_InFunction (0, 0, 0) [])"
    by (rule cfi_step.start) (simp_all add: s(3) ex_entry)
  ultimately show ?thesis
    using signal_is_policy_step [OF ex_wf ex_relocs s(1,2), of "\<lambda>_. Alloc_InPlace"] s(3) by blast
qed

text \<open>C22: a signal that the state does not expect, or whose event is none of the six, ends the run with
  an error; nothing else changes.\<close>

theorem unexpected_signal_refused:
  assumes "case client_event_of (sig_event (sig s)) of None \<Rightarrow> True | Some e \<Rightarrow> \<not> expects (state s) e"
  shows "\<exists>e. e \<noteq> 0 \<and> handle_signal opts data s al = Some (Goto_exit, s\<lparr>error := e\<rparr>, al)"
proof (cases "client_event_of (sig_event (sig s))")
  case None
  then show ?thesis by (intro exI [of _ 5]) (simp add: handle_signal_malformed)
next
  case (Some e)
  then show ?thesis using assms by (intro exI [of _ 4]) (simp add: handle_signal_unexpected)
qed

theorem unexpected_signal_refused_witness:
  "\<exists>s e. state s = SM_STATE_Ready \<and> e \<noteq> 0 \<and>
     handle_signal ex_options ex_data s (\<lambda>_. Alloc_InPlace) = Some (Goto_exit, s\<lparr>error := e\<rparr>, \<lambda>_. Alloc_InPlace)"
proof -
  let ?s = "run_init stack_uninit stack_uninit (ex_signal CFI_CALL 0 1 0)"
  show ?thesis
    using unexpected_signal_refused [of ?s ex_options ex_data "\<lambda>_. Alloc_InPlace"]
    by (intro exI [of _ ?s]) (simp add: run_init_def ex_signal_def client_event_of_def)
qed

text \<open>C23: a signal is handled once. When the client's pipe is closed the monitor sees the last signal
  again; whatever that signal was, the loop stops there with error 4 and answers nothing more.\<close>

theorem replayed_signal_refused:
  assumes "handle_signal opts data s al = Some (Break, s1, al1)" "client_to_monitor w = []"
  shows "run_loop opts data (fst (read_signal s1 w)) w = Some ((fst (read_signal s1 w))\<lparr>error := 4\<rparr>, w)"
  using assms(2) by (intro run_loop_refused [OF assms(1)]) (simp_all add: read_signal_def read_client_signal_def)

theorem replayed_signal_refused_witness:
  "\<exists>s1 w. run_loop ex_options ex_data (fst (read_signal s1 w)) w = Some ((fst (read_signal s1 w))\<lparr>error := 4\<rparr>, w)"
proof -
  let ?s = "(run_init stack_uninit stack_uninit (ex_signal CFI_BEFORE_JUMP 0 0 0))\<lparr>state := SM_STATE_InFunction\<rparr>"
  have "\<exists>s1. handle_signal ex_options ex_data ?s (\<lambda>_. Alloc_InPlace) = Some (Break, s1, \<lambda>_. Alloc_InPlace)"
    by (simp add: handle_signal_def run_init_def ex_signal_def client_event_of_def on_before_jump_def)
  then show ?thesis using replayed_signal_refused [of ex_options ex_data ?s _ _ _ "ex_world []"] by fastforce
qed

section \<open>Stacks\<close>

text \<open>C28: the block stack is last in, first out: what was pushed is what is popped, and the stack is as
  it was, whenever there is a free cell or the array can grow in place.\<close>

theorem block_stack_lifo:
  assumes "stack_ok s" "room al s"
  shows "\<exists>s1 s2 al'. BLOCK_STACK_PUSH v 0 al s = Some (0, s1, al') \<and> BLOCK_STACK_POP s1 = Some (v, s2) \<and>
    stack_ok s2 \<and> stack_list s2 = stack_list s"
  using assms by (rule bs.push_pop)

theorem block_stack_lifo_witness:
  "\<exists>s s1 s2 al'. BLOCK_STACK_PUSH 7 0 (\<lambda>_. Alloc_Fail) s = Some (0, s1, al') \<and> BLOCK_STACK_POP s1 = Some (7, s2)"
proof -
  obtain s :: block_stack where s: "stack_ok s" "stack_height s = 0" "stack_cap s = BLOCK_STACK_EXTEND_SIZE"
    using ex_block_stack by blast
  then have "room (\<lambda>_. Alloc_Fail) s" by (simp add: room_def)
  from block_stack_lifo [OF s(1) this, of 7] show ?thesis by metis
qed

text \<open>C29: a fresh call stack keeps up to 512 callers, in order, without asking the allocator again.\<close>

theorem call_stack_capacity:
  assumes "al 0 \<noteq> Alloc_Fail" "length vs \<le> 512"
  shows "\<exists>s s'. call_stack_init al stack_uninit = (0, s, alloc_rest al) \<and>
    cs.pushes vs al' s = Some (0, s', al') \<and> stack_list s' = rev vs"
proof -
  obtain s where s: "call_stack_init al stack_uninit = (0, s, alloc_rest al)" "stack_ok s" "stack_list s = []"
      "stack_cap s = CALL_STACK_EXTEND_SIZE"
    by (rule call_stack_init_ok [of al, OF assms(1)])
  then have "stack_height s + length vs \<le> stack_cap s"
    using assms(2) length_stack_list [of s] by (simp add: CALL_STACK_EXTEND_SIZE_def)
  then show ?thesis using cs.pushes_within_capacity [OF s(2)] s(1,3) by fastforce
qed

theorem call_stack_capacity_witness:
  "\<exists>s s'. call_stack_init (\<lambda>_. Alloc_Move) stack_uninit = (0, s, \<lambda>_. Alloc_Move) \<and>
     cs.pushes [\<lparr>cs_module = 1, cs_function = 2, blocks_sp = NULL\<rparr>] (\<lambda>_. Alloc_Fail) s = Some (0, s', \<lambda>_. Alloc_Fail)"
  using call_stack_capacity [of "\<lambda>_. Alloc_Move" "[\<lparr>cs_module = 1, cs_function = 2, blocks_sp = NULL\<rparr>]" "\<lambda>_. Alloc_Fail"]
  by (simp, blast)

text \<open>C30: when a full block stack has to grow and \<open>realloc\<close> moves the array, \<open>top\<close> still points to the old
  one: the push that follows writes to freed memory.\<close>

theorem push_after_move_undefined:
  assumes "stack_ok s" "stack_height s = stack_cap s" "al 0 = Alloc_Move"
  shows "BLOCK_STACK_PUSH v err al s = None"
  unfolding BLOCK_STACK_PUSH_def using assms(3) by (rule stack_push_moved [OF assms(1,2) extend_sizes_pos(1)])

theorem push_after_move_undefined_witness: "BLOCK_STACK_PUSH 7 0 (\<lambda>_. Alloc_Move) ex_full_stack = None"
  using push_after_move_undefined [OF ex_full_stack_ok, of "\<lambda>_. Alloc_Move"] by simp

text \<open>C31: a push that has to extend the array forgets the error of an earlier step: once the array has
  grown, the macro stores the value and reports success, whatever \<open>err\<close> was.\<close>

theorem push_clears_pending_error:
  assumes "stack_ok s" "stack_height s = stack_cap s" "al 0 = Alloc_InPlace"
  shows "\<exists>s' al'. BLOCK_STACK_PUSH v err al s = Some (0, s', al') \<and> stack_list s' = v # stack_list s"
proof -
  have "BLOCK_STACK_PUSH v err al s = BLOCK_STACK_PUSH v 0 al s"
    unfolding BLOCK_STACK_PUSH_def using assms(3) by (rule stack_push_in_place [OF assms(1,2) extend_sizes_pos(1)])
  moreover have "room al s" using assms(3) by (simp add: room_def)
  ultimately show ?thesis using bs.push_law [OF assms(1), of al v] by auto
qed

theorem push_clears_pending_error_witness:
  "\<exists>s' al'. BLOCK_STACK_PUSH 7 4 (\<lambda>_. Alloc_InPlace) ex_full_stack = Some (0, s', al')"
  using push_clears_pending_error [OF ex_full_stack_ok, of "\<lambda>_. Alloc_InPlace" 7 4] by auto

section \<open>Protocol\<close>

text \<open>C32: a signal the client writes is the signal the monitor reads: all four fields survive the packed
  little-endian format and the pipe, and the next packet is untouched.\<close>

theorem signal_round_trip:
  "READ_CLIENT_SIGNAL (fst (WRITE_CLIENT_SIGNAL True c [] err) @ p) dst err' = (p, c, err')"
  using read_written_signal [of c p dst err'] by (simp add: WRITE_CLIENT_SIGNAL_def pipe_write_def)

text \<open>A relocation keeps its 16-bit module number and its 32-bit function number, for every pair.\<close>

theorem relocation_round_trip:
  "MODULE_FUNCTION_GET_MODULE (MODULE_FUNCTION (ucast m) f) = m \<and>
   MODULE_FUNCTION_GET_FUNCTION (MODULE_FUNCTION (ucast m) f) = f"
proof -
  have "ucast (ucast m :: 32 word) = m" by (rule bit_word_eqI) (auto simp: bit_simps)
  then show ?thesis by (simp add: module_function_get_function module_function_get_module)
qed

text \<open>C33: a loading packet of at most \<open>PIPE_BUF\<close> bytes arrives whole.\<close>

theorem loading_packet_round_trip:
  assumes "length v \<le> PIPE_BUF"
  shows "READ_LOADING_PACKET True (fst (WRITE_LOADING_PACKET True True True (loading_event_code ev) v [] 0) @ p) dst err =
    (p, \<lparr>lp_event = loading_event_code ev, lp_size = of_nat (length v),
         lp_value = (if v = [] then Buf_NULL else Buf_Live v)\<rparr>, err)"
  using read_written_loading [OF assms, of ev p dst err] by (simp add: loading_write_def)

theorem loading_packet_round_trip_witness:
  "READ_LOADING_PACKET True (fst (WRITE_LOADING_PACKET True True True (loading_event_code CFI_LOADING_MODULE_BEGIN) [1, 2] [] 0) @ [])
     \<lparr>lp_event = 9, lp_size = 9, lp_value = Buf_Freed\<rparr> 0 =
   ([], \<lparr>lp_event = 0, lp_size = 2, lp_value = Buf_Live [1, 2]\<rparr>, 0)"
  using loading_packet_round_trip [of "[1, 2]" CFI_LOADING_MODULE_BEGIN "[]"] by (simp add: PIPE_BUF_def)

text \<open>C34: a module with a section larger than the pipe crashes the monitor. The pipe splits the section that its
  constructor sends, the read of the body comes back short, the macro reports error 4 and frees the buffer
  but keeps the pointer, and the release at the end of \<open>monitor_load_module\<close> frees it again: its run is
  undefined, although the sections before that one load and memory is granted.\<close>

theorem large_packet_double_free:
  assumes "about_to_load sys l mon w" "sections t = ss @ s # ss'" "loadable ss empty_module"
    "section_packet s = (ev, v)" "PIPE_BUF < length v" "length v < 2 ^ 32"
  shows "(\<exists>l'. init_cfi sys g t l = Inr l' \<and>
      monitor_load_module opts gp mon (w\<lparr>loading_to_monitor := ld_to_monitor l'\<rparr>) = None) \<and>
    (\<exists>p' pkt. READ_LOADING_PACKET True
      (fst (WRITE_LOADING_PACKET True True True (loading_event_code ev) v [] 0) @ p) dst err = (p', pkt, 4) \<and>
      FREE_LOADING_PACKET pkt = None)"
  using about_to_load_large [OF assms(1-3)] read_written_loading_large [OF assms(5,6), of ev p dst err] assms(4-6)
  by (auto simp: loading_write_def FREE_LOADING_PACKET_def)

theorem large_packet_double_free_witness:
  "\<exists>l'. init_cfi ex_system 9 exl_tables exp_loader = Inr l' \<and>
     monitor_load_module ex_options no_packet no_modules ((ex_world [])\<lparr>loading_to_monitor := ld_to_monitor l'\<rparr>) = None"
proof -
  obtain ev v where s: "section_packet (Fctids (t_fcts exl_tables)) = (ev, v)" by fastforce
  show ?thesis
    using large_packet_double_free [OF exp_about_to_load, of exl_tables "[]" "Fctids (t_fcts exl_tables)" _ ev v, OF _ _ s]
      exl_large arg_cong [OF s, of snd] by (simp add: sections_def exl_tables_def [THEN arg_cong, of t_bb] PIPE_BUF_def)
qed

section \<open>Loading\<close>

text \<open>C7: what a module sends is what the monitor has. The packets the constructor of a module writes, when
  its sections can be packed and each fits the pipe, are loaded without error into exactly one new
  module, whose tables are those of the compiler, and nothing else is read.\<close>

theorem module_round_trip:
  assumes "wf_modules mon" "nb_modules mon + 1 \<noteq> 0" "Alloc_Fail \<notin> range (w_alloc w)" "w_write w 0"
    "loadable (sections t) empty_module" "\<not> OPTION_sm_dump opts"
    "ld_write l = (\<lambda>_. (True, True, True))" "ld_to_monitor l = []" "init_fds sys (ld_client l) = Some c"
    "ld_from_monitor l = pipe_packets (le16 (ucast (nb_modules mon))) @ p"
  shows "\<exists>l' w'. init_cfi sys g t l = Inr l' \<and>
    monitor_load_module opts gp mon (w\<lparr>loading_to_monitor := ld_to_monitor l'\<rparr>) =
      Some (0, mon\<lparr>nb_modules := nb_modules mon + 1, modules := Some (module_list mon @ [loaded_module t])\<rparr>, w') \<and>
    loading_to_monitor w' = packet_stream (tl (end_packets t)) \<and>
    sig_module (cs (ld_client l')) = ucast (nb_modules mon)"
  using assms by (rule constructor_loads)

theorem module_round_trip_witness:
  "\<exists>(l' :: loader) w'. monitor_load_module ex_options \<lparr>lp_event = 0, lp_size = 0, lp_value = Buf_NULL\<rparr> no_modules
      ((ex_world [])\<lparr>loading_to_monitor := ld_to_monitor l'\<rparr>) =
    Some (0, no_modules\<lparr>nb_modules := 1, modules := Some [loaded_module exm_tables]\<rparr>, w')"
proof -
  let ?l = "\<lparr>ld_client = ex_client, ld_to_monitor = [], ld_from_monitor = pipe_packets (le16 0), ld_write = (\<lambda>_. (True, True, True))\<rparr>"
  show ?thesis
    using module_round_trip [of no_modules "ex_world []" exm_tables ex_options ?l ex_system _ "[]" 0
        "\<lparr>lp_event = 0, lp_size = 0, lp_value = Buf_NULL\<rparr>"] ex_init_fds
    by auto
qed

text \<open>C8: the monitor enforces the compiled graphs. What the constructor of a module sends is loaded, and then the
  tables let a function call exactly the functions its entry of the call graph lists, and let control
  pass from one block of a function to exactly the blocks its entry of that function's graph lists.\<close>

theorem loaded_policy_is_compiled:
  assumes "about_to_load sys l mon w" "loadable (sections t) empty_module" "\<not> OPTION_sm_dump opts" "unat (nb_modules mon) < 2 ^ 16"
  shows "\<exists>l' data w'. init_cfi sys g t l = Inr l' \<and>
    monitor_load_module opts gp mon (w\<lparr>loading_to_monitor := ld_to_monitor l'\<rparr>) = Some (0, data, w') \<and>
    (\<forall>f < of_nat (length (t_fcts t)). \<forall>f'. call_edge data (ucast (nb_modules mon)) f f' \<longleftrightarrow>
      f' < of_nat (length (t_fcts t)) \<and> (\<exists>callees. map_of (t_callgraph t) f = Some callees \<and> f' \<in> set callees)) \<and>
    (\<forall>bb ipd. t_bb t = Some (bb, ipd) \<longrightarrow> (\<forall>(f, n, d) \<in> set bb. \<forall>b < n. \<forall>b'. cfg_edge data (ucast (nb_modules mon)) f b b' \<longleftrightarrow>
      b' < n \<and> (\<exists>succs. map_of d b = Some succs \<and> b' \<in> set succs)))"
proof -
  let ?data = "mon\<lparr>nb_modules := nb_modules mon + 1, modules := Some (module_list mon @ [loaded_module t])\<rparr>"
  obtain l' w' where run: "init_cfi sys g t l = Inr l'"
      "monitor_load_module opts gp mon (w\<lparr>loading_to_monitor := ld_to_monitor l'\<rparr>) = Some (0, ?data, w')"
    using about_to_load_loads [OF assms(1-3)] .
  have md: "module_at ?data (Some (unat (ucast (nb_modules mon) :: module_id))) = Some (loaded_module t)"
    using assms(1,4) by (rule loaded_module_at)
  show ?thesis
    using run loaded_call_edge [OF md loadable_size [OF assms(2)]] loaded_cfg_edge [OF assms(2) _ _ md]
    by (intro exI [of _ l'] exI [of _ ?data] exI [of _ w']) auto
qed

theorem loaded_policy_is_compiled_witness:
  "\<exists>(l' :: loader) data w'. monitor_load_module ex_options no_packet no_modules ((ex_world [])\<lparr>loading_to_monitor := ld_to_monitor l'\<rparr>) = Some (0, data, w') \<and>
     call_edge data 0 0 1 \<and> \<not> call_edge data 0 1 0 \<and> cfg_edge data 0 0 0 1 \<and> \<not> cfg_edge data 0 0 1 0"
proof -
  have "\<not> OPTION_sm_dump ex_options" "unat (nb_modules no_modules) < 2 ^ 16" by simp_all
  from loaded_policy_is_compiled [OF exp_about_to_load exm_loadable this, of 0 no_packet] show ?thesis
  proof (elim exE conjE)
    fix l' :: loader and data w'
    let ?m = "ucast (nb_modules no_modules) :: module_id"
    assume run: "monitor_load_module ex_options no_packet no_modules ((ex_world [])\<lparr>loading_to_monitor := ld_to_monitor l'\<rparr>) = Some (0, data, w')"
      and c: "\<forall>f < of_nat (length (t_fcts exm_tables)). \<forall>f'. call_edge data ?m f f' \<longleftrightarrow>
        f' < of_nat (length (t_fcts exm_tables)) \<and> (\<exists>callees. map_of (t_callgraph exm_tables) f = Some callees \<and> f' \<in> set callees)"
      and g: "\<forall>bb ipd. t_bb exm_tables = Some (bb, ipd) \<longrightarrow> (\<forall>(f, n, d) \<in> set bb. \<forall>b < n. \<forall>b'. cfg_edge data ?m f b b' \<longleftrightarrow>
        b' < n \<and> (\<exists>succs. map_of d b = Some succs \<and> b' \<in> set succs))"
    have m: "?m = 0" by simp
    have "call_edge data 0 0 1 \<and> \<not> call_edge data 0 1 0"
      using c unfolding m by (simp add: exm_tables_def [THEN arg_cong, of t_fcts] exm_tables_def [THEN arg_cong, of t_callgraph])
    moreover have "cfg_edge data 0 0 0 1 \<and> \<not> cfg_edge data 0 0 1 0"
      using g unfolding m by (simp add: exm_tables_def [THEN arg_cong, of t_bb])
    ultimately show ?thesis using run by blast
  qed
qed

text \<open>C13: loading keeps the tables well formed. Whatever the modules send, when \<open>monitor_load\<close> succeeds, or
  fails although no allocation was refused, every array is as long as the counter beside it says.\<close>

theorem load_keeps_tables_well_formed:
  assumes "monitor_load opts g gp pid c2m m2c l2m m2l w = Some (e, data, w')" "e = 0 \<or> Alloc_Fail \<notin> range (w_alloc w)"
  shows "wf_modules data"
  using monitor_load_ok [OF assms(1)] assms(2) by (auto simp: sound_load_def)

theorem load_keeps_tables_well_formed_witness:
  "wf_modules (no_modules\<lparr>nb_modules := 1, modules := Some [loaded_module exm_tables]\<rparr>)"
  using exm_monitor_load [of "[]"] load_keeps_tables_well_formed by blast

text \<open>C12: after a successful load every external function of every module is relocated to the function of the
  same name in the highest other module, and in it to the first one; so every call leads to a
  function that exists. Module numbers are 16 bits wide, hence the bound.\<close>

theorem load_links_every_external:
  assumes "monitor_load opts g gp pid c2m m2c l2m m2l w = Some (0, data, w')" "unat (nb_modules data) \<le> 2 ^ 16"
  shows "(\<forall>m < unat (nb_modules data). module_linked data m) \<and> relocs_ok data"
  using monitor_load_ok [OF assms(1)] assms(2) by simp

theorem load_links_every_external_witness:
  "fun_at exa_data 1 1 = Some exa_external \<and> FUNCTION_IS_EXTERNAL exa_external \<and> linked exa_data 1 1 \<and> relocs_ok exa_data"
proof -
  have nb: "nb_modules exa_data = 2" by (simp add: exa_data_def)
  have two: "(\<forall>m < unat (nb_modules exa_data). module_linked exa_data m) \<and> relocs_ok exa_data"
    using exa_monitor_load load_links_every_external [of ex_options "ex_signal CFI_CALL 9 9 9" no_packet 2 3 6 7 10 exa_world exa_data] nb
    by auto
  then have "module_linked exa_data 1" by (simp add: nb)
  then have "linked exa_data 1 1" by (simp add: module_linked_def exa_data_def exa_modules)
  then show ?thesis using exa_linked two by blast
qed

text \<open>C17: the final relocation of a module fails exactly when one of its external functions is defined nowhere
  else; otherwise all of them are linked. The other modules' relocations are not touched.\<close>

theorem relocation_links_or_fails:
  assumes "compute_relocations_of_module data mid True = Some (e, data')" "wf_modules data"
    "unat (nb_modules data) \<le> 2 ^ 31" "arr_get (modules data) (unat mid) = Some md"
  shows "(if \<exists>i < unat (nb_functions md). unresolved data mid i then e = 1
      else e = 0 \<and> (\<forall>i < unat (nb_functions md). linked data' mid i)) \<and>
    (\<forall>m i. m \<noteq> unat mid \<longrightarrow> rel_at data' m i = rel_at data m i)"
proof -
  note spec = compute_relocations_links [OF assms]
  have "skeleton data' = skeleton data"
    using assms(1,2) by (auto simp: compute_relocations_of_module_def bind_eq_Some_conv dest: relocate_wf)
  then have "\<not> (linked data' mid i \<and> unresolved data mid i)" for i
    using skeletonD(1,3) [of data' data] by (auto simp: linked_def unresolved_def chosen_def)
  with spec show ?thesis by (auto split: if_splits)
qed

theorem relocation_links_or_fails_witness:
  "FUNCTION_IS_EXTERNAL ex_extern \<and> fun_at ex_data 0 1 = Some ex_extern \<and> linked ex_data 0 1 \<and> (\<exists>i < 2. unresolved exu_data 0 i)"
proof -
  have "linked ex_data 0 1"
    using relocation_links_or_fails [OF exr_relocates exr_wf, of "ex_module0\<lparr>relocations := Some [0, 0]\<rparr>"]
    by (auto simp: exr_data_def ex_data_def ex_module0_def split: if_splits)
  moreover have "\<exists>i < 2. unresolved exu_data 0 i"
    using relocation_links_or_fails [OF exu_fails exu_wf, of ex_module0]
    by (auto simp: exu_data_def ex_data_def ex_module0_def split: if_splits)
  ultimately show ?thesis using exr_external by blast
qed

text \<open>C24: the tables of a load can always be released: on every outcome of \<open>monitor_load\<close> but one with a refused
  allocation, \<open>monitor_data_free\<close> follows only live arrays and leaves no module.\<close>

theorem release_is_safe:
  assumes "monitor_load opts g gp pid c2m m2c l2m m2l w = Some (e, data, w')" "e = 0 \<or> Alloc_Fail \<notin> range (w_alloc w)"
  shows "\<exists>data'. monitor_data_free data = Some data' \<and> nb_modules data' = 0 \<and> (nb_modules data \<noteq> 0 \<longrightarrow> modules data' = None)"
proof -
  have "wf_modules data" using monitor_load_ok [OF assms(1)] assms(2) by (auto simp: sound_load_def)
  then show ?thesis by (simp add: monitor_data_free_ok)
qed

theorem release_is_safe_witness:
  "\<exists>data'. monitor_data_free (no_modules\<lparr>nb_modules := 1, modules := Some [loaded_module exm_tables]\<rparr>) = Some data'"
  using exm_monitor_load [of "[]"] release_is_safe by blast

text \<open>C35: a refused allocation of the module array is reported, but the counter is already incremented and the
  pointer is null: releasing the tables then follows a null pointer.\<close>

theorem refused_module_breaks_release:
  assumes "w_alloc w 0 = Alloc_Fail" "nb_modules mon + 1 \<noteq> 0"
  shows "\<exists>mon' w'. add_module mon w = Some (10, mon', w') \<and> monitor_data_free mon' = None"
  using assms by (auto simp: add_module_def next_alloc_def Let_def monitor_data_free_null)

theorem refused_module_breaks_release_witness:
  "\<exists>mon' w'. add_module no_modules ((ex_world [])\<lparr>w_alloc := \<lambda>_. Alloc_Fail\<rparr>) = Some (10, mon', w') \<and>
     monitor_data_free mon' = None"
  by (rule refused_module_breaks_release) simp_all

text \<open>C25: loading makes progress: each module that loads takes at least one packet off the loading pipe, which is
  why the loop over the modules ends on every input.\<close>

theorem loading_consumes_packets:
  assumes "load_and_init opts g gp data w = Some (0, False, data', w')"
  shows "length (loading_to_monitor w') < length (loading_to_monitor w)"
  using assms by (rule load_and_init_shorter)

theorem loading_consumes_packets_witness:
  "\<exists>w'. load_and_init ex_options (ex_signal CFI_CALL 9 9 9) no_packet no_modules (exm_load_world []) =
     Some (0, False, no_modules\<lparr>nb_modules := 1, modules := Some [loaded_module exm_tables]\<rparr>, w') \<and>
     length (loading_to_monitor w') < length (loading_to_monitor (exm_load_world []))"
  using exm_load_and_init loading_consumes_packets by blast

section \<open>Dump\<close>

text \<open>C40: the dump of a call graph prints every edge the monitor enforces, once, in row order, and nothing else;
  a missing row prints nothing.\<close>

theorem dump_prints_the_edges:
  assumes "wf_rows n g"
  shows "dot_rows g (unat n) 0 (unat n) =
    Some [Dot_edge (of_nat a) (of_nat b). a \<leftarrow> [0..<unat n], b \<leftarrow> [0..<unat n], graph_edge g (of_nat a) (of_nat b)]"
  using dot_rows_edges [OF assms, of 0 "unat n"] by simp

theorem dump_prints_the_edges_witness:
  "dot_rows (Some [Some [0, 1], None]) 2 0 2 = Some [Dot_edge 0 1]"
proof -
  have two: "[0..<2] = [0, Suc 0]" by (simp add: numeral_2_eq_2)
  have "wf_rows 2 (Some [Some [0, 1], None])" by (simp add: wf_rows_def)
  from dump_prints_the_edges [OF this] show ?thesis by (simp add: two graph_edge_def)
qed

section \<open>The monitor process\<close>

text \<open>The program refuses to start, before any pipe or process is created, under \<open>LD_PRELOAD\<close>, inside another
  monitored program, or without a program to run; the exit status tells which.\<close>

theorem main_refuses:
  assumes "getenv sys ''LD_PRELOAD'' \<noteq> None \<or>
    (\<exists>v \<in> {ENV_FD_CLIENT_TO_MONITOR, ENV_FD_MONITOR_TO_CLIENT, ENV_FD_LOADING_TO_MONITOR, ENV_FD_MONITOR_TO_LOADING}.
       getenv sys v \<noteq> None) \<or> length (argv sys) < 2"
  shows "\<exists>e. e \<in> {-1, -2} \<and> main opts g gp gdata exec_ok sys w = Some (Return e, [], w)"
proof -
  consider "getenv sys ''LD_PRELOAD'' \<noteq> None"
    | "getenv sys ''LD_PRELOAD'' = None" "\<exists>v \<in> {ENV_FD_CLIENT_TO_MONITOR, ENV_FD_MONITOR_TO_CLIENT,
        ENV_FD_LOADING_TO_MONITOR, ENV_FD_MONITOR_TO_LOADING}. getenv sys v \<noteq> None"
    | "getenv sys ''LD_PRELOAD'' = None" "\<forall>v \<in> {ENV_FD_CLIENT_TO_MONITOR, ENV_FD_MONITOR_TO_CLIENT,
        ENV_FD_LOADING_TO_MONITOR, ENV_FD_MONITOR_TO_LOADING}. getenv sys v = None" "length (argv sys) < 2"
    using assms by blast
  then show ?thesis
  proof cases
    case 1
    then show ?thesis by (simp add: main_def)
  next
    case 2
    then have "getenv sys ENV_FD_CLIENT_TO_MONITOR \<noteq> None \<or> getenv sys ENV_FD_MONITOR_TO_CLIENT \<noteq> None \<or>
        getenv sys ENV_FD_LOADING_TO_MONITOR \<noteq> None \<or> getenv sys ENV_FD_MONITOR_TO_LOADING \<noteq> None"
      by auto
    with 2(1) show ?thesis unfolding main_def by simp
  next
    case 3
    then show ?thesis by (simp add: main_def)
  qed
qed

theorem main_refuses_witness:
  "\<exists>e. e \<in> {-1, -2} \<and> main ex_options (ex_signal CFI_CALL 9 9 9) no_packet no_modules True ex_system (ex_world []) =
     Some (Return e, [], ex_world [])"
  by (rule main_refuses) (auto simp: ex_system_def)

text \<open>C6: the exit status 0 of the monitor means that the client was honest. The tables it loaded are well formed,
  and what the client sent after loading is one complete activation of an entry point, followed by one
  for each finaliser the modules announced.\<close>

theorem main_success_means_policy:
  assumes "main opts g gp gdata exec_ok sys w = Some (Return 0, acts, w')" "Alloc_Fail \<notin> range (w_alloc w)"
  shows "\<exists>fds data w1. monitor_load (env_options sys opts) g gp (fork sys) (fst fds) (fst (snd fds)) (fst (snd (snd fds)))
        (snd (snd (snd fds))) w = Some (0, data, w1) \<and> wf_modules data \<and>
      (\<forall>ts. unat (nb_modules data) \<le> 2 ^ 16 \<and> client_to_monitor w1 = map encode_signal ts \<longrightarrow>
        (\<exists>nb uss vs. count_finis data 0 (unat (nb_modules data)) 0 = Some nb \<and> length uss = Suc (unat nb) \<and>
          list_all (activated data) uss \<and> ts = concat uss @ vs \<and> client_to_monitor w' = map encode_signal vs))"
proof -
  obtain c2m m2c l2m m2l where
    "monitor_process (env_options sys opts) g gp gdata sys (c2m, m2c, l2m, m2l) w = Some (Return 0, acts, w')"
    using assms(1) by (auto simp: main_def client_process_def Let_def split: if_splits option.splits)
  from monitor_process_sound [OF this assms(2)] obtain data w1 where
    "monitor_load (env_options sys opts) g gp (fork sys) (fst c2m) (snd m2c) (fst l2m) (snd m2l) w = Some (0, data, w1)"
    "wf_modules data" and rest: "\<forall>ts. unat (nb_modules data) \<le> 2 ^ 16 \<and> client_to_monitor w1 = map encode_signal ts \<longrightarrow>
        (\<exists>nb uss vs. count_finis data 0 (unat (nb_modules data)) 0 = Some nb \<and> length uss = Suc (unat nb) \<and>
          list_all (activated data) uss \<and> ts = concat uss @ vs \<and> client_to_monitor w' = map encode_signal vs)"
    by blast
  then show ?thesis
    by (intro exI [of _ "(fst c2m, snd m2c, fst l2m, snd m2l)"] exI [of _ data] exI [of _ w1]) simp
qed

theorem main_success_means_policy_witness:
  "\<exists>acts w' fds data w1. main ex_options (ex_signal CFI_CALL 9 9 9) no_packet no_modules True ex_launch (exm_load_world exm_trace) =
     Some (Return 0, acts, w') \<and>
     monitor_load (env_options ex_launch ex_options) (ex_signal CFI_CALL 9 9 9) no_packet (fork ex_launch) (fst fds)
       (fst (snd fds)) (fst (snd (snd fds))) (snd (snd (snd fds))) (exm_load_world exm_trace) = Some (0, data, w1) \<and> wf_modules data"
proof -
  have al: "Alloc_Fail \<notin> range (w_alloc (exm_load_world exm_trace))" by (auto simp: exm_load_world_def)
  obtain acts w' where m: "main ex_options (ex_signal CFI_CALL 9 9 9) no_packet no_modules True ex_launch (exm_load_world exm_trace) =
     Some (Return 0, acts, w')"
    using exm_main by blast
  obtain fds data w1 where "monitor_load (env_options ex_launch ex_options) (ex_signal CFI_CALL 9 9 9) no_packet (fork ex_launch) (fst fds)
       (fst (snd fds)) (fst (snd (snd fds))) (snd (snd (snd fds))) (exm_load_world exm_trace) = Some (0, data, w1)" "wf_modules data"
    using main_success_means_policy [OF m al] by metis
  with m show ?thesis by blast
qed

text \<open>C37: once it has forked, the monitor kills its client exactly when it ends with an error.\<close>

theorem main_kills_on_error:
  assumes "main opts g gp gdata exec_ok sys w = Some (r, acts, w')" "0 < fork sys" "acts \<noteq> []"
  shows "Kill (fork sys) \<in> set acts \<longleftrightarrow> r \<noteq> Return 0"
  using assms
  by (auto simp: main_def Let_def dest!: monitor_process_kills split: if_splits option.splits)

theorem main_kills_on_error_witness:
  "\<exists>acts w'. main ex_options (ex_signal CFI_CALL 9 9 9) no_packet no_modules True ex_launch (exm_load_world exm_trace) =
     Some (Return 0, acts, w') \<and> Kill 2 \<notin> set acts"
proof -
  obtain w' where m: "main ex_options (ex_signal CFI_CALL 9 9 9) no_packet no_modules True ex_launch (exm_load_world exm_trace) =
     Some (Return 0, [Close 4, Close 5, Close 8, Close 9], w')"
    using exm_main by blast
  with main_kills_on_error [OF m] show ?thesis by (simp add: ex_launch_def)
qed

text \<open>C38: when loading fails, without a refused allocation, the monitor closes its ends, kills the client, releases
  the tables and ends with the error of the load.\<close>

theorem failed_load_stops_client:
  assumes "mask_sigpipe sys = 0" "Alloc_Fail \<notin> range (w_alloc w)" "e \<noteq> 0"
    "monitor_load opts g gp (fork sys) (fst c2m) (snd m2c) (fst l2m) (snd m2l) w = Some (e, data, w1)"
  shows "monitor_process opts g gp gdata sys (c2m, m2c, l2m, m2l) w =
    Some (Return e, [Close (snd c2m), Close (fst m2c), Close (snd l2m), Close (fst m2l), Kill (fork sys)], w1)"
  using assms by (rule monitor_process_load_error)

theorem failed_load_stops_client_witness:
  "monitor_process ex_options (ex_signal CFI_CALL 9 9 9) no_packet no_modules ex_launch ((3, 4), (5, 6), (7, 8), (9, 10)) (ex_world []) =
     Some (Return (-1), [Close 4, Close 5, Close 8, Close 9, Kill 2], ex_world [])"
  using failed_load_stops_client [of ex_launch "ex_world []" "-1" ex_options "ex_signal CFI_CALL 9 9 9" no_packet "(3, 4)" "(5, 6)"
      "(7, 8)" "(9, 10)" no_modules "ex_world []" no_modules] ex_load_nothing
  by (simp add: ex_launch_def)

text \<open>When the signal mask cannot be set, \<open>main\<close> releases a \<open>data\<close> that was never initialised: with a non-zero
  counter and a null pointer in it, the process follows the null pointer.\<close>

theorem mask_failure_frees_garbage:
  assumes "mask_sigpipe sys \<noteq> 0" "nb_modules gdata \<noteq> 0" "modules gdata = None"
  shows "monitor_process opts g gp gdata sys fds w = None"
  using assms by (rule monitor_process_garbage)

theorem mask_failure_frees_garbage_witness:
  "monitor_process ex_options (ex_signal CFI_CALL 9 9 9) no_packet (no_modules\<lparr>nb_modules := 3\<rparr>)
     (ex_launch\<lparr>mask_sigpipe := -1\<rparr>) ((3, 4), (5, 6), (7, 8), (9, 10)) (ex_world []) = None"
  by (rule mask_failure_frees_garbage) simp_all

text \<open>C39: the descriptors the monitor leaves in the environment are those the module's constructor finds in it.\<close>

theorem descriptors_survive_environment:
  assumes "client_process True sys (c2m, m2c, l2m, m2l) = (r, acts)"
    "\<forall>fd \<in> {snd c2m, fst m2c, snd l2m, fst m2l}. 0 \<le> fd \<and> fd < 2 ^ 31"
  shows "init_fds (sys\<lparr>getenv := exec_env acts (getenv sys)\<rparr>) c = Some (CFI_SET_FDS (snd c2m) (fst m2c) c)"
  using assms by (rule init_fds_inherited)

theorem descriptors_survive_environment_witness:
  "init_fds (ex_launch\<lparr>getenv := exec_env (snd (client_process True ex_launch ((3, 4), (5, 6), (7, 8), (9, 10)))) (getenv ex_launch)\<rparr>)
     ex_client = Some (CFI_SET_FDS 4 5 ex_client)"
  using descriptors_survive_environment [of ex_launch "(3, 4)" "(5, 6)" "(7, 8)" "(9, 10)"
      "fst (client_process True ex_launch ((3, 4), (5, 6), (7, 8), (9, 10)))"
      "snd (client_process True ex_launch ((3, 4), (5, 6), (7, 8), (9, 10)))" ex_client]
  by simp

text \<open>A descriptor is printed in full: ten digits at most, far below the 127 the buffer holds.\<close>

theorem descriptor_fits_buffer:
  "snprintf_u 128 fd = decimal (unat (word_of_int fd :: u32)) \<and> length (snprintf_u 128 fd) \<le> 10"
  by (rule snprintf_fits) simp

section \<open>The compiler pass\<close>

text \<open>C9: a run of the protected program is what the policy allows. When the units of a program are compiled one after
  the other, prelinked and loaded as module \<open>m\<close>, every complete run of an instrumented function announces
  an activation of that function, along the calls and jumps of the loaded tables. The program calls only
  functions of its units, or functions the pass does not look at; each function is defined once and
  returns from its last block.\<close>

theorem instrumented_run_is_activation:
  assumes "compile ndebug order PDT opts Ms fs = Inr (Ms', fs')" "some_order order" "some_order pyorder"
    "fresh_project opts fs" "sound_program (ignored_names opts fs) Ms" "(\<Sum>M \<leftarrow> Ms. length (m_functions M)) < 2 ^ 32"
    "prelink pyorder (cfi_prefix opts) fs' = Some t" "loadable (sections t) empty_module"
    "module_at data (Some (unat m)) = Some (loaded_module t)"
    "(bytes_of g, i, flags) \<in> set (t_fcts t)" "runs (program_of Ms') g hs"
  shows "activation data m i (map (hook_signal m) hs)"
  using assms by (rule compiled_program_activation)

theorem instrumented_run_is_activation_witness: "activation exp_data 0 0 (map (hook_signal 0) exp_hooks)"
proof (rule instrumented_run_is_activation)
  show "compile True (\<lambda>ks. ks) (\<lambda>_ _ _ _. None) exp_options [exp_main, exp_g] exp_files = Inr ([exp_main_result, exp_g_result], exp_files_both)"
    by (rule exp_compile)
  show "prelink (\<lambda>ks. ks) (cfi_prefix exp_options) exp_files_both = Some exp_tables"
    using exp_prelink by (simp add: exp_options_def)
  show "sound_program (ignored_names exp_options exp_files) [exp_main, exp_g]" using exp_sound by (simp add: exp_ignored)
  show "(\<Sum>M \<leftarrow> [exp_main, exp_g]. length (m_functions M)) < 2 ^ 32" by (simp add: exp_main_def exp_g_def exp_unit_def)
  show "(bytes_of ''main'', 0, ''Main'') \<in> set (t_fcts exp_tables)" by (simp add: exp_tables_def)
qed (rule some_order_id exp_fresh exp_loadable exp_module_at exp_runs)+

text \<open>C10: the calls of the policy are the calls of the code. In the module made of the units, a function may call
  another exactly when a unit defines it and its code has that call.\<close>

theorem policy_calls_are_source_calls:
  assumes "compile ndebug order PDT opts Ms fs = Inr (Ms', fs')" "some_order order" "some_order pyorder"
    "fresh_project opts fs" "sound_program (ignored_names opts fs) Ms" "(\<Sum>M \<leftarrow> Ms. length (m_functions M)) < 2 ^ 32"
    "prelink pyorder (cfi_prefix opts) fs' = Some t" "loadable (sections t) empty_module"
    "module_at data (Some (unat m)) = Some (loaded_module t)"
    "(bytes_of f, i, flags) \<in> set (t_fcts t)" "(bytes_of g, j, flags') \<in> set (t_fcts t)"
  shows "call_edge data m i j \<longleftrightarrow>
    (\<exists>M \<in> set Ms. f \<in> unit_names M (ignored_names opts fs) \<and> g \<in> unit_names M (ignored_names opts fs) \<and> g \<in> called (body_of M f))"
  using assms by (rule compiled_policy)

theorem policy_calls_are_source_calls_witness: "call_edge exp_data 0 0 1"
proof -
  have "call_edge exp_data 0 0 1 \<longleftrightarrow> (\<exists>M \<in> set [exp_main, exp_g]. ''main'' \<in> unit_names M (ignored_names exp_options exp_files) \<and>
      ''g'' \<in> unit_names M (ignored_names exp_options exp_files) \<and> ''g'' \<in> called (body_of M ''main''))"
  proof (rule policy_calls_are_source_calls [OF exp_compile])
    show "prelink (\<lambda>ks. ks) (cfi_prefix exp_options) exp_files_both = Some exp_tables"
      using exp_prelink by (simp add: exp_options_def)
    show "sound_program (ignored_names exp_options exp_files) [exp_main, exp_g]" using exp_sound by (simp add: exp_ignored)
    show "(\<Sum>M \<leftarrow> [exp_main, exp_g]. length (m_functions M)) < 2 ^ 32" by (simp add: exp_main_def exp_g_def exp_unit_def)
    show "(bytes_of ''main'', 0, ''Main'') \<in> set (t_fcts exp_tables)" "(bytes_of ''g'', 1, ''p.fctid'') \<in> set (t_fcts exp_tables)"
      by (simp_all add: exp_tables_def)
  qed (rule some_order_id exp_fresh exp_loadable exp_module_at)+
  then show ?thesis by (simp add: exp_ignored exp_names exp_bodies called_def exp_block_def)
qed

text \<open>C11: the jumps of the policy are the jumps of the code. A function with a section of blocks in the tables is
  defined in a unit, and between its blocks, unless there is only one, control may pass exactly along the
  successors of their terminators.\<close>

theorem policy_jumps_are_source_jumps:
  assumes "compile ndebug order PDT opts Ms fs = Inr (Ms', fs')" "some_order order" "some_order pyorder"
    "fresh_project opts fs" "sound_program (ignored_names opts fs) Ms" "(\<Sum>M \<leftarrow> Ms. length (m_functions M)) < 2 ^ 32"
    "prelink pyorder (cfi_prefix opts) fs' = Some t" "loadable (sections t) empty_module"
    "module_at data (Some (unat m)) = Some (loaded_module t)"
    "(bytes_of g, i, flags) \<in> set (t_fcts t)" "t_bb t = Some (bb, ipd)" "(i, n, d) \<in> set bb"
  shows "\<exists>M \<in> set Ms. body_of M g \<noteq> [] \<and>
    (\<forall>a < length (body_of M g). \<forall>s < length (body_of M g). length (body_of M g) \<noteq> 1 \<longrightarrow>
      (cfg_edge data m i (of_nat a) (of_nat s) \<longleftrightarrow> s \<in> set (successors (bb_term (body_of M g ! a)))))"
  using assms by (rule compiled_jumps)

theorem policy_jumps_are_source_jumps_witness: "cfg_edge exp_data 0 0 0 1 \<and> \<not> cfg_edge exp_data 0 0 1 0"
proof -
  have "\<exists>M \<in> set [exp_main, exp_g]. body_of M ''main'' \<noteq> [] \<and>
    (\<forall>a < length (body_of M ''main''). \<forall>s < length (body_of M ''main''). length (body_of M ''main'') \<noteq> 1 \<longrightarrow>
      (cfg_edge exp_data 0 0 (of_nat a) (of_nat s) \<longleftrightarrow> s \<in> set (successors (bb_term (body_of M ''main'' ! a)))))"
  proof (rule policy_jumps_are_source_jumps [OF exp_compile])
    show "prelink (\<lambda>ks. ks) (cfi_prefix exp_options) exp_files_both = Some exp_tables"
      using exp_prelink by (simp add: exp_options_def)
    show "sound_program (ignored_names exp_options exp_files) [exp_main, exp_g]" using exp_sound by (simp add: exp_ignored)
    show "(\<Sum>M \<leftarrow> [exp_main, exp_g]. length (m_functions M)) < 2 ^ 32" by (simp add: exp_main_def exp_g_def exp_unit_def)
    show "(bytes_of ''main'', 0, ''Main'') \<in> set (t_fcts exp_tables)" by (simp add: exp_tables_def)
    show "t_bb exp_tables = Some ([(0, 2, [(0, [1])]), (1, 1, [])], [(0, 0, 1, 1), (0, 1, 0, 1), (1, 0, 0, 0)])" by (simp add: exp_tables_def)
    show "(0, 2, [(0, [1])]) \<in> set [(0, 2, [(0, [1])]), (1, 1, [])]" by simp
  qed (rule some_order_id exp_fresh exp_loadable exp_module_at)+
  then have edges: "\<forall>a < 2. \<forall>s < 2. cfg_edge exp_data 0 0 (of_nat a) (of_nat s) \<longleftrightarrow>
      s \<in> set (successors (bb_term (body_of exp_main ''main'' ! a)))"
    by (simp add: exp_bodies)
  show ?thesis
    using edges [rule_format, of 0 1] edges [rule_format, of 1 0] by (simp add: exp_bodies exp_block_def)
qed

text \<open>C15: the pass only adds hooks. Without the calls it injects, every function of a unit has the blocks,
  instructions and terminators it had before.\<close>

theorem instrumentation_only_adds:
  assumes "runOnModule ndebug order PDT opts M fs = Inr (M', fs')" "wf_unit M" "some_order order"
    "project (cfi_prefix opts) ns es fs" "length ns + length (m_functions M) < 2 ^ 32"
  shows "erase (body_of M' g) = erase (body_of M g)"
  using assms by (rule compiled_erase)

theorem instrumentation_only_adds_witness:
  "erase (body_of exp_main_result ''main'') = [exp_block [CallInst [] (Function ''g'') []] (Branch [1]), exp_block [] Ret]"
proof -
  have "project (cfi_prefix exp_options) [] [] exp_files" using exp_fresh by (simp add: fresh_project_def project_def table_files_def)
  moreover have "wf_unit exp_main" by (rule sound_programD(1) [OF exp_sound]) simp
  ultimately have "erase (body_of exp_main_result ''main'') = erase (body_of exp_main ''main'')"
    using instrumentation_only_adds [OF exp_run_main, of "[]" "[]"] by (simp add: some_order_id exp_main_def exp_unit_def)
  then show ?thesis by (simp add: exp_bodies erase_def exp_block_def injected_def prototypes_def)
qed

text \<open>C16: numbers are dense, unique and stable. After any sequence of units the table of numbers has one entry
  per function, the numbers are those below the number of entries, a function keeps the number it
  had, and the prelink script reads the entries as they were written.\<close>

theorem function_numbers_well_formed:
  assumes "compile ndebug order PDT opts Ms fs = Inr (Ms', fs')" "list_all wf_unit Ms" "list_all closed_unit Ms" "some_order order"
    "project (cfi_prefix opts) ns es fs" "length ns + (\<Sum>M \<leftarrow> Ms. length (m_functions M)) < 2 ^ 32"
    "cfi_ignore opts \<notin> table_files (cfi_prefix opts)"
  shows "\<exists>es'. distinct (map fst es') \<and> (unat \<circ> fst \<circ> snd) ` set es' = {0..<length es'} \<and>
    (\<forall>(name, i, flags) \<in> set es. \<exists>flags'. (name, i, flags') \<in> set es') \<and>
    parse_fctids (text_of fs' (cfi_prefix opts @ ''.fctid'')) = Some (map (\<lambda>(name, i, flags). (name, int (unat i), flags)) es')"
proof -
  obtain ms es' where p: "project (cfi_prefix opts) (ns @ ms) es' fs'" using compile_units [OF assms] by blast
  then have t: "table_of (ns @ ms) es'" "list_all entry_ok es'" "distinct (map fst es')"
      "text_of fs' (cfi_prefix opts @ ''.fctid'') = concat (map entry_line es')"
    by (simp_all add: project_def table_of_def)
  have old: "table_of ns es" using assms(5) by (simp add: project_def)
  have "\<exists>flags'. (name, i, flags') \<in> set es'" if "(name, i, flags) \<in> set es" for name i flags
    using table_of_kept [OF old t(1) that] .
  then show ?thesis using t(3,4) table_of_numbers [OF t(1)] parse_fctids_lines [OF t(2,3)] by (intro exI [of _ es']) auto
qed

theorem function_numbers_well_formed_witness:
  "\<exists>es' :: (string \<times> u32 \<times> string) list. distinct (map fst es') \<and> (unat \<circ> fst \<circ> snd) ` set es' = {0..<length es'} \<and>
     parse_fctids (text_of exp_files_both ''p.fctid'') = Some (map (\<lambda>(name, i, flags). (name, int (unat i), flags)) es')"
proof -
  have proj: "project (cfi_prefix exp_options) [] [] exp_files" "cfi_ignore exp_options \<notin> table_files (cfi_prefix exp_options)"
    using exp_fresh by (simp_all add: fresh_project_def project_def table_files_def)
  have wf: "list_all wf_unit [exp_main, exp_g]" "list_all closed_unit [exp_main, exp_g]" using exp_sound by (simp_all only: sound_program_def)
  have small: "length ([] :: string list) + (\<Sum>M \<leftarrow> [exp_main, exp_g]. length (m_functions M)) < 2 ^ 32"
    by (simp add: exp_main_def exp_g_def exp_unit_def)
  note function_numbers_well_formed [OF exp_compile wf some_order_id(1) proj(1) small proj(2)]
  moreover have "cfi_prefix exp_options @ ''.fctid'' = ''p.fctid''" by (simp add: exp_options_def)
  ultimately show ?thesis by (simp only: list.set(1) ball_simps(5) simp_thms)
qed

text \<open>C21: a unit whose functions make indirect calls or end a block with \<open>invoke\<close> is not compiled.\<close>

theorem unanalysable_unit_refused:
  assumes "wf_unit M" "some_order order" "project (cfi_prefix opts) ns es fs" "length ns + length (m_functions M) < 2 ^ 32"
    "F \<in> set (watched_functions M (ignored_names opts fs))" "\<not> analysable (fn_blocks F)"
  shows "\<exists>e. runOnModule ndebug order PDT opts M fs = Inl e"
proof (cases "runOnModule ndebug order PDT opts M fs")
  case (Inr r)
  then obtain M' fs' where "runOnModule ndebug order PDT opts M fs = Inr (M', fs')" by (cases r) simp
  from run_unit [OF this assms(1-4)] obtain ms M1 cfi where "compiled_unit ndebug order opts M ns es fs ms M1 cfi M' fs'" by blast
  then have c: "same_code M M1" "IgnoredFunctions cfi = ignored_names opts fs"
      "\<forall>F \<in> set (watched_functions M1 (IgnoredFunctions cfi)). analysable (fn_blocks F)"
    unfolding compiled_unit_def by blast+
  have "map fn_blocks (watched_functions M1 (ignored_names opts fs)) = map fn_blocks (watched_functions M (ignored_names opts fs))"
    using c(1) by (rule same_code_watched) simp
  then have "fn_blocks F \<in> set (map fn_blocks (watched_functions M1 (ignored_names opts fs)))" using assms(5) by simp
  then show ?thesis using c(2,3) assms(6) by auto
qed simp

theorem unanalysable_unit_refused_witness:
  "\<exists>e. runOnModule False (\<lambda>ks. ks) (\<lambda>_ _ _. None) exp_options
     (exp_unit [exp_function ''f'' [exp_block [CallInst [] Indirect []] Ret]]) exp_files = Inl e"
proof (rule unanalysable_unit_refused)
  show "project (cfi_prefix exp_options) [] [] exp_files" using exp_fresh by (simp add: fresh_project_def project_def table_files_def)
  show "exp_function ''f'' [exp_block [CallInst [] Indirect []] Ret] \<in>
      set (watched_functions (exp_unit [exp_function ''f'' [exp_block [CallInst [] Indirect []] Ret]]) (ignored_names exp_options exp_files))"
    by (simp add: watched_functions_def watched_def exp_ignored exp_unit_def exp_function_def)
  show "\<not> analysable (fn_blocks (exp_function ''f'' [exp_block [CallInst [] Indirect []] Ret]))"
    by (simp add: analysable_def exp_function_def exp_block_def)
qed (simp_all add: some_order_id wf_unit_def is_word_def is_space_def exp_unit_def exp_function_def)

text \<open>C36: a damaged table of numbers goes unnoticed. When the file holds entries and behind them a text that is not an
  entry, the loop of the reader takes the entries and stops; the test for a bad input file that follows asks
  \<open>peek\<close> of a stream that has failed, which answers \<open>EOF\<close>. The compilation goes on as if the file ended
  there, with the numbers of the entries before the damage and none of those behind it.\<close>

theorem bad_table_not_reported:
  assumes "wf_unit M" "table_of ns es" "list_all entry_ok es" "knows [] cfi" "FunctionMap cfi = []"
    "length ns + length (m_functions M) < 2 ^ 32"
    "contents fs (fun_id_file cfi) = Some (concat (map entry_line es) @ junk)" "fst (read_entries (open_in junk)) = []"
  shows "\<exists>cfi'. IdentifyFunctions ndebug fs M cfi = Inr cfi' \<and>
    IdentifyFunctions ndebug (fs\<lparr>contents := (contents fs)(fun_id_file cfi \<mapsto> concat (map entry_line es))\<rparr>) M cfi = Inr cfi' \<and>
    (\<forall>(name, i, flags) \<in> set es. IdentifiedFunctions cfi' name = Some i)"
proof -
  let ?fs = "fs\<lparr>contents := (contents fs)(fun_id_file cfi \<mapsto> concat (map entry_line es))\<rparr>"
  have "fst (read_entries (open_in (text_of ?fs (fun_id_file cfi)))) = es"
    using read_entries_lines [OF assms(3)] by (simp add: text_of_def)
  from identified_text [OF assms(1,2,4,5) this assms(6), where ndebug = ndebug] obtain ms cfi' where
    r: "IdentifyFunctions ndebug ?fs M cfi = Inr cfi'" "cfi' = cfi\<lparr>IdentifiedFunctions := numbers (ns @ ms),
      fun_id_ctr := of_nat (length (ns @ ms)), FunctionMap := map (fct_of (ns @ ms)) (watched_functions M (IgnoredFunctions cfi))\<rparr>"
    by blast
  have "fst (read_entries (open_in (concat (map entry_line es) @ junk))) = fst (read_entries (open_in (concat (map entry_line es))))"
    using read_entries_lines_junk [OF assms(3), of junk] read_entries_lines [OF assms(3)] assms(8) by simp
  then have "IdentifyFunctions ndebug fs M cfi = IdentifyFunctions ndebug ?fs M cfi"
    by (intro IdentifyFunctions_text [OF assms(7), where s' = "concat (map entry_line es)"]) simp_all
  then show ?thesis using r table_of_numbered [OF assms(2)] by auto
qed

theorem bad_table_not_reported_witness:
  "\<exists>cfi'. IdentifyFunctions False exd_files exp_main exd_cfi = Inr cfi' \<and> IdentifiedFunctions cfi' ''main'' = Some 0"
  using bad_table_not_reported [of exp_main "[''main'']" "[(''main'', 0, ''Main'')]" exd_cfi exd_files exd_junk False]
    exd_table exd_read exp_wf_main exp_size by (auto simp: exd_files_def exd_cfi_def knows_def numbers_def)

section \<open>The printed module\<close>

text \<open>C26: the printed tables are the packed tables. The script prints a section as string literals, 64 characters to a
  line; a C compiler that reads the declaration back finds in the array the bytes of the packet the
  constructor is meant to send.\<close>

theorem printed_sections_read_back:
  "compiled_section s (section_text s) = Some (snd (section_packet s))"
  by (rule compiled_section_text)

text \<open>C27: the monitor waits for the runs there will be. A C compiler reads the text of the two wrappers as functions,
  one that calls each initialiser the table of functions has, once, and one that calls each finaliser, once;
  the module the monitor loads from the same tables expects as many runs of each.\<close>

theorem wrappers_run_what_is_expected:
  assumes "prelink pyorder prefix fs = Some t" "contents fs (prefix @ ''.fctid'') = Some txt" "parse_fctids txt = Some fcts"
    "some_order norder" "about_to_load sys l mon w" "loadable (sections t) empty_module" "\<not> OPTION_sm_dump opts"
  shows "\<exists>inits finis l' md w'.
    c_wrapper (gen_init_wrapper norder fcts) = Some (''_init_wrapper'', inits) \<and>
    c_wrapper (gen_fini_wrapper norder fcts) = Some (''_fini_wrapper'', finis) \<and>
    distinct inits \<and> set inits = {f. \<exists>i. (f, i, ''Init'') \<in> set fcts} \<and>
    distinct finis \<and> set finis = {f. \<exists>i. (f, i, ''Fini'') \<in> set fcts} \<and>
    init_cfi sys g t l = Inr l' \<and>
    monitor_load_module opts gp mon (w\<lparr>loading_to_monitor := ld_to_monitor l'\<rparr>) =
      Some (0, mon\<lparr>nb_modules := nb_modules mon + 1, modules := Some (module_list mon @ [md])\<rparr>, w') \<and>
    unat (nb_entrypoint_inits md) = length inits \<and> unat (nb_entrypoint_finis md) = length finis"
proof -
  have packed: "pack_all pack_function fcts = Some (t_fcts t)"
    using assms(1-3) by (auto simp: prelink_def bind_eq_Some_conv split: option.splits)
  obtain l' w' where run: "init_cfi sys g t l = Inr l'"
      "monitor_load_module opts gp mon (w\<lparr>loading_to_monitor := ld_to_monitor l'\<rparr>) =
        Some (0, mon\<lparr>nb_modules := nb_modules mon + 1, modules := Some (module_list mon @ [loaded_module t])\<rparr>, w')"
    using about_to_load_loads [OF assms(5-7)] .
  show ?thesis
    using gen_wrappers_read [OF assms(3,4)] run wrapper_counts_nat [OF packed assms(4) loadable_size [OF assms(6)]]
      flagged_calls [OF assms(4) parse_fctids_distinct [OF assms(3)]]
    by (intro exI [of _ "flagged _ norder fcts"] exI [of _ l'] exI [of _ "loaded_module t"] exI [of _ w'] conjI)
qed

theorem wrappers_run_what_is_expected_witness:
  "c_wrapper (gen_init_wrapper (\<lambda>ks. ks) [(''i'', 0, ''Init'')]) = Some (''_init_wrapper'', [''i'']) \<and>
   (\<exists>(l' :: loader) md w'. monitor_load_module ex_options no_packet no_modules ((ex_world [])\<lparr>loading_to_monitor := ld_to_monitor l'\<rparr>) =
      Some (0, no_modules\<lparr>nb_modules := 1, modules := Some [md]\<rparr>, w') \<and> unat (nb_entrypoint_inits md) = 1)"
proof -
  have f: "contents exi_files (''p'' @ ''.fctid'') = Some (entry_line (''i'', 0, ''Init''))" by (simp add: exi_files_def)
  have "\<not> OPTION_sm_dump ex_options" by simp
  from wrappers_run_what_is_expected [OF exi_prelink f exi_parse some_order_id(1) exp_about_to_load exi_loadable this, of 0 no_packet]
  show ?thesis
  proof (elim exE conjE)
    fix inits finis :: "string list" and l' :: loader and md w'
    assume c: "c_wrapper (gen_init_wrapper (\<lambda>ks. ks) [(''i'', 0, ''Init'')]) = Some (''_init_wrapper'', inits)"
      and i: "distinct inits" "set inits = {f. \<exists>i. (f, i, ''Init'') \<in> set [(''i'', 0 :: int, ''Init'')]}"
      and l: "monitor_load_module ex_options no_packet no_modules ((ex_world [])\<lparr>loading_to_monitor := ld_to_monitor l'\<rparr>) =
        Some (0, no_modules\<lparr>nb_modules := nb_modules no_modules + 1, modules := Some (module_list no_modules @ [md])\<rparr>, w')"
      and n: "unat (nb_entrypoint_inits md) = length inits"
    have "set inits = {''i''}" using i(2) by simp
    then have "inits = [''i'']" using i(1) by (cases inits; cases "tl inits") auto
    moreover have "no_modules\<lparr>nb_modules := nb_modules no_modules + 1, modules := Some (module_list no_modules @ [md])\<rparr> =
        no_modules\<lparr>nb_modules := 1, modules := Some [md]\<rparr>" by simp
    ultimately show ?thesis using c l n by (intro conjI exI [of _ l'] exI [of _ md] exI [of _ w']) simp_all
  qed
qed

section \<open>The whole of a protected program\<close>

text \<open>C4: the verdict on a program of one module. Its constructor sends the tables, the monitor process loads them and
  serves it; the process ends with status 0 exactly when the client's signals start with an activation of the
  main function, along the calls and jumps of the tables. Memory is granted in place and the module has
  no external functions, initialisers or finalisers.\<close>

theorem monitor_verdict:
  assumes "loadable (sections t) empty_module" "self_contained t" "launches sys opts" "smooth w" "connected csys l"
    "client_to_monitor w = map encode_signal ts"
  shows "\<exists>l'. init_cfi csys gm t l = Inr l' \<and>
    ((\<exists>acts w'. main opts g gp gdata exec_ok sys (w\<lparr>loading_to_monitor := ld_to_monitor l'\<rparr>) = Some (Return 0, acts, w')) \<longleftrightarrow>
      keeps_to t ts)"
  using assms by (rule monitored_verdict)

theorem monitor_verdict_witness:
  "\<exists>l'. init_cfi ex_system 9 exp_tables exp_loader = Inr l' \<and>
    \<not> (\<exists>acts w'. main ex_options (ex_signal CFI_CALL 9 9 9) no_packet no_modules True ex_launch
        ((ex_world [ex_signal CFI_CALL 0 1 0])\<lparr>loading_to_monitor := ld_to_monitor l'\<rparr>) = Some (Return 0, acts, w'))"
proof -
  have "\<not> keeps_to exp_tables [ex_signal CFI_CALL 0 1 0]"
    by (auto simp: keeps_to_def append_eq_Cons_conv Cons_eq_append_conv elim!: activationE)
  then show ?thesis
    using monitor_verdict [OF exp_loadable exp_self_contained exp_launches ex_world_smooth(1) exp_connected(1) ex_world_smooth(3)]
    by blast
qed

text \<open>C3: Picon lets a protected program run. The units of a program are compiled and prelinked; the constructor
  sends the tables, the hooks of a complete run of \<open>main\<close> send their signals. The monitor process ends with status 0,
  and with the answers it wrote the program gets through all its hooks.\<close>

theorem protected_program_runs:
  assumes "compile ndebug order PDT opts Ms fs = Inr (Ms', fs')" "some_order order" "some_order pyorder"
    "fresh_project opts fs" "sound_program (ignored_names opts fs) Ms" "(\<Sum>M \<leftarrow> Ms. length (m_functions M)) < 2 ^ 32"
    "prelink pyorder (cfi_prefix opts) fs' = Some t" "loadable (sections t) empty_module" "self_contained t"
    "(bytes_of f, i, ''Main'') \<in> set (t_fcts t)" "runs (program_of Ms') f hs"
    "launches sys mopts" "smooth w" "monitor_to_client w = []" "client_to_monitor w = map (encode_signal \<circ> hook_signal 0) hs"
    "connected csys l" "c_write (ld_client l) = (\<lambda>_. True)" "to_monitor (ld_client l) = []"
  shows "\<exists>l' acts w' c'. init_cfi csys gm t l = Inr l' \<and>
    main mopts g gp gdata exec_ok sys (w\<lparr>loading_to_monitor := ld_to_monitor l'\<rparr>) = Some (Return 0, acts, w') \<and>
    do_hooks ga hs ((ld_client l')\<lparr>from_monitor := monitor_to_client w'\<rparr>) = Inr c' \<and> to_monitor c' = client_to_monitor w"
  using assms by (rule protected_run)

theorem protected_program_runs_witness:
  "\<exists>l' acts w' c'. init_cfi ex_system 9 exp_tables exp_loader = Inr l' \<and>
    main ex_options (ex_signal CFI_CALL 9 9 9) no_packet no_modules True ex_launch
      ((ex_world (map (hook_signal 0) exp_hooks))\<lparr>loading_to_monitor := ld_to_monitor l'\<rparr>) = Some (Return 0, acts, w') \<and>
    do_hooks 0 exp_hooks ((ld_client l')\<lparr>from_monitor := monitor_to_client w'\<rparr>) = Inr c' \<and>
    to_monitor c' = client_to_monitor (ex_world (map (hook_signal 0) exp_hooks))"
proof (rule protected_program_runs)
  show "compile True (\<lambda>ks. ks) (\<lambda>_ _ _ _. None) exp_options [exp_main, exp_g] exp_files = Inr ([exp_main_result, exp_g_result], exp_files_both)"
    by (rule exp_compile)
  show "prelink (\<lambda>ks. ks) (cfi_prefix exp_options) exp_files_both = Some exp_tables"
    using exp_prelink by (simp add: exp_options_def)
  show "sound_program (ignored_names exp_options exp_files) [exp_main, exp_g]" using exp_sound by (simp add: exp_ignored)
  show "(\<Sum>M \<leftarrow> [exp_main, exp_g]. length (m_functions M)) < 2 ^ 32" by (simp add: exp_main_def exp_g_def exp_unit_def)
  show "(bytes_of ''main'', 0, ''Main'') \<in> set (t_fcts exp_tables)" by (simp add: exp_tables_def)
  show "c_write (ld_client exp_loader) = (\<lambda>_. True)" "to_monitor (ld_client exp_loader) = []"
    by (simp_all add: exp_connected(2) ex_client_fresh)
  show "client_to_monitor (ex_world (map (hook_signal 0) exp_hooks)) = map (encode_signal \<circ> hook_signal 0) exp_hooks"
    by (simp add: ex_world_smooth(3))
qed (rule some_order_id exp_fresh exp_loadable exp_self_contained exp_runs exp_launches ex_world_smooth(1,2) exp_connected(1))+

section \<open>The client and its monitor\<close>

text \<open>C20: the client runs in lockstep with the answers. With \<open>n\<close> answers to come, a program gets past its first
  \<open>n\<close> hooks, reports the next event if there is one, and is stopped there; every report carries the
  number of its module.\<close>

theorem client_in_lockstep:
  assumes "c_write c = (\<lambda>_. True)" "from_monitor c = replicate n [CFI_OK]"
  shows "\<exists>c'. do_hooks ga hs c = (if length hs \<le> n then Inr c' else Inl c') \<and>
    to_monitor c' = to_monitor c @ map (encode_signal \<circ> hook_signal (sig_module (cs c))) (take (Suc n) hs)"
  using assms by (rule do_hooks_lockstep)

theorem client_in_lockstep_witness:
  "\<exists>c'. do_hooks 0 [Enter 1, Call 2] (ex_client\<lparr>from_monitor := [[CFI_OK]]\<rparr>) = Inl c'"
  using client_in_lockstep [of "ex_client\<lparr>from_monitor := [[CFI_OK]]\<rparr>" 1 0 "[Enter 1, Call 2]"]
  by (auto simp: ex_client_def)

text \<open>C18: an honest program is never stopped. When the events its hooks report are a complete activation of an entry
  point, the monitor accepts them all and the answers it writes let the program run to its end.\<close>

theorem honest_client_runs:
  assumes "wf_modules data" "relocs_ok data" "Alloc_Fail \<notin> range (w_alloc w)" "monitor_to_client w = []"
    "entry_point data m f" "activation data m f (map (hook_signal (sig_module (cs c))) hs)"
    "depth_fits opts w (call_depth 0 (map (hook_signal (sig_module (cs c))) hs))" "responsive opts w"
    "client_to_monitor w = map encode_signal (map (hook_signal (sig_module (cs c))) hs)"
    "c_write c = (\<lambda>_. True)" "to_monitor c = []"
  shows "\<exists>w' c'. monitor_run opts g data w = Some (0, w') \<and>
    do_hooks ga hs (c\<lparr>from_monitor := monitor_to_client w'\<rparr>) = Inr c' \<and> to_monitor c' = client_to_monitor w"
proof -
  obtain w' where run: "monitor_run opts g data w = Some (0, w')"
      "monitor_to_client w' = replicate (length hs) [CFI_OK]"
    using monitor_run_complete [OF assms(1-3) _ assms(5,6,7,8), of "[]" g] assms(4,9) by auto
  have "\<exists>c'. do_hooks ga hs (c\<lparr>from_monitor := monitor_to_client w'\<rparr>) = Inr c' \<and>
      to_monitor c' = map (encode_signal \<circ> hook_signal (sig_module (cs c))) hs"
    using do_hooks_lockstep [of "c\<lparr>from_monitor := monitor_to_client w'\<rparr>" "length hs" ga hs] assms(10,11) run(2) by auto
  then show ?thesis using run(1) assms(9) by auto
qed

theorem honest_client_runs_witness:
  "\<exists>w' c'. monitor_run ex_options (ex_signal CFI_CALL 9 9 9) exm_data (ex_world exm_trace) = Some (0, w') \<and>
     do_hooks 0 [Enter 0, Leave 0] (exm_client\<lparr>from_monitor := monitor_to_client w'\<rparr>) = Inr c'"
  using honest_client_runs [OF exm_data_ok, of "ex_world exm_trace" 0 0 exm_client "[Enter 0, Leave 0]" ex_options
      "ex_signal CFI_CALL 9 9 9" 0] exm_activation
  unfolding exm_hooks by (auto simp: exm_client_def ex_client_def CFI_SET_MODULE_ID_def)

text \<open>C19: a program that gets through is honest. When a monitored run ends well and the answers it wrote let a program
  finish all its hooks, the events the program reported are a complete activation of an entry point.\<close>

theorem finished_client_is_honest:
  assumes "wf_modules data" "relocs_ok data" "Alloc_Fail \<notin> range (w_alloc w)" "monitor_to_client w = []"
    "client_to_monitor w = map encode_signal (map (hook_signal (sig_module (cs c))) hs)"
    "monitor_run opts g data w = Some (0, w')" "c_write c = (\<lambda>_. True)"
    "do_hooks ga hs (c\<lparr>from_monitor := monitor_to_client w'\<rparr>) = Inr c'"
  shows "\<exists>m f. entry_point data m f \<and> activation data m f (map (hook_signal (sig_module (cs c))) hs)"
proof -
  obtain us vs m f where u: "map (hook_signal (sig_module (cs c))) hs = us @ vs" "entry_point data m f" "activation data m f us"
      "monitor_to_client w' = replicate (length us) [CFI_OK]"
    using monitor_run_sound [OF assms(1-3,5,6)] assms(4) by auto
  have "length hs \<le> length us"
    using do_hooks_lockstep [of "c\<lparr>from_monitor := monitor_to_client w'\<rparr>" "length us" ga hs] assms(7,8) u(4)
    by (auto split: if_splits)
  then have "vs = []" using arg_cong [OF u(1), of length] by simp
  then show ?thesis using u by auto
qed

theorem finished_client_is_honest_witness:
  "\<exists>m f. entry_point exm_data m f \<and> activation exm_data m f (map (hook_signal 0) [Enter 0, Leave 0])"
proof -
  have c: "sig_module (cs exm_client) = 0" "c_write exm_client = (\<lambda>_. True)"
    by (simp_all add: exm_client_def ex_client_def CFI_SET_MODULE_ID_def)
  have world: "client_to_monitor (ex_world exm_trace) = map encode_signal (map (hook_signal (sig_module (cs exm_client))) [Enter 0, Leave 0])"
    unfolding exm_hooks by simp
  obtain w' where run: "monitor_run ex_options (ex_signal CFI_CALL 9 9 9) exm_data (ex_world exm_trace) = Some (0, w')"
      "monitor_to_client w' = replicate (length exm_trace) [CFI_OK]"
    using monitor_run_complete [OF exm_data_ok, of "ex_world exm_trace" exm_trace "[]" 0 0 ex_options "ex_signal CFI_CALL 9 9 9"]
      exm_activation by auto
  obtain c' where "do_hooks 0 [Enter 0, Leave 0] (exm_client\<lparr>from_monitor := monitor_to_client w'\<rparr>) = Inr c'"
    using do_hooks_lockstep [of "exm_client\<lparr>from_monitor := monitor_to_client w'\<rparr>" "length exm_trace" 0 "[Enter 0, Leave 0]"] c(2) run(2)
    by (auto simp: exm_trace_def)
  from finished_client_is_honest [OF exm_data_ok _ _ world run(1) c(2) this] show ?thesis using c(1) by simp
qed

end
